(* ===== verification/Prelude.thy ===== *)
theory Prelude
  imports Main "HOL-Library.List_Lexorder" "HOL-Library.Char_ord" "HOL-Library.Product_Lexorder"
begin

text \<open>
  The shared base of the development: the theorem collections the component theories fill,
  the machine arithmetic the engine relies on (64-bit wrap-around, the rounding of an integer to
  a double), fixed-width decimal text, and the facts on lists that the Redis containers need.
\<close>

named_theorems key_simps \<open>Redis key names: distinctness and injectivity\<close>
named_theorems cmd_simps \<open>symbolic execution of documented Redis commands\<close>
named_theorems json_simps \<open>encoding and decoding of task messages\<close>


section \<open>Machine integers\<close>

text \<open>A Go \<open>int\<close>, \<open>int64\<close> or \<open>time.Duration\<close> is an \<open>int\<close> here; an operation whose result may leave
  the 64-bit range is followed by \<open>wrap64\<close>.\<close>

definition wrap64 :: "int \<Rightarrow> int" where
  "wrap64 x = signed_take_bit 63 x"

definition int64_range :: "int \<Rightarrow> bool" where
  "int64_range x \<longleftrightarrow> - (2 ^ 63) \<le> x \<and> x < 2 ^ 63"

text \<open>Go's integer division truncates towards zero.\<close>

definition quot :: "int \<Rightarrow> int \<Rightarrow> int" where
  "quot a b = sgn a * sgn b * (\<bar>a\<bar> div \<bar>b\<bar>)"


section \<open>Doubles that hold integers\<close>

text \<open>
  \<open>float64 (n)\<close> for an integer \<open>n\<close>: the nearest double, ties to even. A double has 53 bits of
  significand, so \<open>f64_shift m\<close> low bits of a magnitude \<open>m\<close> are rounded away.
\<close>

fun f64_shift :: "nat \<Rightarrow> nat" where
  "f64_shift m = (if m < 2 ^ 53 then 0 else Suc (f64_shift (m div 2)))"

declare f64_shift.simps [simp del]

definition f64_round_nat :: "nat \<Rightarrow> nat" where
  "f64_round_nat m =
     (let k = f64_shift m; q = m div 2 ^ k; r = m mod 2 ^ k
      in (if 2 * r > 2 ^ k \<or> 2 * r = 2 ^ k \<and> odd q then q + 1 else q) * 2 ^ k)"

definition f64_of_int :: "int \<Rightarrow> int" where
  "f64_of_int n = (if n < 0 then - int (f64_round_nat (nat (- n))) else int (f64_round_nat (nat n)))"


section \<open>Decimal text of fixed width\<close>

definition digit_char :: "nat \<Rightarrow> char" where
  "digit_char d = char_of (48 + d)"

text \<open>The last \<open>w\<close> decimal digits of \<open>n\<close>, zero padded: \<open>printf\<close>'s \<open>%0wd\<close> for \<open>n < 10 ^ w\<close>.\<close>

fun pad_dec :: "nat \<Rightarrow> nat \<Rightarrow> string" where
  "pad_dec 0 n = []"
| "pad_dec (Suc w) n = pad_dec w (n div 10) @ [digit_char (n mod 10)]"

text \<open>\<open>%d\<close>: the decimal text of an integer.\<close>

fun dec_nat :: "nat \<Rightarrow> string" where
  "dec_nat n = (if n < 10 then [digit_char n] else dec_nat (n div 10) @ [digit_char (n mod 10)])"

declare dec_nat.simps [simp del]

definition dec_int :: "int \<Rightarrow> string" where
  "dec_int n = (if n < 0 then CHR ''-'' # dec_nat (nat (- n)) else dec_nat (nat n))"


section \<open>Lemmas: wrap-around\<close>

lemma wrap64_range: "int64_range (wrap64 x)"
  unfolding wrap64_def int64_range_def
  using signed_take_bit_int_greater_eq_minus_exp [of 63 x] signed_take_bit_int_less_exp [of 63 x]
  by simp

lemma wrap64_id: "int64_range x \<Longrightarrow> wrap64 x = x"
  unfolding wrap64_def int64_range_def by (simp add: signed_take_bit_int_eq_self)

lemma quot_nonneg: "0 \<le> a \<Longrightarrow> 0 < b \<Longrightarrow> quot a b = a div b"
  by (cases "a = 0") (simp_all add: quot_def)


section \<open>Lemmas: rounding to a double\<close>

lemma f64_shift_upper: "m < 2 ^ (53 + f64_shift m)"
proof (induction m rule: f64_shift.induct)
  case (1 m)
  show ?case
  proof (cases "m < 2 ^ 53")
    case False
    with 1 have "m div 2 < 2 ^ (53 + f64_shift (m div 2))" by simp
    then have "m < 2 ^ Suc (53 + f64_shift (m div 2))" unfolding power_Suc by linarith
    with False show ?thesis by (simp add: f64_shift.simps [of m] del: power_Suc)
  qed (simp add: f64_shift.simps [of m])
qed

lemma f64_shift_lower: "0 < f64_shift m \<Longrightarrow> 2 ^ (52 + f64_shift m) \<le> m"
proof (induction m rule: f64_shift.induct)
  case (1 m)
  then have big: "\<not> m < 2 ^ 53" by (auto simp: f64_shift.simps [of m] split: if_splits)
  show ?case
  proof (cases "f64_shift (m div 2)")
    case 0
    with big show ?thesis by (simp add: f64_shift.simps [of m])
  next
    case (Suc k)
    with 1 big have "2 ^ (52 + f64_shift (m div 2)) \<le> m div 2" by simp
    then have "2 ^ Suc (52 + f64_shift (m div 2)) \<le> m" unfolding power_Suc by linarith
    with big show ?thesis by (simp add: f64_shift.simps [of m] del: power_Suc)
  qed
qed

lemma f64_shift_mono: "m \<le> n \<Longrightarrow> f64_shift m \<le> f64_shift n"
proof (rule ccontr)
  assume le: "m \<le> n" and "\<not> f64_shift m \<le> f64_shift n"
  then have "f64_shift n < f64_shift m" and pos: "0 < f64_shift m" by simp_all
  then have "(2::nat) ^ (53 + f64_shift n) \<le> 2 ^ (52 + f64_shift m)"
    by (intro power_increasing) simp_all
  also have "\<dots> \<le> m" using f64_shift_lower [OF pos] .
  also have "\<dots> < 2 ^ (53 + f64_shift n)" using le f64_shift_upper [of n] by simp
  finally show False by simp
qed

lemma f64_round_nat_bounds:
  "(m div 2 ^ f64_shift m) * 2 ^ f64_shift m \<le> f64_round_nat m"
  "f64_round_nat m \<le> (m div 2 ^ f64_shift m + 1) * 2 ^ f64_shift m"
  "f64_round_nat m \<le> 2 ^ (53 + f64_shift m)"
proof -
  let ?k = "f64_shift m"
  show "(m div 2 ^ ?k) * 2 ^ ?k \<le> f64_round_nat m"
    and le: "f64_round_nat m \<le> (m div 2 ^ ?k + 1) * 2 ^ ?k"
    by (simp_all add: f64_round_nat_def Let_def)
  have "m div 2 ^ ?k < 2 ^ 53"
    using f64_shift_upper [of m] by (simp add: less_mult_imp_div_less power_add)
  then have "(m div 2 ^ ?k + 1) * 2 ^ ?k \<le> 2 ^ 53 * 2 ^ ?k" by (intro mult_right_mono) simp_all
  with le show "f64_round_nat m \<le> 2 ^ (53 + ?k)" unfolding power_add by (rule order_trans)
qed

lemma f64_round_nat_mono_same:
  assumes "m \<le> n" and "f64_shift m = f64_shift n"
  shows "f64_round_nat m \<le> f64_round_nat n"
proof -
  let ?P = "(2::nat) ^ f64_shift n"
  have qq: "m div ?P \<le> n div ?P" using assms(1) by (rule div_le_mono)
  show ?thesis
  proof (cases "m div ?P = n div ?P")
    case True
    then have "m mod ?P \<le> n mod ?P"
      using assms(1) by (metis add_le_cancel_left mult_div_mod_eq)
    with True show ?thesis unfolding f64_round_nat_def Let_def assms(2) by auto
  next
    case False
    with qq have "m div ?P + 1 \<le> n div ?P" by simp
    then have "(m div ?P + 1) * ?P \<le> (n div ?P) * ?P" by (intro mult_right_mono) simp_all
    with f64_round_nat_bounds(2) [of m] f64_round_nat_bounds(1) [of n] assms(2)
    show ?thesis by simp
  qed
qed

lemma f64_round_nat_mono: "m \<le> n \<Longrightarrow> f64_round_nat m \<le> f64_round_nat n"
proof -
  assume le: "m \<le> n"
  show ?thesis
  proof (cases "f64_shift m = f64_shift n")
    case True
    with le show ?thesis by (rule f64_round_nat_mono_same)
  next
    case False
    with f64_shift_mono [OF le] have lt: "f64_shift m < f64_shift n" by simp
    have "f64_round_nat m \<le> 2 ^ (53 + f64_shift m)" by (rule f64_round_nat_bounds(3))
    also have "\<dots> \<le> 2 ^ (52 + f64_shift n)" using lt by (intro power_increasing) simp_all
    also have "\<dots> = (2 ^ (52 + f64_shift n) div 2 ^ f64_shift n) * 2 ^ f64_shift n"
      by (simp add: power_add)
    also have "\<dots> \<le> (n div 2 ^ f64_shift n) * 2 ^ f64_shift n"
      using f64_shift_lower [of n] lt by (intro mult_right_mono div_le_mono) simp_all
    also have "\<dots> \<le> f64_round_nat n" by (rule f64_round_nat_bounds(1))
    finally show ?thesis .
  qed
qed

lemma f64_round_nat_small: "m < 2 ^ 53 \<Longrightarrow> f64_round_nat m = m"
  by (simp add: f64_round_nat_def f64_shift.simps)

lemma f64_round_nat_0 [simp]: "f64_round_nat 0 = 0"
  by (rule f64_round_nat_small) simp

lemma f64_round_nat_fixed: "a \<le> 2 ^ 53 \<Longrightarrow> f64_round_nat (a * 2 ^ k) = a * 2 ^ k"
proof -
  assume a: "a \<le> 2 ^ 53"
  define x where "x = a * 2 ^ k"
  have dvd: "2 ^ f64_shift x dvd x"
  proof (cases "f64_shift x \<le> k")
    case True
    then show ?thesis by (simp add: x_def le_imp_power_dvd)
  next
    case False
    then have s: "Suc k \<le> f64_shift x" and "0 < f64_shift x" by simp_all
    then have low: "2 ^ (52 + f64_shift x) \<le> x" using f64_shift_lower by blast
    have "x \<le> 2 ^ 53 * 2 ^ k" unfolding x_def using a by (intro mult_right_mono) simp_all
    then have up: "x \<le> 2 ^ (52 + Suc k)" by (simp add: power_add)
    from low up have "(2::nat) ^ (52 + f64_shift x) \<le> 2 ^ (52 + Suc k)" by linarith
    then have "f64_shift x \<le> Suc k" by (simp del: power_Suc)
    with s have eq: "f64_shift x = Suc k" by simp
    with low up have "x = 2 ^ (52 + Suc k)" by simp
    then show ?thesis unfolding eq by (simp add: le_imp_power_dvd del: power_Suc)
  qed
  then have "x mod 2 ^ f64_shift x = 0" by simp
  then show ?thesis unfolding x_def [symmetric] f64_round_nat_def Let_def
    using dvd by simp
qed

lemma f64_round_nat_idem: "f64_round_nat (f64_round_nat m) = f64_round_nat m"
proof -
  let ?k = "f64_shift m"
  have q: "m div 2 ^ ?k < 2 ^ 53"
    using f64_shift_upper [of m] by (simp add: less_mult_imp_div_less power_add)
  obtain a where a: "f64_round_nat m = a * 2 ^ ?k" and "a \<le> m div 2 ^ ?k + 1"
    by (auto simp: f64_round_nat_def Let_def)
  with q have "a \<le> 2 ^ 53" by simp
  then show ?thesis unfolding a by (rule f64_round_nat_fixed)
qed

lemma f64_round_nat_error:
  "2 * f64_round_nat m \<le> 2 * m + 2 ^ f64_shift m" "2 * m \<le> 2 * f64_round_nat m + 2 ^ f64_shift m"
proof -
  let ?P = "(2::nat) ^ f64_shift m"
  define up where "up \<longleftrightarrow> 2 * (m mod ?P) > ?P \<or> 2 * (m mod ?P) = ?P \<and> odd (m div ?P)"
  have m: "(m div ?P) * ?P + m mod ?P = m" by (rule div_mult_mod_eq)
  have r: "m mod ?P < ?P" by simp
  have rd: "f64_round_nat m = (m div ?P) * ?P + (if up then ?P else 0)"
    by (simp add: f64_round_nat_def Let_def up_def add_mult_distrib)
  have hi: "up \<Longrightarrow> ?P \<le> 2 * (m mod ?P)" and lo: "\<not> up \<Longrightarrow> 2 * (m mod ?P) \<le> ?P"
    by (auto simp: up_def)
  show "2 * f64_round_nat m \<le> 2 * m + ?P"
    using m r hi lo rd by (cases up) simp_all
  show "2 * m \<le> 2 * f64_round_nat m + ?P"
  proof (cases up)
    case True
    then have "f64_round_nat m = (m div ?P) * ?P + ?P" using rd by simp
    with m r show ?thesis by linarith
  next
    case False
    with m lo rd show ?thesis by simp
  qed
qed

lemma f64_of_int_mono: "x \<le> y \<Longrightarrow> f64_of_int x \<le> f64_of_int y"
proof -
  assume le: "x \<le> y"
  consider "0 \<le> x" | "x < 0" "0 \<le> y" | "y < 0" using le by linarith
  then show ?thesis
  proof cases
    case 1
    with le show ?thesis by (simp add: f64_of_int_def f64_round_nat_mono nat_mono)
  next
    case 2
    then show ?thesis by (simp add: f64_of_int_def)
  next
    case 3
    with le show ?thesis by (simp add: f64_of_int_def f64_round_nat_mono nat_mono)
  qed
qed

lemma f64_of_int_exact: "\<bar>x\<bar> < 2 ^ 53 \<Longrightarrow> f64_of_int x = x"
proof -
  assume "\<bar>x\<bar> < 2 ^ 53"
  then have "nat (- x) < 2 ^ 53" and "nat x < 2 ^ 53" by (simp_all add: nat_less_iff)
  then show ?thesis by (simp add: f64_of_int_def f64_round_nat_small)
qed

lemma f64_of_int_idem: "f64_of_int (f64_of_int x) = f64_of_int x"
  by (simp add: f64_of_int_def f64_round_nat_idem)

lemma f64_of_int_uminus: "f64_of_int (- x) = - f64_of_int x"
  by (auto simp: f64_of_int_def)


section \<open>Lemmas: fixed-width decimals\<close>

lemma length_pad_dec [simp]: "length (pad_dec w n) = w"
  by (induction w arbitrary: n) simp_all

lemma of_char_digit: "d < 10 \<Longrightarrow> (of_char (digit_char d) :: nat) = 48 + d"
  by (simp add: digit_char_def)

lemma digit_char_inj: "d < 10 \<Longrightarrow> e < 10 \<Longrightarrow> digit_char d = digit_char e \<longleftrightarrow> d = e"
  by (metis add_left_cancel of_char_digit)

lemma digit_char_less: "d < 10 \<Longrightarrow> e < 10 \<Longrightarrow> digit_char d < digit_char e \<longleftrightarrow> d < e"
  by (simp add: less_char_def of_char_digit)

lemma less_snoc_iff:
  fixes xs ys :: "'a :: linorder list"
  shows "length xs = length ys \<Longrightarrow> xs @ [a] < ys @ [b] \<longleftrightarrow> xs < ys \<or> xs = ys \<and> a < b"
  by (induction xs ys rule: list_induct2) auto

lemma append_less_iff:
  fixes xs ys :: "'a :: linorder list"
  shows "length xs = length ys \<Longrightarrow> xs < ys \<Longrightarrow> xs @ us < ys @ vs"
  by (induction xs ys rule: list_induct2) auto

lemma pad_dec_eq_iff: "m < 10 ^ w \<Longrightarrow> n < 10 ^ w \<Longrightarrow> pad_dec w m = pad_dec w n \<longleftrightarrow> m = n"
proof (induction w arbitrary: m n)
  case (Suc w)
  from Suc.prems have "m div 10 < 10 ^ w" "n div 10 < 10 ^ w" by (simp_all add: less_mult_imp_div_less)
  with Suc.IH have "pad_dec w (m div 10) = pad_dec w (n div 10) \<longleftrightarrow> m div 10 = n div 10" by blast
  moreover have "m div 10 = n div 10 \<and> m mod 10 = n mod 10 \<longleftrightarrow> m = n" by (metis div_mult_mod_eq)
  ultimately show ?case by (auto simp: digit_char_inj)
qed simp

text \<open>Zero-padded decimals of one width compare as the numbers they spell.\<close>

lemma pad_dec_less_iff: "m < 10 ^ w \<Longrightarrow> n < 10 ^ w \<Longrightarrow> pad_dec w m < pad_dec w n \<longleftrightarrow> m < n"
proof (induction w arbitrary: m n)
  case (Suc w)
  from Suc.prems have b: "m div 10 < 10 ^ w" "n div 10 < 10 ^ w"
    by (simp_all add: less_mult_imp_div_less)
  then have "pad_dec w (m div 10) < pad_dec w (n div 10) \<longleftrightarrow> m div 10 < n div 10"
    by (rule Suc.IH)
  moreover have "pad_dec w (m div 10) = pad_dec w (n div 10) \<longleftrightarrow> m div 10 = n div 10"
    using b by (rule pad_dec_eq_iff)
  moreover have "m < n \<longleftrightarrow> m div 10 < n div 10 \<or> m div 10 = n div 10 \<and> m mod 10 < n mod 10"
    using div_mult_mod_eq [of m 10] div_mult_mod_eq [of n 10]
      mod_less_divisor [of 10 m] mod_less_divisor [of 10 n] by linarith
  ultimately show ?case by (simp add: less_snoc_iff digit_char_less)
qed simp


section \<open>Lemmas: lists\<close>

lemma set_remove1_distinct [simp]: "distinct xs \<Longrightarrow> set (remove1 x xs) = set xs - {x}"
  by (rule set_remove1_eq)

end
