(* ===== verification/Storage.thy ===== *)
theory Storage
  imports Prelude
begin

text \<open>
  \<^verbatim>\<open>storage/storage.go\<close>: the errors of the storage contract and how callers classify them.
  A Go error is a value of \<open>gerr\<close>: one constructor per sentinel of the program (the storage,
  server, handler-mux and limiter packages and the two context errors), \<open>ErrorsNew\<close> for an error
  made on the spot, and \<open>Errorf\<close> for \<open>fmt.Errorf\<close> with its formatted text and its \<open>%w\<close> operands.
\<close>

datatype gerr =
    ErrNoTask | ErrQueueEmpty | ErrTaskNotFound | ErrTaskExists | ErrInvalidTransition
  | ErrNonRetryable | ErrServerClosed | ErrServerRunning | ErrInvalidConfig
  | ErrUnknownTaskType | ErrHandlerExists | LimiterErrInvalidConfig
  | ContextCanceled | ContextDeadlineExceeded
  | RedisError string
  | ErrorsNew string
  | Errorf string "gerr list"

text \<open>\<open>err.Error()\<close>.\<close>

fun error_text :: "gerr \<Rightarrow> string" where
  "error_text ErrNoTask = ''no processable task''"
| "error_text ErrQueueEmpty = ''task queue is empty: no processable task''"
| "error_text ErrTaskNotFound = ''task not found: no processable task''"
| "error_text ErrTaskExists = ''task already exists''"
| "error_text ErrInvalidTransition = ''invalid task state transition''"
| "error_text ErrNonRetryable = ''non-retryable task failure''"
| "error_text ErrServerClosed = ''server is closed''"
| "error_text ErrServerRunning = ''server is already running''"
| "error_text ErrInvalidConfig = ''invalid server configuration''"
| "error_text ErrUnknownTaskType = ''unknown task type''"
| "error_text ErrHandlerExists = ''task handler already registered''"
| "error_text LimiterErrInvalidConfig = ''invalid token bucket configuration''"
| "error_text ContextCanceled = ''context canceled''"
| "error_text ContextDeadlineExceeded = ''context deadline exceeded''"
| "error_text (RedisError s) = s"
| "error_text (ErrorsNew s) = s"
| "error_text (Errorf s es) = s"

text \<open>\<open>fmt.Errorf("<prefix>: %w", err)\<close>.\<close>

definition wrap_err :: "string \<Rightarrow> gerr \<Rightarrow> gerr" where
  "wrap_err prefix e = Errorf (prefix @ '': '' @ error_text e) [e]"

text \<open>\<open>errors.Is\<close>: the error itself or one it wraps. \<open>ErrQueueEmpty\<close> and \<open>ErrTaskNotFound\<close> wrap
  \<open>ErrNoTask\<close>.\<close>

fun errors_Is :: "gerr \<Rightarrow> gerr \<Rightarrow> bool" where
  "errors_Is ErrQueueEmpty t \<longleftrightarrow> t = ErrQueueEmpty \<or> t = ErrNoTask"
| "errors_Is ErrTaskNotFound t \<longleftrightarrow> t = ErrTaskNotFound \<or> t = ErrNoTask"
| "errors_Is (Errorf s es) t \<longleftrightarrow> Errorf s es = t \<or> (\<exists>u \<in> set es. errors_Is u t)"
| "errors_Is e t \<longleftrightarrow> e = t"

text \<open>\<open>IsQueueEmpty\<close>; a nil error is \<open>None\<close>.\<close>

fun IsQueueEmpty :: "gerr option \<Rightarrow> bool" where
  "IsQueueEmpty None = False"
| "IsQueueEmpty (Some e) =
     (if errors_Is e ErrTaskNotFound then False
      else errors_Is e ErrQueueEmpty \<or> errors_Is e ErrNoTask)"


section \<open>Properties\<close>

lemma errors_Is_wrap_err_sentinel [simp]:
  "errors_Is (wrap_err p e) ErrTaskNotFound = errors_Is e ErrTaskNotFound"
  "errors_Is (wrap_err p e) ErrQueueEmpty = errors_Is e ErrQueueEmpty"
  "errors_Is (wrap_err p e) ErrNoTask = errors_Is e ErrNoTask"
  "errors_Is (wrap_err p e) ErrInvalidTransition = errors_Is e ErrInvalidTransition"
  "errors_Is (wrap_err p e) ErrNonRetryable = errors_Is e ErrNonRetryable"
  by (simp_all add: wrap_err_def)

text \<open>Every error that is an empty queue or an unknown task is also an \<open>ErrNoTask\<close>.\<close>

lemma errors_Is_ErrNoTask:
  "errors_Is e ErrQueueEmpty \<or> errors_Is e ErrTaskNotFound \<Longrightarrow> errors_Is e ErrNoTask"
  by (induction e rule: gerr.induct) auto

text \<open>The queue-empty test separates the two refinements of the legacy root error at any
  wrapping depth: an error counts as an empty queue exactly when it reaches \<open>ErrNoTask\<close> without
  reaching \<open>ErrTaskNotFound\<close>, wrapping never changes the verdict, and nil is never empty.\<close>

theorem IsQueueEmpty_classifies:
  "(IsQueueEmpty (Some e) \<longleftrightarrow> errors_Is e ErrNoTask \<and> \<not> errors_Is e ErrTaskNotFound)
   \<and> IsQueueEmpty (Some (wrap_err p e)) = IsQueueEmpty (Some e)
   \<and> \<not> IsQueueEmpty None
   \<and> IsQueueEmpty (Some ErrQueueEmpty) \<and> IsQueueEmpty (Some ErrNoTask)
   \<and> \<not> IsQueueEmpty (Some ErrTaskNotFound)"
  using errors_Is_ErrNoTask by auto

end
