(* ===== verification/TaskModel.thy ===== *)
theory TaskModel
  imports Storage "HOL-Library.Monad_Syntax"
begin

text \<open>
  \<^verbatim>\<open>model/model.go\<close>: the task envelope, its validation and its JSON form. A time is the number of
  nanoseconds since the Unix epoch; a bulk of JSON text is represented by the value it denotes
  (\<open>json\<close>), with base64 bytes and RFC 3339 times as leaves of their own. Strings are well-formed
  UTF-8, which \<open>encoding/json\<close> writes and reads back unchanged.
\<close>

type_synonym gotime = int
type_synonym duration = int

definition zero_time :: gotime where
  "zero_time = - 62135596800000000000"

definition IsZero :: "gotime \<Rightarrow> bool" where
  "IsZero t \<longleftrightarrow> t = zero_time"

definition UnixMilli :: "gotime \<Rightarrow> int" where
  "UnixMilli t = t div 1000000"

text \<open>\<open>t.Sub(u)\<close>: the difference of two times, saturated at the range of a duration.\<close>

definition time_Sub :: "gotime \<Rightarrow> gotime \<Rightarrow> duration" where
  "time_Sub t u = max (- (2 ^ 63)) (min (2 ^ 63 - 1) (t - u))"

text \<open>\<open>TaskState\<close> is a Go string type with six constants.\<close>

type_synonym TaskState = string

definition StatePending :: TaskState where "StatePending = ''pending''"
definition StateScheduled :: TaskState where "StateScheduled = ''scheduled''"
definition StateActive :: TaskState where "StateActive = ''active''"
definition StateRetry :: TaskState where "StateRetry = ''retry''"
definition StateArchived :: TaskState where "StateArchived = ''archived''"
definition StateCompleted :: TaskState where "StateCompleted = ''completed''"

lemmas state_defs [simp] = StatePending_def StateScheduled_def StateActive_def StateRetry_def
  StateArchived_def StateCompleted_def

text \<open>A nil \<open>Payload\<close> is \<open>None\<close>.\<close>

record TaskMessage =
  ID :: string
  Type :: string
  Payload :: "string option"
  Queue :: string
  Priority :: int
  MaxRetry :: int
  RetryCount :: int
  Timeout :: duration
  Deadline :: gotime
  RunAt :: gotime
  State :: TaskState
  AttemptID :: string
  LastError :: string
  LastFailedAt :: gotime
  CompletedAt :: gotime
  CreatedAt :: gotime

text \<open>\<open>Validate\<close> on a possibly nil message; \<open>None\<close> is a nil error.\<close>

fun Validate :: "TaskMessage option \<Rightarrow> gerr option" where
  "Validate None = Some (ErrorsNew ''task message is nil'')"
| "Validate (Some m) =
     (if ID m = '''' then Some (ErrorsNew ''task id is required'')
      else if Type m = '''' then Some (ErrorsNew ''task type is required'')
      else if Queue m = '''' then Some (ErrorsNew ''task queue is required'')
      else if Priority m < 0
        then Some (ErrorsNew (''task priority must be non-negative: '' @ dec_int (Priority m)))
      else if MaxRetry m < 0
        then Some (ErrorsNew (''max retry must be non-negative: '' @ dec_int (MaxRetry m)))
      else if Timeout m < 0 then Some (ErrorsNew ''task timeout cannot be negative'')
      else None)"


section \<open>JSON form\<close>

datatype json =
    JNull
  | JStr string
  | JNum int
  | JBytes string
  | JTime gotime
  | JObj "(string \<times> json) list"

text \<open>\<open>time.Time\<close> refuses to marshal a year outside \<open>[0, 9999]\<close>.\<close>

definition time_marshals :: "gotime \<Rightarrow> bool" where
  "time_marshals t \<longleftrightarrow> - 62167219200000000000 \<le> t \<and> t < 253402300800000000000"

text \<open>\<open>json.Marshal\<close> of a message by its struct tags; \<open>omitempty\<close> drops an empty string but never a
  \<open>time.Time\<close>. \<open>None\<close> is a marshalling error.\<close>

definition Marshal :: "TaskMessage \<Rightarrow> json option" where
  "Marshal m =
     (if list_all time_marshals [Deadline m, RunAt m, LastFailedAt m, CompletedAt m, CreatedAt m]
      then Some (JObj (
        [(''id'', JStr (ID m)), (''type'', JStr (Type m)),
         (''payload'', (case Payload m of None \<Rightarrow> JNull | Some b \<Rightarrow> JBytes b)),
         (''queue'', JStr (Queue m)), (''priority'', JNum (Priority m)),
         (''max_retry'', JNum (MaxRetry m)), (''retry_count'', JNum (RetryCount m)),
         (''timeout'', JNum (Timeout m)), (''deadline'', JTime (Deadline m)),
         (''run_at'', JTime (RunAt m)), (''state'', JStr (State m))]
        @ (if AttemptID m = '''' then [] else [(''attempt_id'', JStr (AttemptID m))])
        @ (if LastError m = '''' then [] else [(''last_error'', JStr (LastError m))])
        @ [(''last_failed_at'', JTime (LastFailedAt m)), (''completed_at'', JTime (CompletedAt m)),
           (''created_at'', JTime (CreatedAt m))]))
      else None)"

text \<open>Decoding one field of an object: an absent or null field keeps the zero value, a value of
  another kind is an error.\<close>

definition str_field :: "(string \<times> json) list \<Rightarrow> string \<Rightarrow> string option" where
  "str_field kv k = (case map_of kv k of None \<Rightarrow> Some '''' | Some JNull \<Rightarrow> Some ''''
     | Some (JStr s) \<Rightarrow> Some s | Some _ \<Rightarrow> None)"

definition num_field :: "(string \<times> json) list \<Rightarrow> string \<Rightarrow> int option" where
  "num_field kv k = (case map_of kv k of None \<Rightarrow> Some 0 | Some JNull \<Rightarrow> Some 0
     | Some (JNum n) \<Rightarrow> Some n | Some _ \<Rightarrow> None)"

definition time_field :: "(string \<times> json) list \<Rightarrow> string \<Rightarrow> gotime option" where
  "time_field kv k = (case map_of kv k of None \<Rightarrow> Some zero_time | Some JNull \<Rightarrow> Some zero_time
     | Some (JTime t) \<Rightarrow> Some t | Some _ \<Rightarrow> None)"

definition bytes_field :: "(string \<times> json) list \<Rightarrow> string \<Rightarrow> string option option" where
  "bytes_field kv k = (case map_of kv k of None \<Rightarrow> Some None | Some JNull \<Rightarrow> Some None
     | Some (JBytes b) \<Rightarrow> Some (Some b) | Some _ \<Rightarrow> None)"

fun Unmarshal_obj :: "(string \<times> json) list \<Rightarrow> TaskMessage option" where
  "Unmarshal_obj kv = do {
     i \<leftarrow> str_field kv ''id''; ty \<leftarrow> str_field kv ''type''; pl \<leftarrow> bytes_field kv ''payload'';
     qu \<leftarrow> str_field kv ''queue''; pr \<leftarrow> num_field kv ''priority'';
     mr \<leftarrow> num_field kv ''max_retry''; rc \<leftarrow> num_field kv ''retry_count'';
     tm \<leftarrow> num_field kv ''timeout''; dl \<leftarrow> time_field kv ''deadline'';
     ra \<leftarrow> time_field kv ''run_at''; st \<leftarrow> str_field kv ''state'';
     at \<leftarrow> str_field kv ''attempt_id''; le \<leftarrow> str_field kv ''last_error'';
     lf \<leftarrow> time_field kv ''last_failed_at''; ca \<leftarrow> time_field kv ''completed_at'';
     cr \<leftarrow> time_field kv ''created_at'';
     Some \<lparr>ID = i, Type = ty, Payload = pl, Queue = qu, Priority = pr, MaxRetry = mr,
       RetryCount = rc, Timeout = tm, Deadline = dl, RunAt = ra, State = st, AttemptID = at,
       LastError = le, LastFailedAt = lf, CompletedAt = ca, CreatedAt = cr\<rparr> }"

text \<open>\<open>json.Unmarshal\<close> into a fresh message; \<open>None\<close> is a decoding error, \<open>null\<close> changes nothing.\<close>

fun Unmarshal :: "json \<Rightarrow> TaskMessage option" where
  "Unmarshal (JObj kv) = Unmarshal_obj kv"
| "Unmarshal JNull = Unmarshal_obj []"
| "Unmarshal _ = None"


text \<open>A small task message, used by the concrete instances throughout the development.\<close>

definition sample_task :: "string \<Rightarrow> string \<Rightarrow> TaskMessage" where
  "sample_task tid queue =
     \<lparr>ID = tid, Type = ''resize'', Payload = Some ''p'', Queue = queue, Priority = 1, MaxRetry = 3,
      RetryCount = 0, Timeout = 1000000000, Deadline = zero_time, RunAt = 1700000000000000000,
      State = StatePending, AttemptID = '''', LastError = '''', LastFailedAt = zero_time,
      CompletedAt = zero_time, CreatedAt = 1700000000000000000\<rparr>"


section \<open>Properties\<close>

lemmas field_defs = str_field_def num_field_def time_field_def bytes_field_def

lemma Unmarshal_Marshal: "Marshal m = Some j \<Longrightarrow> Unmarshal j = Some m"
  by (cases m) (auto simp: Marshal_def field_defs split: option.splits if_splits)



end
