(* ===== verification/RedisServer.thy ===== *)
theory RedisServer
  imports TaskModel "HOL-Library.AList"
begin

text \<open>
  The boundary to Redis. The server is not part of the repository, so it is a parameter of the
  model: a function \<open>call\<close> from a command and a database to a reply and the next database, which
  the store reaches only through \<open>redis.call\<close> in a Lua script or through a client command.
  The locale \<open>redis_server\<close> names what the engine relies on: seen through an abstraction \<open>view\<close> to
  keys and typed values, every command behaves as the Redis command reference says (\<open>redis_doc\<close>).

  A Lua script is a value of \<open>'a script\<close>: the commands it issues and how it goes on with each
  reply. \<open>run\<close> executes it against a server; an error reply or a raised Lua error aborts the script
  and keeps the writes made so far, since Redis does not roll back.
\<close>

section \<open>Commands, replies and stored values\<close>

text \<open>A bulk string is represented by what the engine reads it as: plain text, the decimal text of
  a number, or a JSON document.\<close>

datatype bulk = Txt string | Num int | Doc json

datatype rcmd =
    EXISTS string
  | INCR string
  | DEL string
  | HSET string "(string \<times> bulk) list"
  | HGET string string
  | HMGET string "string list"
  | HDEL string string
  | LPUSH string string
  | RPUSH string string
  | LREM string int string
  | ZADD string bulk string
  | ZREM string string
  | ZRANGE string int int
  | ZRANGEBYSCORE string bulk "(int \<times> int) option" \<comment> \<open>from \<open>-inf\<close> to a maximum, LIMIT offset count\<close>
  | ZCARD string

datatype reply =
    RInt int
  | RBulk bulk
  | RNil
  | RStrs "string list"
  | RVals "bulk option list"
  | RErr string

text \<open>A sorted set is the list of its (score, member) pairs in Redis order: by score, then by the
  bytes of the member. No stored container is empty.\<close>

type_synonym zset = "(int \<times> string) list"

datatype rval =
    VInt int
  | VHash "(string \<times> bulk) list"
  | VList "string list"
  | VZset zset

type_synonym keyspace = "string \<Rightarrow> rval option"


section \<open>The documented behaviour of the commands\<close>

definition as_int :: "keyspace \<Rightarrow> string \<Rightarrow> int option" where
  "as_int ks k = (case ks k of None \<Rightarrow> Some 0 | Some (VInt n) \<Rightarrow> Some n | Some _ \<Rightarrow> None)"

definition as_hash :: "keyspace \<Rightarrow> string \<Rightarrow> (string \<times> bulk) list option" where
  "as_hash ks k = (case ks k of None \<Rightarrow> Some [] | Some (VHash h) \<Rightarrow> Some h | Some _ \<Rightarrow> None)"

definition as_list :: "keyspace \<Rightarrow> string \<Rightarrow> string list option" where
  "as_list ks k = (case ks k of None \<Rightarrow> Some [] | Some (VList l) \<Rightarrow> Some l | Some _ \<Rightarrow> None)"

definition as_zset :: "keyspace \<Rightarrow> string \<Rightarrow> zset option" where
  "as_zset ks k = (case ks k of None \<Rightarrow> Some [] | Some (VZset z) \<Rightarrow> Some z | Some _ \<Rightarrow> None)"

definition put_hash :: "keyspace \<Rightarrow> string \<Rightarrow> (string \<times> bulk) list \<Rightarrow> keyspace" where
  "put_hash ks k h = ks(k := (if h = [] then None else Some (VHash h)))"

definition put_list :: "keyspace \<Rightarrow> string \<Rightarrow> string list \<Rightarrow> keyspace" where
  "put_list ks k l = ks(k := (if l = [] then None else Some (VList l)))"

definition put_zset :: "keyspace \<Rightarrow> string \<Rightarrow> zset \<Rightarrow> keyspace" where
  "put_zset ks k z = ks(k := (if z = [] then None else Some (VZset z)))"

definition wrongtype :: reply where
  "wrongtype = RErr ''WRONGTYPE Operation against a key holding the wrong kind of value''"

definition hset_fields :: "(string \<times> bulk) list \<Rightarrow> (string \<times> bulk) list \<Rightarrow> (string \<times> bulk) list" where
  "hset_fields fs h = fold (\<lambda>(f, v) h. AList.update f v h) fs h"

fun remove_first :: "nat \<Rightarrow> 'a \<Rightarrow> 'a list \<Rightarrow> 'a list" where
  "remove_first 0 x xs = xs"
| "remove_first (Suc n) x xs = remove_first n x (remove1 x xs)"

definition lrem :: "int \<Rightarrow> 'a \<Rightarrow> 'a list \<Rightarrow> 'a list" where
  "lrem n x xs =
     (if n > 0 then remove_first (nat n) x xs
      else if n < 0 then rev (remove_first (nat (- n)) x (rev xs))
      else removeAll x xs)"

definition zrem :: "string \<Rightarrow> zset \<Rightarrow> zset" where
  "zrem m z = filter (\<lambda>e. snd e \<noteq> m) z"

definition zadd :: "int \<Rightarrow> string \<Rightarrow> zset \<Rightarrow> zset" where
  "zadd s m z = insort (s, m) (zrem m z)"

definition zmembers :: "zset \<Rightarrow> string list" where
  "zmembers z = map snd z"

text \<open>\<open>ZRANGE start stop\<close>: inclusive ranks, negative ones counted from the end.\<close>

definition zslice :: "int \<Rightarrow> int \<Rightarrow> 'a list \<Rightarrow> 'a list" where
  "zslice a b xs =
     (let n = int (length xs); i = (if a < 0 then max 0 (a + n) else a);
          j = (if b < 0 then b + n else b)
      in if i \<le> j then take (nat (j - i + 1)) (drop (nat i) xs) else [])"

text \<open>\<open>LIMIT offset count\<close>; a negative count means no bound.\<close>

fun zlimit :: "(int \<times> int) option \<Rightarrow> 'a list \<Rightarrow> 'a list" where
  "zlimit None xs = xs"
| "zlimit (Some (off, c)) xs =
     (if off < 0 then [] else if c < 0 then drop (nat off) xs else take (nat c) (drop (nat off) xs))"

text \<open>A score argument is text that Redis reads as a double.\<close>

fun score_of :: "bulk \<Rightarrow> int option" where
  "score_of (Num n) = Some (f64_of_int n)"
| "score_of _ = None"

fun redis_doc :: "rcmd \<Rightarrow> keyspace \<Rightarrow> reply \<times> keyspace" where
  "redis_doc (EXISTS k) ks = (RInt (if ks k = None then 0 else 1), ks)"
| "redis_doc (INCR k) ks = (case as_int ks k of
      None \<Rightarrow> (wrongtype, ks)
    | Some n \<Rightarrow> if n + 1 < 2 ^ 63 then (RInt (n + 1), ks(k \<mapsto> VInt (n + 1)))
                else (RErr ''ERR increment or decrement would overflow'', ks))"
| "redis_doc (DEL k) ks = (RInt (if ks k = None then 0 else 1), ks(k := None))"
| "redis_doc (HSET k fs) ks = (case as_hash ks k of
      None \<Rightarrow> (wrongtype, ks)
    | Some h \<Rightarrow> (RInt (int (length (hset_fields fs h)) - int (length h)),
                 put_hash ks k (hset_fields fs h)))"
| "redis_doc (HGET k f) ks = (case as_hash ks k of
      None \<Rightarrow> (wrongtype, ks)
    | Some h \<Rightarrow> (case map_of h f of None \<Rightarrow> (RNil, ks) | Some b \<Rightarrow> (RBulk b, ks)))"
| "redis_doc (HMGET k fs) ks = (case as_hash ks k of
      None \<Rightarrow> (wrongtype, ks)
    | Some h \<Rightarrow> (RVals (map (map_of h) fs), ks))"
| "redis_doc (HDEL k f) ks = (case as_hash ks k of
      None \<Rightarrow> (wrongtype, ks)
    | Some h \<Rightarrow> (RInt (if map_of h f = None then 0 else 1), put_hash ks k (AList.delete f h)))"
| "redis_doc (LPUSH k x) ks = (case as_list ks k of
      None \<Rightarrow> (wrongtype, ks)
    | Some l \<Rightarrow> (RInt (int (length l) + 1), put_list ks k (x # l)))"
| "redis_doc (RPUSH k x) ks = (case as_list ks k of
      None \<Rightarrow> (wrongtype, ks)
    | Some l \<Rightarrow> (RInt (int (length l) + 1), put_list ks k (l @ [x])))"
| "redis_doc (LREM k n x) ks = (case as_list ks k of
      None \<Rightarrow> (wrongtype, ks)
    | Some l \<Rightarrow> (RInt (int (length l) - int (length (lrem n x l))), put_list ks k (lrem n x l)))"
| "redis_doc (ZADD k b m) ks = (case score_of b of
      None \<Rightarrow> (RErr ''ERR value is not a valid float'', ks)
    | Some s \<Rightarrow> (case as_zset ks k of
        None \<Rightarrow> (wrongtype, ks)
      | Some z \<Rightarrow> (RInt (if m \<in> set (zmembers z) then 0 else 1), put_zset ks k (zadd s m z))))"
| "redis_doc (ZREM k m) ks = (case as_zset ks k of
      None \<Rightarrow> (wrongtype, ks)
    | Some z \<Rightarrow> (RInt (if m \<in> set (zmembers z) then 1 else 0), put_zset ks k (zrem m z)))"
| "redis_doc (ZRANGE k a b) ks = (case as_zset ks k of
      None \<Rightarrow> (wrongtype, ks)
    | Some z \<Rightarrow> (RStrs (zslice a b (zmembers z)), ks))"
| "redis_doc (ZRANGEBYSCORE k b lim) ks = (case score_of b of
      None \<Rightarrow> (RErr ''ERR min or max is not a float'', ks)
    | Some s \<Rightarrow> (case as_zset ks k of
        None \<Rightarrow> (wrongtype, ks)
      | Some z \<Rightarrow> (RStrs (zlimit lim (zmembers (filter (\<lambda>e. fst e \<le> s) z))), ks)))"
| "redis_doc (ZCARD k) ks = (case as_zset ks k of
      None \<Rightarrow> (wrongtype, ks)
    | Some z \<Rightarrow> (RInt (int (length z)), ks))"


section \<open>Scripts\<close>

datatype 'a script =
    Ret 'a
  | Raise string
  | Call rcmd "reply \<Rightarrow> 'a script"

type_synonym 'db redis = "rcmd \<Rightarrow> 'db \<Rightarrow> reply \<times> 'db"

primrec run :: "'db redis \<Rightarrow> 'a script \<Rightarrow> 'db \<Rightarrow> (gerr + 'a) \<times> 'db" where
  "run call (Ret x) = (\<lambda>d. (Inr x, d))"
| "run call (Raise e) = (\<lambda>d. (Inl (RedisError e), d))"
| "run call (Call c k) = (\<lambda>d. case call c d of (r, d') \<Rightarrow>
     (case r of RErr e \<Rightarrow> (Inl (RedisError e), d') | _ \<Rightarrow> run call (k r) d'))"

text \<open>\<open>redis.call\<close> used for its effect, for an integer, for a bulk string (nil is \<open>false\<close> in Lua,
  \<open>None\<close> here), for an array of strings, and for the fields of a hash.\<close>

definition call_do :: "rcmd \<Rightarrow> 'a script \<Rightarrow> 'a script" where
  "call_do c s = Call c (\<lambda>_. s)"

definition call_int :: "rcmd \<Rightarrow> (int \<Rightarrow> 'a script) \<Rightarrow> 'a script" where
  "call_int c k = Call c (\<lambda>r. case r of RInt n \<Rightarrow> k n | _ \<Rightarrow> Raise ''unexpected reply'')"

definition call_bulk :: "rcmd \<Rightarrow> (bulk option \<Rightarrow> 'a script) \<Rightarrow> 'a script" where
  "call_bulk c k = Call c (\<lambda>r. case r of RBulk b \<Rightarrow> k (Some b) | RNil \<Rightarrow> k None
     | _ \<Rightarrow> Raise ''unexpected reply'')"

definition call_strs :: "rcmd \<Rightarrow> (string list \<Rightarrow> 'a script) \<Rightarrow> 'a script" where
  "call_strs c k = Call c (\<lambda>r. case r of RStrs xs \<Rightarrow> k xs | _ \<Rightarrow> Raise ''unexpected reply'')"

definition call_vals :: "rcmd \<Rightarrow> (bulk option list \<Rightarrow> 'a script) \<Rightarrow> 'a script" where
  "call_vals c k = Call c (\<lambda>r. case r of RVals xs \<Rightarrow> k xs | _ \<Rightarrow> Raise ''unexpected reply'')"

text \<open>What becomes of one request on the network: it is answered, it never reaches the server
  (a cancelled context included), or it is executed and the reply is lost.\<close>

datatype fate = Delivered | NotSent gerr | ReplyLost gerr

definition script_Run :: "'db redis \<Rightarrow> fate \<Rightarrow> 'a script \<Rightarrow> 'db \<Rightarrow> (gerr + 'a) \<times> 'db" where
  "script_Run call ft s d = (case ft of
     Delivered \<Rightarrow> run call s d
   | NotSent e \<Rightarrow> (Inl e, d)
   | ReplyLost e \<Rightarrow> (Inl e, snd (run call s d)))"


section \<open>The interface\<close>

locale redis_server =
  fixes call :: "'db redis" and view :: "'db \<Rightarrow> keyspace"
  assumes documented: "map_prod id view (call c d) = redis_doc c (view d)"
begin

lemma call_reply: "fst (call c d) = fst (redis_doc c (view d))"
  by (simp flip: documented)

lemma call_view: "view (snd (call c d)) = snd (redis_doc c (view d))"
  by (simp flip: documented)

lemma run_documented: "map_prod id view (run call s d) = run redis_doc s (view d)"
proof (induction s arbitrary: d)
  case (Call c k)
  obtain r d' where c: "call c d = (r, d')" by fastforce
  with documented [of c d] have "redis_doc c (view d) = (r, view d')" by simp
  with c Call show ?case by (cases r) auto
qed simp_all

lemma script_Run_documented:
  "map_prod id view (script_Run call ft s d) = script_Run redis_doc ft s (view d)"
proof -
  have "view (snd (run call s d)) = snd (run redis_doc s (view d))"
    by (simp flip: run_documented)
  then show ?thesis by (cases ft) (simp_all add: script_Run_def run_documented)
qed

end

text \<open>The command reference itself is such a server.\<close>

interpretation doc: redis_server redis_doc id
  by unfold_locales (simp add: prod.map_id)


section \<open>Lemmas: typed access\<close>

lemma as_put_same [simp]:
  "as_hash (put_hash ks k h) k = Some h" "as_list (put_list ks k l) k = Some l"
  "as_zset (put_zset ks k z) k = Some z"
  by (simp_all add: as_hash_def as_list_def as_zset_def put_hash_def put_list_def put_zset_def)

lemma put_other [simp]:
  "k' \<noteq> k \<Longrightarrow> put_hash ks k h k' = ks k'" "k' \<noteq> k \<Longrightarrow> put_list ks k l k' = ks k'"
  "k' \<noteq> k \<Longrightarrow> put_zset ks k z k' = ks k'"
  by (simp_all add: put_hash_def put_list_def put_zset_def)

lemma as_cong:
  "ks k = ks' k \<Longrightarrow> as_hash ks k = as_hash ks' k" "ks k = ks' k \<Longrightarrow> as_list ks k = as_list ks' k"
  "ks k = ks' k \<Longrightarrow> as_zset ks k = as_zset ks' k" "ks k = ks' k \<Longrightarrow> as_int ks k = as_int ks' k"
  by (simp_all add: as_hash_def as_list_def as_zset_def as_int_def)

lemma as_hash_other [simp]:
  "k' \<noteq> k \<Longrightarrow> as_hash (put_hash ks k h) k' = as_hash ks k'"
  "k' \<noteq> k \<Longrightarrow> as_hash (put_list ks k l) k' = as_hash ks k'"
  "k' \<noteq> k \<Longrightarrow> as_hash (put_zset ks k z) k' = as_hash ks k'"
  "k' \<noteq> k \<Longrightarrow> as_hash (ks(k := v)) k' = as_hash ks k'"
  by (rule as_cong, simp)+

lemma as_list_other [simp]:
  "k' \<noteq> k \<Longrightarrow> as_list (put_hash ks k h) k' = as_list ks k'"
  "k' \<noteq> k \<Longrightarrow> as_list (put_list ks k l) k' = as_list ks k'"
  "k' \<noteq> k \<Longrightarrow> as_list (put_zset ks k z) k' = as_list ks k'"
  "k' \<noteq> k \<Longrightarrow> as_list (ks(k := v)) k' = as_list ks k'"
  by (rule as_cong, simp)+

lemma as_zset_other [simp]:
  "k' \<noteq> k \<Longrightarrow> as_zset (put_hash ks k h) k' = as_zset ks k'"
  "k' \<noteq> k \<Longrightarrow> as_zset (put_list ks k l) k' = as_zset ks k'"
  "k' \<noteq> k \<Longrightarrow> as_zset (put_zset ks k z) k' = as_zset ks k'"
  "k' \<noteq> k \<Longrightarrow> as_zset (ks(k := v)) k' = as_zset ks k'"
  by (rule as_cong, simp)+

lemma as_int_other [simp]:
  "k' \<noteq> k \<Longrightarrow> as_int (put_hash ks k h) k' = as_int ks k'"
  "k' \<noteq> k \<Longrightarrow> as_int (put_list ks k l) k' = as_int ks k'"
  "k' \<noteq> k \<Longrightarrow> as_int (put_zset ks k z) k' = as_int ks k'"
  "k' \<noteq> k \<Longrightarrow> as_int (ks(k := v)) k' = as_int ks k'"
  by (rule as_cong, simp)+


section \<open>Lemmas: symbolic execution of a script\<close>

lemma run_call_do:
  "redis_doc c ks = (RInt n, ks') \<Longrightarrow> run redis_doc (call_do c s) ks = run redis_doc s ks'"
  by (simp add: call_do_def)

lemma run_call_int:
  "redis_doc c ks = (RInt n, ks') \<Longrightarrow> run redis_doc (call_int c k) ks = run redis_doc (k n) ks'"
  by (simp add: call_int_def)

lemma run_call_strs:
  "redis_doc c ks = (RStrs xs, ks') \<Longrightarrow> run redis_doc (call_strs c k) ks = run redis_doc (k xs) ks'"
  by (simp add: call_strs_def)

lemma run_call_hget:
  "as_hash ks k = Some h \<Longrightarrow>
   run redis_doc (call_bulk (HGET k f) s) ks = run redis_doc (s (map_of h f)) ks"
  by (cases "map_of h f") (simp_all add: call_bulk_def)


section \<open>Lemmas: hashes, lists and sorted sets\<close>

lemma map_of_hset_fields [simp]:
  "map_of (hset_fields fs h) = map_of h ++ map_of (rev fs)"
proof (induction fs arbitrary: h)
  case (Cons p fs)
  obtain f v where [simp]: "p = (f, v)" by fastforce
  from Cons [of "AList.update f v h"] show ?case
    by (auto simp: hset_fields_def update_conv' fun_eq_iff map_add_def split: option.splits)
qed (simp add: hset_fields_def)

lemma hset_fields_Nil [simp]: "hset_fields fs h = [] \<longleftrightarrow> fs = [] \<and> h = []"
proof (induction fs arbitrary: h)
  case (Cons p fs)
  obtain f v where "p = (f, v)" by fastforce
  then show ?case using Cons [of "AList.update f v h"]
    by (cases h) (auto simp: hset_fields_def split: if_splits)
qed (simp add: hset_fields_def)

lemma lrem_1 [simp]: "lrem 1 x xs = remove1 x xs"
  by (simp add: lrem_def)

lemma zmembers_Nil [simp]: "zmembers [] = []"
  by (simp add: zmembers_def)

lemma set_zmembers: "set (zmembers z) = snd ` set z"
  by (simp add: zmembers_def)

lemma set_zrem: "set (zrem m z) = {e \<in> set z. snd e \<noteq> m}"
  by (auto simp: zrem_def)

lemma set_zadd: "set (zadd s m z) = insert (s, m) {e \<in> set z. snd e \<noteq> m}"
  by (simp add: zadd_def set_insort_key set_zrem)

lemma set_zmembers_zrem [simp]: "set (zmembers (zrem m z)) = set (zmembers z) - {m}"
  by (auto simp: set_zmembers set_zrem)

lemma set_zmembers_zadd [simp]: "set (zmembers (zadd s m z)) = insert m (set (zmembers z))"
  by (auto simp: set_zmembers set_zadd)

text \<open>The representation invariant of a sorted set: in order, and no member twice.\<close>

definition zset_ok :: "zset \<Rightarrow> bool" where
  "zset_ok z \<longleftrightarrow> sorted z \<and> distinct (zmembers z)"

lemma zset_ok_Nil [simp]: "zset_ok []"
  by (simp add: zset_ok_def)

lemma zset_ok_zrem [simp, intro]: "zset_ok z \<Longrightarrow> zset_ok (zrem m z)"
  by (auto simp: zset_ok_def zrem_def zmembers_def sorted_wrt_filter distinct_map_filter)

lemma distinct_zmembers_insort:
  "distinct (zmembers (insort e z)) \<longleftrightarrow> snd e \<notin> set (zmembers z) \<and> distinct (zmembers z)"
  by (induction z) (auto simp: zmembers_def set_insort_key)

lemma zset_ok_zadd [simp, intro]: "zset_ok z \<Longrightarrow> zset_ok (zadd s m z)"
  using zset_ok_zrem [of z m]
  by (simp add: zset_ok_def zadd_def sorted_insort distinct_zmembers_insort)

lemma zset_ok_inj: "zset_ok z \<Longrightarrow> (s, m) \<in> set z \<Longrightarrow> (s', m) \<in> set z \<Longrightarrow> s = s'"
  unfolding zset_ok_def zmembers_def
  by (metis distinct_map inj_onD prod.inject snd_conv)

lemma length_zrem: "zset_ok z \<Longrightarrow>
  length (zrem m z) = (if m \<in> set (zmembers z) then length z - 1 else length z)"
proof -
  assume ok: "zset_ok z"
  have "length (zmembers (zrem m z)) = card (set (zmembers z) - {m})"
    using zset_ok_zrem [OF ok, of m] by (metis distinct_card set_zmembers_zrem zset_ok_def)
  also have "\<dots> = (if m \<in> set (zmembers z) then length (zmembers z) - 1 else length (zmembers z))"
    using ok by (simp add: zset_ok_def distinct_card)
  finally show ?thesis by (simp add: zmembers_def)
qed

lemma zslice_first: "zslice 0 0 xs = take 1 xs"
  by (simp add: zslice_def)

end
