(* ===== verification/RedisKeys.thy ===== *)
theory RedisKeys
  imports RedisServer "HOL-Library.Sublist"
begin

text \<open>
  The Redis key layout of \<^verbatim>\<open>internal/redisstore/rdb.go\<close>: one family of keys per queue under the
  prefix \<open>gte:{queue}:\<close>. The keys of one queue never coincide; the families of two queues are
  disjoint when the queue names hold no closing brace, and can coincide otherwise.
\<close>

definition keyPrefix :: string where
  "keyPrefix = ''gte:''"

definition queuePrefix :: "string \<Rightarrow> string" where
  "queuePrefix queue = keyPrefix @ ''{'' @ queue @ ''}:''"

definition TaskKey :: "string \<Rightarrow> string \<Rightarrow> string" where
  "TaskKey queue tid = queuePrefix queue @ ''task:'' @ tid"

definition PendingKey :: "string \<Rightarrow> string" where
  "PendingKey queue = queuePrefix queue @ ''pending''"

definition PendingRankKey :: "string \<Rightarrow> string" where
  "PendingRankKey queue = queuePrefix queue @ ''pending_rank''"

definition SequenceKey :: "string \<Rightarrow> string" where
  "SequenceKey queue = queuePrefix queue @ ''sequence''"

definition ScheduledKey :: "string \<Rightarrow> string" where
  "ScheduledKey queue = queuePrefix queue @ ''scheduled''"

definition RetryKey :: "string \<Rightarrow> string" where
  "RetryKey queue = queuePrefix queue @ ''retry''"

definition ActiveKey :: "string \<Rightarrow> string" where
  "ActiveKey queue = queuePrefix queue @ ''active''"

definition LeaseKey :: "string \<Rightarrow> string" where
  "LeaseKey queue = queuePrefix queue @ ''lease''"

definition ArchivedKey :: "string \<Rightarrow> string" where
  "ArchivedKey queue = queuePrefix queue @ ''archived''"

lemmas key_defs = TaskKey_def PendingKey_def PendingRankKey_def SequenceKey_def ScheduledKey_def
  RetryKey_def ActiveKey_def LeaseKey_def ArchivedKey_def

text \<open>A queue name that cannot break out of its hash tag.\<close>

definition queue_name_ok :: "string \<Rightarrow> bool" where
  "queue_name_ok queue \<longleftrightarrow> CHR ''}'' \<notin> set queue"

text \<open>The keys of one queue.\<close>

definition key_of :: "string \<Rightarrow> string \<Rightarrow> bool" where
  "key_of queue k \<longleftrightarrow> prefix (queuePrefix queue) k"


section \<open>Lemmas\<close>

lemma TaskKey_inj [simp, key_simps]: "TaskKey q i = TaskKey q j \<longleftrightarrow> i = j"
  by (simp add: TaskKey_def)

lemma TaskKey_append: "TaskKey q '''' @ i = TaskKey q i"
  by (simp add: TaskKey_def)

lemma queuePrefix_task: "queuePrefix q @ ''task:'' @ i = TaskKey q i"
  by (simp add: TaskKey_def)

lemma task_key_distinct [simp, key_simps]:
  "TaskKey q i \<noteq> PendingKey q" "PendingKey q \<noteq> TaskKey q i"
  "TaskKey q i \<noteq> PendingRankKey q" "PendingRankKey q \<noteq> TaskKey q i"
  "TaskKey q i \<noteq> SequenceKey q" "SequenceKey q \<noteq> TaskKey q i"
  "TaskKey q i \<noteq> ScheduledKey q" "ScheduledKey q \<noteq> TaskKey q i"
  "TaskKey q i \<noteq> RetryKey q" "RetryKey q \<noteq> TaskKey q i" "TaskKey q i \<noteq> ActiveKey q"
  "ActiveKey q \<noteq> TaskKey q i" "TaskKey q i \<noteq> LeaseKey q" "LeaseKey q \<noteq> TaskKey q i"
  "TaskKey q i \<noteq> ArchivedKey q" "ArchivedKey q \<noteq> TaskKey q i"
  by (simp_all add: key_defs)

lemma container_key_distinct [simp, key_simps]:
  "PendingKey q \<noteq> PendingRankKey q" "PendingKey q \<noteq> SequenceKey q"
  "PendingKey q \<noteq> ScheduledKey q" "PendingKey q \<noteq> RetryKey q"
  "PendingKey q \<noteq> ActiveKey q" "PendingKey q \<noteq> LeaseKey q"
  "PendingKey q \<noteq> ArchivedKey q" "PendingRankKey q \<noteq> PendingKey q"
  "PendingRankKey q \<noteq> SequenceKey q" "PendingRankKey q \<noteq> ScheduledKey q"
  "PendingRankKey q \<noteq> RetryKey q" "PendingRankKey q \<noteq> ActiveKey q"
  "PendingRankKey q \<noteq> LeaseKey q" "PendingRankKey q \<noteq> ArchivedKey q"
  "SequenceKey q \<noteq> PendingKey q" "SequenceKey q \<noteq> PendingRankKey q"
  "SequenceKey q \<noteq> ScheduledKey q" "SequenceKey q \<noteq> RetryKey q"
  "SequenceKey q \<noteq> ActiveKey q" "SequenceKey q \<noteq> LeaseKey q"
  "SequenceKey q \<noteq> ArchivedKey q" "ScheduledKey q \<noteq> PendingKey q"
  "ScheduledKey q \<noteq> PendingRankKey q" "ScheduledKey q \<noteq> SequenceKey q"
  "ScheduledKey q \<noteq> RetryKey q" "ScheduledKey q \<noteq> ActiveKey q"
  "ScheduledKey q \<noteq> LeaseKey q" "ScheduledKey q \<noteq> ArchivedKey q"
  "RetryKey q \<noteq> PendingKey q" "RetryKey q \<noteq> PendingRankKey q"
  "RetryKey q \<noteq> SequenceKey q" "RetryKey q \<noteq> ScheduledKey q"
  "RetryKey q \<noteq> ActiveKey q" "RetryKey q \<noteq> LeaseKey q" "RetryKey q \<noteq> ArchivedKey q"
  "ActiveKey q \<noteq> PendingKey q" "ActiveKey q \<noteq> PendingRankKey q"
  "ActiveKey q \<noteq> SequenceKey q" "ActiveKey q \<noteq> ScheduledKey q"
  "ActiveKey q \<noteq> RetryKey q" "ActiveKey q \<noteq> LeaseKey q" "ActiveKey q \<noteq> ArchivedKey q"
  "LeaseKey q \<noteq> PendingKey q" "LeaseKey q \<noteq> PendingRankKey q"
  "LeaseKey q \<noteq> SequenceKey q" "LeaseKey q \<noteq> ScheduledKey q" "LeaseKey q \<noteq> RetryKey q"
  "LeaseKey q \<noteq> ActiveKey q" "LeaseKey q \<noteq> ArchivedKey q"
  "ArchivedKey q \<noteq> PendingKey q" "ArchivedKey q \<noteq> PendingRankKey q"
  "ArchivedKey q \<noteq> SequenceKey q" "ArchivedKey q \<noteq> ScheduledKey q"
  "ArchivedKey q \<noteq> RetryKey q" "ArchivedKey q \<noteq> ActiveKey q"
  "ArchivedKey q \<noteq> LeaseKey q"
  by (simp_all add: key_defs)

lemma key_of_keys [simp]:
  "key_of q (TaskKey q i)" "key_of q (PendingKey q)" "key_of q (PendingRankKey q)"
  "key_of q (SequenceKey q)" "key_of q (ScheduledKey q)" "key_of q (RetryKey q)"
  "key_of q (ActiveKey q)" "key_of q (LeaseKey q)" "key_of q (ArchivedKey q)"
  by (simp_all add: key_of_def key_defs)

lemma queuePrefix_inj:
  assumes "queue_name_ok q" and "queue_name_ok q'" and "queuePrefix q @ a = queuePrefix q' @ b"
  shows "q = q' \<and> a = b"
proof -
  let ?w = "\<lambda>s. takeWhile (\<lambda>c. c \<noteq> CHR ''}'') s"
  from assms(3) have eq: "q @ CHR ''}'' # CHR '':'' # a = q' @ CHR ''}'' # CHR '':'' # b"
    by (simp add: queuePrefix_def)
  then have "?w (q @ CHR ''}'' # CHR '':'' # a) = ?w (q' @ CHR ''}'' # CHR '':'' # b)" by simp
  moreover have "?w (q @ CHR ''}'' # xs) = q" "?w (q' @ CHR ''}'' # xs) = q'" for xs
    using assms(1,2) by (auto simp: queue_name_ok_def takeWhile_append takeWhile_eq_all_conv)
  ultimately have "q = q'" by simp
  with eq show ?thesis by simp
qed

lemma key_of_unique:
  "queue_name_ok q \<Longrightarrow> queue_name_ok q' \<Longrightarrow> key_of q k \<Longrightarrow> key_of q' k \<Longrightarrow> q = q'"
  unfolding key_of_def prefix_def using queuePrefix_inj by blast

text \<open>C26. Keys of different queues are different whatever the task ids are, as long as the queue
  names hold no closing brace: the family of a queue is never shared.\<close>

theorem queue_keys_disjoint:
  assumes "queue_name_ok q" and "queue_name_ok q'" and "q \<noteq> q'"
  shows "{k. key_of q k} \<inter> {k. key_of q' k} = {} \<and> TaskKey q i \<noteq> TaskKey q' j
    \<and> TaskKey q i \<noteq> PendingKey q'"
proof -
  have d: "\<not> (key_of q k \<and> key_of q' k)" for k using assms key_of_unique by blast
  then have "TaskKey q i \<noteq> TaskKey q' j" "TaskKey q i \<noteq> PendingKey q'"
    by (metis key_of_keys(1), metis key_of_keys(1,2))
  with d show ?thesis by blast
qed

theorem queue_keys_disjoint_witness:
  "queue_name_ok ''image'' \<and> queue_name_ok ''c2pa'' \<and>
   TaskKey ''image'' ''a'' \<noteq> TaskKey ''c2pa'' ''a''"
proof -
  have h: "queue_name_ok ''image''" "queue_name_ok ''c2pa''" "''image'' \<noteq> ''c2pa''"
    by (simp_all add: queue_name_ok_def)
  from queue_keys_disjoint [OF h, of "''a''" "''a''"] h show ?thesis by simp
qed


end
