(* ===== verification/LuaScripts.thy ===== *)
theory LuaScripts
  imports RedisKeys
begin

text \<open>
  The Lua scripts of \<^verbatim>\<open>internal/redisstore/rdb.go\<close>, one definition per script, with \<open>KEYS[i]\<close> as \<open>Ki\<close>
  and \<open>ARGV[i]\<close> as \<open>Ai\<close> in the order the Go code passes them. \<open>extendLeaseScript\<close> takes the two
  arrays whole, since it indexes them.
\<close>

text \<open>\<open>string.format("%020d", sequence)\<close>: the integer reply of \<open>INCR\<close> is a Lua number, a double.\<close>

definition format_020d :: "int \<Rightarrow> string" where
  "format_020d n = pad_dec 20 (nat (f64_of_int n))"

definition rank_member :: "int \<Rightarrow> string \<Rightarrow> string" where
  "rank_member sequence tid = format_020d sequence @ '':'' @ tid"

text \<open>The text of a bulk used as a member; documents are never used so.\<close>

fun text_of :: "bulk \<Rightarrow> string" where
  "text_of (Txt s) = s"
| "text_of (Num n) = dec_int n"
| "text_of (Doc j) = []"

text \<open>\<open>if not rankMember then rankMember = tid end\<close>\<close>

definition member_or :: "bulk option \<Rightarrow> string \<Rightarrow> string" where
  "member_or rm tid = (case rm of None \<Rightarrow> tid | Some b \<Rightarrow> text_of b)"

definition lua_arg_error :: string where
  "lua_arg_error = ''Lua redis lib command arguments must be strings or integers''"

definition enqueueScript ::
  "string \<Rightarrow> string \<Rightarrow> string \<Rightarrow> string \<Rightarrow> bulk \<Rightarrow> string \<Rightarrow> bulk \<Rightarrow> bulk \<Rightarrow> int script" where
  "enqueueScript K1 K2 K3 K4 A1 A2 A3 A4 =
     call_int (EXISTS K1) (\<lambda>e. if e = 1 then Ret 0 else
     call_int (INCR K4) (\<lambda>sequence. let rankMember = rank_member sequence A2 in
     call_do (HSET K1 [(''msg'', A1), (''state'', Txt ''pending''), (''priority'', A3),
                       (''rank'', A4), (''rank_member'', Txt rankMember)])
     (call_do (LPUSH K2 A2)
     (call_do (ZADD K3 A4 rankMember)
     (Ret 1)))))"

definition scheduleScript ::
  "string \<Rightarrow> string \<Rightarrow> string \<Rightarrow> bulk \<Rightarrow> string \<Rightarrow> bulk \<Rightarrow> bulk \<Rightarrow> bulk \<Rightarrow> int script" where
  "scheduleScript K1 K2 K3 A1 A2 A3 A4 A5 =
     call_int (EXISTS K1) (\<lambda>e. if e = 1 then Ret 0 else
     call_int (INCR K3) (\<lambda>sequence. let rankMember = rank_member sequence A2 in
     call_do (HSET K1 [(''msg'', A1), (''state'', Txt ''scheduled''), (''priority'', A3),
                       (''rank'', A4), (''rank_member'', Txt rankMember)])
     (call_do (ZADD K2 A5 A2)
     (Ret 1))))"

text \<open>\<open>string.sub (rankMember, 22)\<close> drops the 20 digits and the colon. The result is the pair
  \<open>{status, msg}\<close>.\<close>

definition claimScript ::
  "string \<Rightarrow> string \<Rightarrow> string \<Rightarrow> string \<Rightarrow> string \<Rightarrow> bulk \<Rightarrow> bulk \<Rightarrow> bulk \<Rightarrow> (int \<times> bulk) script" where
  "claimScript K1 K2 K3 K4 K5 A1 A2 A3 =
     call_strs (ZRANGE K2 0 0) (\<lambda>rankMembers. case rankMembers of [] \<Rightarrow> Ret (0, Txt '''')
     | rankMember # _ \<Rightarrow>
     call_int (ZREM K2 rankMember) (\<lambda>n. if n = 0 then Ret (0, Txt '''') else
     let candidateID = drop 21 rankMember in
     call_bulk (HGET (K1 @ candidateID) ''rank_member'') (\<lambda>rm.
     let tid = (if rm = Some (Txt rankMember) then candidateID else rankMember) in
     call_do (LREM K3 1 tid)
     (let taskKey = K1 @ tid in
     call_bulk (HGET taskKey ''msg'') (\<lambda>msg. case msg of None \<Rightarrow> Ret (0, Txt '''')
     | Some m \<Rightarrow>
     call_do (HSET taskKey [(''state'', Txt ''active''), (''active_since'', A1), (''attempt_id'', A3)])
     (call_do (RPUSH K4 tid)
     (call_do (ZADD K5 A2 tid)
     (Ret (1, m)))))))))"

fun moveReady_loop ::
  "string \<Rightarrow> string \<Rightarrow> string \<Rightarrow> int \<Rightarrow> string \<Rightarrow> string list \<Rightarrow> int \<Rightarrow> int script" where
  "moveReady_loop K1 K2 K3 mx A3 [] moved = Ret moved"
| "moveReady_loop K1 K2 K3 mx A3 (tid # ids) moved =
     (if moved \<ge> mx then Ret moved else
      call_int (ZREM K1 tid) (\<lambda>n.
        if n = 1 then
          let taskKey = A3 @ tid in
          call_bulk (HGET taskKey ''rank'') (\<lambda>rank.
          call_bulk (HGET taskKey ''rank_member'') (\<lambda>rankMember. case rank of
            None \<Rightarrow> moveReady_loop K1 K2 K3 mx A3 ids moved
          | Some rk \<Rightarrow>
              call_do (HSET taskKey [(''state'', Txt ''pending'')])
              (call_do (LPUSH K2 tid)
              (call_do (ZADD K3 rk (member_or rankMember tid))
              (moveReady_loop K1 K2 K3 mx A3 ids (moved + 1))))))
        else moveReady_loop K1 K2 K3 mx A3 ids moved))"

definition moveReadyScript ::
  "string \<Rightarrow> string \<Rightarrow> string \<Rightarrow> bulk \<Rightarrow> int \<Rightarrow> string \<Rightarrow> int script" where
  "moveReadyScript K1 K2 K3 A1 A2 A3 =
     call_strs (ZRANGEBYSCORE K1 A1 None) (\<lambda>ids. moveReady_loop K1 K2 K3 A2 A3 ids 0)"

definition moveOneScript ::
  "string \<Rightarrow> string \<Rightarrow> string \<Rightarrow> string \<Rightarrow> string \<Rightarrow> int script" where
  "moveOneScript K1 K2 K3 K4 A1 =
     call_int (ZREM K1 A1) (\<lambda>n. if n = 0 then Ret 0 else
     call_bulk (HGET K4 ''rank'') (\<lambda>rank.
     call_bulk (HGET K4 ''rank_member'') (\<lambda>rankMember. case rank of None \<Rightarrow> Ret 0
     | Some rk \<Rightarrow>
     call_do (HSET K4 [(''state'', Txt ''pending'')])
     (call_do (LPUSH K2 A1)
     (call_do (ZADD K3 rk (member_or rankMember A1))
     (Ret 1))))))"

text \<open>The guard shared by the scripts that end an attempt: the task is active and the caller owns the
  current attempt.\<close>

definition owned_by :: "string \<Rightarrow> bulk \<Rightarrow> int script \<Rightarrow> int script" where
  "owned_by K1 attempt s =
     call_bulk (HGET K1 ''state'') (\<lambda>st. if st \<noteq> Some (Txt ''active'') then Ret 0 else
     call_bulk (HGET K1 ''attempt_id'') (\<lambda>a. if a \<noteq> Some attempt then Ret 0 else s))"

definition ackScript ::
  "string \<Rightarrow> string \<Rightarrow> string \<Rightarrow> string \<Rightarrow> bulk \<Rightarrow> bulk \<Rightarrow> bulk \<Rightarrow> int script" where
  "ackScript K1 K2 K3 A1 A2 A3 A4 =
     owned_by K1 A4
     (call_do (LREM K2 1 A1)
     (call_do (ZREM K3 A1)
     (call_do (HSET K1 [(''msg'', A2), (''state'', Txt ''completed''), (''completed_at'', A3)])
     (call_do (HDEL K1 ''attempt_id'')
     (Ret 1)))))"

definition retryScript ::
  "string \<Rightarrow> string \<Rightarrow> string \<Rightarrow> string \<Rightarrow> string \<Rightarrow> bulk \<Rightarrow> bulk \<Rightarrow> bulk \<Rightarrow> bulk \<Rightarrow> int script" where
  "retryScript K1 K2 K3 K4 A1 A2 A3 A4 A5 =
     owned_by K1 A5
     (call_do (LREM K2 1 A1)
     (call_do (ZREM K3 A1)
     (call_do (HSET K1 [(''msg'', A2), (''state'', Txt ''retry''), (''retry_at'', A3), (''last_error'', A4)])
     (call_do (HDEL K1 ''attempt_id'')
     (call_do (ZADD K4 A3 A1)
     (Ret 1))))))"

definition archiveScript ::
  "string \<Rightarrow> string \<Rightarrow> string \<Rightarrow> string \<Rightarrow> string \<Rightarrow> bulk \<Rightarrow> bulk \<Rightarrow> bulk \<Rightarrow> bulk \<Rightarrow> int script" where
  "archiveScript K1 K2 K3 K4 A1 A2 A3 A4 A5 =
     owned_by K1 A5
     (call_do (LREM K2 1 A1)
     (call_do (ZREM K3 A1)
     (call_do (HSET K1 [(''msg'', A2), (''state'', Txt ''archived''), (''last_error'', A3)])
     (call_do (HDEL K1 ''attempt_id'')
     (call_do (ZADD K4 A4 A1)
     (Ret 1))))))"

text \<open>A missing \<open>rank\<close> is \<open>false\<close> in Lua, which \<open>redis.call\<close> refuses as an argument of \<open>ZADD\<close>.\<close>

definition requeueScript ::
  "string \<Rightarrow> string \<Rightarrow> string \<Rightarrow> string \<Rightarrow> string \<Rightarrow> string \<Rightarrow> bulk \<Rightarrow> int script" where
  "requeueScript K1 K2 K3 K4 K5 A1 A2 =
     owned_by K1 A2
     (call_bulk (HGET K1 ''rank'') (\<lambda>rank.
      call_bulk (HGET K1 ''rank_member'') (\<lambda>rankMember.
      call_do (LREM K2 1 A1)
      (call_do (ZREM K3 A1)
      (call_do (HSET K1 [(''state'', Txt ''pending'')])
      (call_do (HDEL K1 ''attempt_id'')
      (call_do (LPUSH K4 A1)
      (case rank of None \<Rightarrow> Raise lua_arg_error
       | Some rk \<Rightarrow> call_do (ZADD K5 rk (member_or rankMember A1)) (Ret 1)))))))))"

definition replayArchivedScript ::
  "string \<Rightarrow> string \<Rightarrow> string \<Rightarrow> string \<Rightarrow> string \<Rightarrow> bulk \<Rightarrow> int script" where
  "replayArchivedScript K1 K2 K3 K4 A1 A2 =
     call_bulk (HGET K1 ''state'') (\<lambda>st. if st \<noteq> Some (Txt ''archived'') then Ret 0 else
     call_bulk (HGET K1 ''rank'') (\<lambda>rank.
     call_bulk (HGET K1 ''rank_member'') (\<lambda>rankMember. case rank of None \<Rightarrow> Ret 0
     | Some rk \<Rightarrow>
     call_int (ZREM K2 A1) (\<lambda>n. if n = 0 then Ret 0 else
     call_do (HSET K1 [(''msg'', A2), (''state'', Txt ''pending'')])
     (call_do (LPUSH K3 A1)
     (call_do (ZADD K4 rk (member_or rankMember A1))
     (Ret 1)))))))"

definition deleteArchivedScript :: "string \<Rightarrow> string \<Rightarrow> string \<Rightarrow> int script" where
  "deleteArchivedScript K1 K2 A1 =
     call_bulk (HGET K1 ''state'') (\<lambda>st. if st \<noteq> Some (Txt ''archived'') then Ret 0 else
     call_int (ZREM K2 A1) (\<lambda>n. if n = 0 then Ret 0 else
     call_do (DEL K1)
     (Ret 1)))"

fun cleanup_loop :: "string \<Rightarrow> int \<Rightarrow> string \<Rightarrow> string list \<Rightarrow> int \<Rightarrow> int script" where
  "cleanup_loop K1 mx A3 [] removed = Ret removed"
| "cleanup_loop K1 mx A3 (tid # ids) removed =
     (if removed \<ge> mx then Ret removed else
      let taskKey = A3 @ tid in
      call_bulk (HGET taskKey ''state'') (\<lambda>st.
        if st = Some (Txt ''archived'') then
          call_int (ZREM K1 tid) (\<lambda>n.
            if n = 1 then call_do (DEL taskKey) (cleanup_loop K1 mx A3 ids (removed + 1))
            else cleanup_loop K1 mx A3 ids removed)
        else cleanup_loop K1 mx A3 ids removed))"

definition cleanupArchivedScript :: "string \<Rightarrow> bulk \<Rightarrow> int \<Rightarrow> string \<Rightarrow> int script" where
  "cleanupArchivedScript K1 A1 A2 A3 =
     call_strs (ZRANGEBYSCORE K1 A1 None) (\<lambda>ids. cleanup_loop K1 A2 A3 ids 0)"

text \<open>Lua array access: one-based, nil out of range.\<close>

definition lua_at :: "'a list \<Rightarrow> int \<Rightarrow> 'a option" where
  "lua_at xs i = (if 1 \<le> i \<and> i \<le> int (length xs) then Some (xs ! nat (i - 1)) else None)"

text \<open>The body of \<open>for i = 2, #KEYS\<close>. A missing argument is nil: it equals no field value, and
  \<open>redis.call\<close> refuses it.\<close>

fun extendLease_loop :: "string list \<Rightarrow> bulk list \<Rightarrow> int list \<Rightarrow> int \<Rightarrow> int script" where
  "extendLease_loop KEYS ARGV [] extended = Ret extended"
| "extendLease_loop KEYS ARGV (i # is) extended =
     (let argIndex = (i - 2) * 2 + 2; tid = lua_at ARGV argIndex; attemptID = lua_at ARGV (argIndex + 1)
      in case (lua_at KEYS 1, lua_at KEYS i, lua_at ARGV 1) of
        (Some lease, Some key, Some expiresAt) \<Rightarrow>
          call_bulk (HGET key ''state'') (\<lambda>st.
            if st = Some (Txt ''active'') then
              call_bulk (HGET key ''attempt_id'') (\<lambda>a.
                if a \<noteq> None \<and> a = attemptID then
                  (case tid of None \<Rightarrow> Raise lua_arg_error
                   | Some b \<Rightarrow> call_do (ZADD lease expiresAt (text_of b))
                       (extendLease_loop KEYS ARGV is (extended + 1)))
                else extendLease_loop KEYS ARGV is extended)
            else
              (case tid of None \<Rightarrow> Raise lua_arg_error
               | Some b \<Rightarrow> call_do (ZREM lease (text_of b)) (extendLease_loop KEYS ARGV is extended)))
      | _ \<Rightarrow> Raise lua_arg_error)"

definition extendLeaseScript :: "string list \<Rightarrow> bulk list \<Rightarrow> int script" where
  "extendLeaseScript KEYS ARGV = extendLease_loop KEYS ARGV [2..int (length KEYS)] 0"

end
