(* ===== verification/QueueState.thy ===== *)
theory QueueState
  imports LuaScripts
begin

text \<open>
  What one queue is, apart from how Redis stores it: the task hashes, the two lists, the five sorted
  sets and the sequence counter. \<open>queue_view\<close> reads this state off a keyspace whose keys of the
  queue have the types the layout gives them (\<open>queue_typed\<close>). One function per script
  (\<open>q_enqueue\<close>, \<open>q_claim\<close>, ...) says what the script does to that state, and the refinement lemmas
  (\<open>..._refines\<close>) show that running the script does exactly that and touches no other queue.
\<close>

section \<open>State and view\<close>

record qstate =
  q_task :: "string \<Rightarrow> (string \<rightharpoonup> bulk) option"
  q_pending :: "string list"
  q_rank :: zset
  q_scheduled :: zset
  q_retry :: zset
  q_active :: "string list"
  q_lease :: zset
  q_archived :: zset
  q_seq :: int

definition task_view :: "rval option \<Rightarrow> (string \<rightharpoonup> bulk) option" where
  "task_view v = (case v of Some (VHash h) \<Rightarrow> Some (map_of h) | _ \<Rightarrow> None)"

definition queue_view :: "string \<Rightarrow> keyspace \<Rightarrow> qstate" where
  "queue_view q ks =
     \<lparr>q_task = (\<lambda>i. task_view (ks (TaskKey q i))),
      q_pending = the (as_list ks (PendingKey q)),
      q_rank = the (as_zset ks (PendingRankKey q)),
      q_scheduled = the (as_zset ks (ScheduledKey q)),
      q_retry = the (as_zset ks (RetryKey q)),
      q_active = the (as_list ks (ActiveKey q)),
      q_lease = the (as_zset ks (LeaseKey q)),
      q_archived = the (as_zset ks (ArchivedKey q)),
      q_seq = the (as_int ks (SequenceKey q))\<rparr>"

definition hash_or_absent :: "rval option \<Rightarrow> bool" where
  "hash_or_absent v \<longleftrightarrow> (case v of None \<Rightarrow> True | Some (VHash h) \<Rightarrow> h \<noteq> [] | Some _ \<Rightarrow> False)"

definition queue_typed :: "string \<Rightarrow> keyspace \<Rightarrow> bool" where
  "queue_typed q ks \<longleftrightarrow>
     (\<forall>i. hash_or_absent (ks (TaskKey q i)))
     \<and> as_list ks (PendingKey q) \<noteq> None \<and> as_list ks (ActiveKey q) \<noteq> None
     \<and> as_zset ks (PendingRankKey q) \<noteq> None \<and> as_zset ks (ScheduledKey q) \<noteq> None
     \<and> as_zset ks (RetryKey q) \<noteq> None \<and> as_zset ks (LeaseKey q) \<noteq> None
     \<and> as_zset ks (ArchivedKey q) \<noteq> None \<and> as_int ks (SequenceKey q) \<noteq> None"

definition empty_queue :: qstate where
  "empty_queue = \<lparr>q_task = (\<lambda>i. None), q_pending = [], q_rank = [], q_scheduled = [], q_retry = [],
     q_active = [], q_lease = [], q_archived = [], q_seq = 0\<rparr>"

text \<open>Two keyspaces that agree outside one queue.\<close>

definition same_outside :: "string \<Rightarrow> keyspace \<Rightarrow> keyspace \<Rightarrow> bool" where
  "same_outside q ks ks' \<longleftrightarrow> (\<forall>k. \<not> key_of q k \<longrightarrow> ks' k = ks k)"

definition q_field :: "qstate \<Rightarrow> string \<Rightarrow> string \<Rightarrow> bulk option" where
  "q_field Q i f = (case q_task Q i of None \<Rightarrow> None | Some h \<Rightarrow> h f)"

definition q_fields :: "qstate \<Rightarrow> string \<Rightarrow> (string \<rightharpoonup> bulk)" where
  "q_fields Q i = (case q_task Q i of None \<Rightarrow> Map.empty | Some h \<Rightarrow> h)"


section \<open>The operations on the abstract queue\<close>

definition put_task :: "string \<Rightarrow> (string \<rightharpoonup> bulk) \<Rightarrow> qstate \<Rightarrow> qstate" where
  "put_task i h Q = Q\<lparr>q_task := (q_task Q)(i \<mapsto> h)\<rparr>"

definition overflow_error :: gerr where
  "overflow_error = RedisError ''ERR increment or decrement would overflow''"

definition new_task :: "json \<Rightarrow> string \<Rightarrow> int \<Rightarrow> int \<Rightarrow> string \<Rightarrow> (string \<rightharpoonup> bulk)" where
  "new_task msg st prio rank rm =
     [''msg'' \<mapsto> Doc msg, ''state'' \<mapsto> Txt st, ''priority'' \<mapsto> Num prio, ''rank'' \<mapsto> Num rank,
      ''rank_member'' \<mapsto> Txt rm]"

definition q_enqueue :: "json \<Rightarrow> string \<Rightarrow> int \<Rightarrow> int \<Rightarrow> qstate \<Rightarrow> (gerr + int) \<times> qstate" where
  "q_enqueue msg i prio rank Q =
     (if q_task Q i \<noteq> None then (Inr 0, Q)
      else if q_seq Q + 1 < 2 ^ 63 then
        let rm = rank_member (q_seq Q + 1) i in
        (Inr 1, (put_task i (new_task msg ''pending'' prio rank rm) Q)
           \<lparr>q_seq := q_seq Q + 1, q_pending := i # q_pending Q,
            q_rank := zadd (f64_of_int rank) rm (q_rank Q)\<rparr>)
      else (Inl overflow_error, Q))"

definition q_schedule :: "json \<Rightarrow> string \<Rightarrow> int \<Rightarrow> int \<Rightarrow> int \<Rightarrow> qstate \<Rightarrow> (gerr + int) \<times> qstate" where
  "q_schedule msg i prio rank at Q =
     (if q_task Q i \<noteq> None then (Inr 0, Q)
      else if q_seq Q + 1 < 2 ^ 63 then
        (Inr 1, (put_task i (new_task msg ''scheduled'' prio rank (rank_member (q_seq Q + 1) i)) Q)
           \<lparr>q_seq := q_seq Q + 1, q_scheduled := zadd (f64_of_int at) i (q_scheduled Q)\<rparr>)
      else (Inl overflow_error, Q))"

text \<open>The claimed task is the one at the head of the ranking.\<close>

definition q_claim :: "int \<Rightarrow> int \<Rightarrow> string \<Rightarrow> qstate \<Rightarrow> (int \<times> bulk) \<times> qstate" where
  "q_claim now expires attempt Q = (case q_rank Q of
     [] \<Rightarrow> ((0, Txt ''''), Q)
   | (s, rm) # _ \<Rightarrow>
       let i = drop 21 rm; h = q_fields Q i in
       ((1, the (h ''msg'')),
        (put_task i (h(''state'' \<mapsto> Txt ''active'', ''active_since'' \<mapsto> Num now, ''attempt_id'' \<mapsto> Txt attempt)) Q)
          \<lparr>q_rank := zrem rm (q_rank Q), q_pending := remove1 i (q_pending Q),
           q_active := q_active Q @ [i], q_lease := zadd (f64_of_int expires) i (q_lease Q)\<rparr>))"

text \<open>The two sorted sets that due tasks are moved from.\<close>

datatype source = Scheduled | Retry

fun source_key :: "source \<Rightarrow> string \<Rightarrow> string" where
  "source_key Scheduled q = ScheduledKey q"
| "source_key Retry q = RetryKey q"

fun source_zset :: "source \<Rightarrow> qstate \<Rightarrow> zset" where
  "source_zset Scheduled Q = q_scheduled Q"
| "source_zset Retry Q = q_retry Q"

fun set_source :: "source \<Rightarrow> zset \<Rightarrow> qstate \<Rightarrow> qstate" where
  "set_source Scheduled z Q = Q\<lparr>q_scheduled := z\<rparr>"
| "set_source Retry z Q = Q\<lparr>q_retry := z\<rparr>"

fun source_state :: "source \<Rightarrow> string" where
  "source_state Scheduled = ''scheduled''"
| "source_state Retry = ''retry''"

text \<open>Making task \<open>i\<close> pending: the tail shared by moving, requeueing and replaying.\<close>

definition rank_of :: "(string \<rightharpoonup> bulk) \<Rightarrow> int" where
  "rank_of h = (case h ''rank'' of Some (Num r) \<Rightarrow> r | _ \<Rightarrow> 0)"

definition member_of :: "(string \<rightharpoonup> bulk) \<Rightarrow> string" where
  "member_of h = (case h ''rank_member'' of Some (Txt m) \<Rightarrow> m | _ \<Rightarrow> [])"

definition make_pending :: "string \<Rightarrow> (string \<rightharpoonup> bulk) \<Rightarrow> qstate \<Rightarrow> qstate" where
  "make_pending i h Q =
     (put_task i (h(''state'' \<mapsto> Txt ''pending'')) Q)
       \<lparr>q_pending := i # q_pending Q,
        q_rank := zadd (f64_of_int (rank_of h)) (member_of h) (q_rank Q)\<rparr>"

definition q_move_one :: "source \<Rightarrow> string \<Rightarrow> qstate \<Rightarrow> qstate" where
  "q_move_one src i Q =
     make_pending i (q_fields Q i) (set_source src (zrem i (source_zset src Q)) Q)"

fun q_move_loop :: "source \<Rightarrow> int \<Rightarrow> string list \<Rightarrow> int \<Rightarrow> qstate \<Rightarrow> int \<times> qstate" where
  "q_move_loop src mx [] moved Q = (moved, Q)"
| "q_move_loop src mx (i # is) moved Q =
     (if moved \<ge> mx then (moved, Q) else q_move_loop src mx is (moved + 1) (q_move_one src i Q))"

definition due :: "int \<Rightarrow> zset \<Rightarrow> string list" where
  "due now z = zmembers (filter (\<lambda>e. fst e \<le> f64_of_int now) z)"

definition q_move_ready :: "source \<Rightarrow> int \<Rightarrow> int \<Rightarrow> qstate \<Rightarrow> int \<times> qstate" where
  "q_move_ready src now mx Q = q_move_loop src mx (due now (source_zset src Q)) 0 Q"

text \<open>Ending an attempt: only its owner may, and it leaves the active list and the lease set.\<close>

definition q_owned :: "qstate \<Rightarrow> string \<Rightarrow> string \<Rightarrow> bool" where
  "q_owned Q i attempt \<longleftrightarrow>
     q_field Q i ''state'' = Some (Txt ''active'') \<and> q_field Q i ''attempt_id'' = Some (Txt attempt)"

definition q_release :: "string \<Rightarrow> (string \<rightharpoonup> bulk) \<Rightarrow> qstate \<Rightarrow> qstate" where
  "q_release i h Q =
     (put_task i (h(''attempt_id'' := None)) Q)
       \<lparr>q_active := remove1 i (q_active Q), q_lease := zrem i (q_lease Q)\<rparr>"

definition q_ack :: "string \<Rightarrow> json \<Rightarrow> int \<Rightarrow> string \<Rightarrow> qstate \<Rightarrow> int \<times> qstate" where
  "q_ack i msg at attempt Q =
     (if q_owned Q i attempt then
        (1, q_release i ((q_fields Q i)(''msg'' \<mapsto> Doc msg, ''state'' \<mapsto> Txt ''completed'',
                                         ''completed_at'' \<mapsto> Num at)) Q)
      else (0, Q))"

definition q_schedule_retry :: "string \<Rightarrow> json \<Rightarrow> int \<Rightarrow> string \<Rightarrow> string \<Rightarrow> qstate \<Rightarrow> int \<times> qstate" where
  "q_schedule_retry i msg at reason attempt Q =
     (if q_owned Q i attempt then
        (1, (q_release i ((q_fields Q i)(''msg'' \<mapsto> Doc msg, ''state'' \<mapsto> Txt ''retry'',
                ''retry_at'' \<mapsto> Num at, ''last_error'' \<mapsto> Txt reason)) Q)
              \<lparr>q_retry := zadd (f64_of_int at) i (q_retry Q)\<rparr>)
      else (0, Q))"

definition q_archive :: "string \<Rightarrow> json \<Rightarrow> string \<Rightarrow> int \<Rightarrow> string \<Rightarrow> qstate \<Rightarrow> int \<times> qstate" where
  "q_archive i msg reason at attempt Q =
     (if q_owned Q i attempt then
        (1, (q_release i ((q_fields Q i)(''msg'' \<mapsto> Doc msg, ''state'' \<mapsto> Txt ''archived'',
                ''last_error'' \<mapsto> Txt reason)) Q)
              \<lparr>q_archived := zadd (f64_of_int at) i (q_archived Q)\<rparr>)
      else (0, Q))"

definition q_requeue :: "string \<Rightarrow> string \<Rightarrow> qstate \<Rightarrow> int \<times> qstate" where
  "q_requeue i attempt Q =
     (if q_owned Q i attempt then
        (1, make_pending i ((q_fields Q i)(''attempt_id'' := None)) (q_release i (q_fields Q i) Q))
      else (0, Q))"

definition q_archived_task :: "qstate \<Rightarrow> string \<Rightarrow> bool" where
  "q_archived_task Q i \<longleftrightarrow> q_field Q i ''state'' = Some (Txt ''archived'')"

definition q_replay :: "string \<Rightarrow> json \<Rightarrow> qstate \<Rightarrow> int \<times> qstate" where
  "q_replay i msg Q =
     (if q_archived_task Q i then
        (1, make_pending i ((q_fields Q i)(''msg'' \<mapsto> Doc msg)) (Q\<lparr>q_archived := zrem i (q_archived Q)\<rparr>))
      else (0, Q))"

definition q_drop_archived :: "string \<Rightarrow> qstate \<Rightarrow> qstate" where
  "q_drop_archived i Q = Q\<lparr>q_task := (q_task Q)(i := None), q_archived := zrem i (q_archived Q)\<rparr>"

definition q_delete_archived :: "string \<Rightarrow> qstate \<Rightarrow> int \<times> qstate" where
  "q_delete_archived i Q =
     (if q_archived_task Q i then (1, q_drop_archived i Q) else (0, Q))"

fun q_cleanup_loop :: "int \<Rightarrow> string list \<Rightarrow> int \<Rightarrow> qstate \<Rightarrow> int \<times> qstate" where
  "q_cleanup_loop mx [] removed Q = (removed, Q)"
| "q_cleanup_loop mx (i # is) removed Q =
     (if removed \<ge> mx then (removed, Q) else q_cleanup_loop mx is (removed + 1) (q_drop_archived i Q))"

definition q_cleanup :: "int \<Rightarrow> int \<Rightarrow> qstate \<Rightarrow> int \<times> qstate" where
  "q_cleanup before mx Q = q_cleanup_loop mx (due before (q_archived Q)) 0 Q"

definition q_extend_one :: "int \<Rightarrow> string \<times> string \<Rightarrow> qstate \<Rightarrow> qstate" where
  "q_extend_one expires p Q =
     (if q_owned Q (fst p) (snd p)
      then Q\<lparr>q_lease := zadd (f64_of_int expires) (fst p) (q_lease Q)\<rparr>
      else if q_field Q (fst p) ''state'' = Some (Txt ''active'') then Q
      else Q\<lparr>q_lease := zrem (fst p) (q_lease Q)\<rparr>)"

definition q_extend :: "int \<Rightarrow> (string \<times> string) list \<Rightarrow> qstate \<Rightarrow> qstate" where
  "q_extend expires ps Q = fold (q_extend_one expires) ps Q"


section \<open>The invariant of a queue\<close>

text \<open>A stored document is the JSON form of a message of this queue and this id.\<close>

definition doc_ok :: "string \<Rightarrow> string \<Rightarrow> json \<Rightarrow> bool" where
  "doc_ok q i j \<longleftrightarrow> (case Unmarshal j of None \<Rightarrow> False | Some m \<Rightarrow> ID m = i \<and> Queue m = q)"

definition task_states :: "string list" where
  "task_states = [''pending'', ''scheduled'', ''active'', ''retry'', ''archived'', ''completed'']"

text \<open>A task hash: its document, its rank and rank member, one of the six states, and an attempt id
  exactly while it is active.\<close>

definition task_ok :: "string \<Rightarrow> string \<Rightarrow> int \<Rightarrow> (string \<rightharpoonup> bulk) \<Rightarrow> bool" where
  "task_ok q i seq h \<longleftrightarrow>
     (\<exists>j. h ''msg'' = Some (Doc j) \<and> doc_ok q i j)
     \<and> (\<exists>r. h ''rank'' = Some (Num r))
     \<and> (\<exists>n. 0 < n \<and> n \<le> seq \<and> h ''rank_member'' = Some (Txt (rank_member n i)))
     \<and> (\<exists>s \<in> set task_states. h ''state'' = Some (Txt s))
     \<and> (if h ''state'' = Some (Txt ''active'')
        then \<exists>a. h ''attempt_id'' = Some (Txt a) \<and> a \<noteq> [] else h ''attempt_id'' = None)"

definition in_state :: "qstate \<Rightarrow> string \<Rightarrow> string set" where
  "in_state Q s = {i. q_field Q i ''state'' = Some (Txt s)}"

definition rank_entry :: "(string \<rightharpoonup> bulk) \<Rightarrow> int \<times> string" where
  "rank_entry h = (f64_of_int (rank_of h), member_of h)"

text \<open>Every task sits in the containers of its state and in no other.\<close>

definition qinv :: "string \<Rightarrow> qstate \<Rightarrow> bool" where
  "qinv q Q \<longleftrightarrow>
     (\<forall>i h. q_task Q i = Some h \<longrightarrow> task_ok q i (q_seq Q) h)
     \<and> distinct (q_pending Q) \<and> set (q_pending Q) = in_state Q ''pending''
     \<and> distinct (q_active Q) \<and> set (q_active Q) = in_state Q ''active''
     \<and> zset_ok (q_rank Q) \<and> set (q_rank Q) = (\<lambda>i. rank_entry (q_fields Q i)) ` in_state Q ''pending''
     \<and> zset_ok (q_scheduled Q) \<and> set (zmembers (q_scheduled Q)) = in_state Q ''scheduled''
     \<and> zset_ok (q_retry Q) \<and> set (zmembers (q_retry Q)) = in_state Q ''retry''
     \<and> zset_ok (q_lease Q) \<and> set (zmembers (q_lease Q)) = in_state Q ''active''
     \<and> zset_ok (q_archived Q) \<and> set (zmembers (q_archived Q)) = in_state Q ''archived''
     \<and> 0 \<le> q_seq Q \<and> q_seq Q < 2 ^ 63"


section \<open>Lemmas: reading and writing through the view\<close>

lemma queue_typed_as_hash:
  "queue_typed q ks \<Longrightarrow> \<exists>h. as_hash ks (TaskKey q i) = Some h \<and> map_of h = q_fields (queue_view q ks) i
     \<and> (h = [] \<longleftrightarrow> ks (TaskKey q i) = None)"
proof -
  assume "queue_typed q ks"
  then have "hash_or_absent (ks (TaskKey q i))" by (simp add: queue_typed_def)
  then show ?thesis
    by (auto simp: hash_or_absent_def as_hash_def q_fields_def queue_view_def task_view_def
        split: option.splits rval.splits)
qed

lemma queue_typed_containers:
  assumes "queue_typed q ks"
  shows "as_list ks (PendingKey q) = Some (q_pending (queue_view q ks))"
    and "as_list ks (ActiveKey q) = Some (q_active (queue_view q ks))"
    and "as_zset ks (PendingRankKey q) = Some (q_rank (queue_view q ks))"
    and "as_zset ks (source_key src q) = Some (source_zset src (queue_view q ks))"
    and "as_zset ks (LeaseKey q) = Some (q_lease (queue_view q ks))"
    and "as_zset ks (ArchivedKey q) = Some (q_archived (queue_view q ks))"
    and "as_int ks (SequenceKey q) = Some (q_seq (queue_view q ks))"
  using assms by (cases src; auto simp: queue_typed_def queue_view_def)+

lemma q_field_fields: "q_field Q i f = q_fields Q i f"
  by (simp add: q_field_def q_fields_def split: option.splits)

lemma task_view_None: "hash_or_absent v \<Longrightarrow> task_view v = None \<longleftrightarrow> v = None"
  by (auto simp: hash_or_absent_def task_view_def split: option.splits rval.splits)

lemma queue_view_task_None:
  "queue_typed q ks \<Longrightarrow> q_task (queue_view q ks) i = None \<longleftrightarrow> ks (TaskKey q i) = None"
  by (simp add: queue_view_def queue_typed_def task_view_None)

text \<open>Writing one key of the queue changes one component of its view.\<close>

lemma view_put_hash [simp]:
  "queue_view q (put_hash ks (TaskKey q i) h) =
     (queue_view q ks)\<lparr>q_task := (q_task (queue_view q ks))
        (i := (if h = [] then None else Some (map_of h)))\<rparr>"
  by (auto simp: queue_view_def fun_eq_iff put_hash_def task_view_def as_list_def as_zset_def as_int_def)

lemma view_del_task [simp]:
  "queue_view q (ks(TaskKey q i := None)) =
     (queue_view q ks)\<lparr>q_task := (q_task (queue_view q ks))(i := None)\<rparr>"
  by (auto simp: queue_view_def fun_eq_iff task_view_def)

lemma view_put_containers [simp]:
  "queue_view q (put_list ks (PendingKey q) l) = (queue_view q ks)\<lparr>q_pending := l\<rparr>"
  "queue_view q (put_list ks (ActiveKey q) l) = (queue_view q ks)\<lparr>q_active := l\<rparr>"
  "queue_view q (put_zset ks (PendingRankKey q) z) = (queue_view q ks)\<lparr>q_rank := z\<rparr>"
  "queue_view q (put_zset ks (source_key src q) z) = set_source src z (queue_view q ks)"
  "queue_view q (put_zset ks (ScheduledKey q) z) = (queue_view q ks)\<lparr>q_scheduled := z\<rparr>"
  "queue_view q (put_zset ks (RetryKey q) z) = (queue_view q ks)\<lparr>q_retry := z\<rparr>"
  "queue_view q (put_zset ks (LeaseKey q) z) = (queue_view q ks)\<lparr>q_lease := z\<rparr>"
  "queue_view q (put_zset ks (ArchivedKey q) z) = (queue_view q ks)\<lparr>q_archived := z\<rparr>"
  "queue_view q (ks(SequenceKey q \<mapsto> VInt n)) = (queue_view q ks)\<lparr>q_seq := n\<rparr>"
  by (cases src; simp add: queue_view_def as_int_def)+

lemma typed_put [simp]:
  "queue_typed q ks \<Longrightarrow> queue_typed q (put_hash ks (TaskKey q i) h)"
  "queue_typed q ks \<Longrightarrow> queue_typed q (ks(TaskKey q i := None))"
  "queue_typed q ks \<Longrightarrow> queue_typed q (put_list ks (PendingKey q) l)"
  "queue_typed q ks \<Longrightarrow> queue_typed q (put_list ks (ActiveKey q) l)"
  "queue_typed q ks \<Longrightarrow> queue_typed q (put_zset ks (PendingRankKey q) z)"
  "queue_typed q ks \<Longrightarrow> queue_typed q (put_zset ks (source_key src q) z)"
  "queue_typed q ks \<Longrightarrow> queue_typed q (put_zset ks (ScheduledKey q) z)"
  "queue_typed q ks \<Longrightarrow> queue_typed q (put_zset ks (RetryKey q) z)"
  "queue_typed q ks \<Longrightarrow> queue_typed q (put_zset ks (LeaseKey q) z)"
  "queue_typed q ks \<Longrightarrow> queue_typed q (put_zset ks (ArchivedKey q) z)"
  "queue_typed q ks \<Longrightarrow> queue_typed q (ks(SequenceKey q \<mapsto> VInt n))"
  by (cases src; auto simp: queue_typed_def as_int_def put_hash_def hash_or_absent_def)+

lemma same_outside_refl [simp]: "same_outside q ks ks"
  by (simp add: same_outside_def)

lemma same_outside_trans:
  "same_outside q ks ks' \<Longrightarrow> same_outside q ks' ks'' \<Longrightarrow> same_outside q ks ks''"
  by (simp add: same_outside_def)

lemma key_of_source_key [simp]: "key_of q (source_key src q)"
  by (cases src) simp_all

lemma same_outside_put [simp]:
  "key_of q k \<Longrightarrow> same_outside q ks (put_hash ks' k h) = same_outside q ks ks'"
  "key_of q k \<Longrightarrow> same_outside q ks (put_list ks' k l) = same_outside q ks ks'"
  "key_of q k \<Longrightarrow> same_outside q ks (put_zset ks' k z) = same_outside q ks ks'"
  "key_of q k \<Longrightarrow> same_outside q ks (ks'(k := v)) = same_outside q ks ks'"
  by (auto simp: same_outside_def put_hash_def put_list_def put_zset_def)

text \<open>Tasks and containers are independent components of the queue.\<close>

lemma q_fields_put_task [simp]:
  "q_fields (put_task i h Q) j = (if j = i then h else q_fields Q j)"
  by (simp add: q_fields_def put_task_def)

lemma put_task_twice [simp]: "put_task i h' (put_task i h Q) = put_task i h' Q"
  by (simp add: put_task_def)

lemma put_task_sel [simp]:
  "q_pending (put_task i h Q) = q_pending Q" "q_rank (put_task i h Q) = q_rank Q"
  "q_scheduled (put_task i h Q) = q_scheduled Q" "q_retry (put_task i h Q) = q_retry Q"
  "q_active (put_task i h Q) = q_active Q" "q_lease (put_task i h Q) = q_lease Q"
  "q_archived (put_task i h Q) = q_archived Q" "q_seq (put_task i h Q) = q_seq Q"
  "q_task (put_task i h Q) = (q_task Q)(i \<mapsto> h)"
  by (simp_all add: put_task_def)

lemma q_fields_upd [simp]:
  "q_fields (Q\<lparr>q_pending := l\<rparr>) = q_fields Q" "q_fields (Q\<lparr>q_rank := z\<rparr>) = q_fields Q"
  "q_fields (Q\<lparr>q_scheduled := z\<rparr>) = q_fields Q" "q_fields (Q\<lparr>q_retry := z\<rparr>) = q_fields Q"
  "q_fields (Q\<lparr>q_active := l\<rparr>) = q_fields Q" "q_fields (Q\<lparr>q_lease := z\<rparr>) = q_fields Q"
  "q_fields (Q\<lparr>q_archived := z\<rparr>) = q_fields Q" "q_fields (Q\<lparr>q_seq := n\<rparr>) = q_fields Q"
  by (simp_all add: fun_eq_iff q_fields_def)

lemma put_task_upd [simp]:
  "put_task i h (Q\<lparr>q_pending := l\<rparr>) = (put_task i h Q)\<lparr>q_pending := l\<rparr>"
  "put_task i h (Q\<lparr>q_rank := z\<rparr>) = (put_task i h Q)\<lparr>q_rank := z\<rparr>"
  "put_task i h (Q\<lparr>q_scheduled := z\<rparr>) = (put_task i h Q)\<lparr>q_scheduled := z\<rparr>"
  "put_task i h (Q\<lparr>q_retry := z\<rparr>) = (put_task i h Q)\<lparr>q_retry := z\<rparr>"
  "put_task i h (Q\<lparr>q_active := l\<rparr>) = (put_task i h Q)\<lparr>q_active := l\<rparr>"
  "put_task i h (Q\<lparr>q_lease := z\<rparr>) = (put_task i h Q)\<lparr>q_lease := z\<rparr>"
  "put_task i h (Q\<lparr>q_archived := z\<rparr>) = (put_task i h Q)\<lparr>q_archived := z\<rparr>"
  "put_task i h (Q\<lparr>q_seq := n\<rparr>) = (put_task i h Q)\<lparr>q_seq := n\<rparr>"
  by (simp_all add: put_task_def)

lemma source_sel [simp]:
  "q_fields (set_source src z Q) = q_fields Q" "q_rank (set_source src z Q) = q_rank Q"
  "q_pending (set_source src z Q) = q_pending Q" "q_task (set_source src z Q) = q_task Q"
  "q_active (set_source src z Q) = q_active Q" "q_lease (set_source src z Q) = q_lease Q"
  "q_archived (set_source src z Q) = q_archived Q" "q_seq (set_source src z Q) = q_seq Q"
  "source_zset src (set_source src z Q) = z"
  by (cases src; simp)+

end
