(* ===== verification/QueueInvariant.thy ===== *)
theory QueueInvariant
  imports QueueState
begin

text \<open>
  Every operation of the abstract queue keeps the queue invariant \<open>qinv\<close>: a task has one of the six
  states, lies in exactly the containers of that state, and carries an attempt id exactly while it
  is active.
\<close>

section \<open>Tasks of a well-formed queue\<close>

lemma rank_member_drop [simp]: "drop 21 (rank_member n i) = i"
  by (simp add: rank_member_def format_020d_def)

lemma rank_member_inj [simp]: "rank_member n i = rank_member n' j \<Longrightarrow> i = j"
  by (metis rank_member_drop)

lemma q_field_None [simp]: "q_task Q i = None \<Longrightarrow> q_field Q i f = None"
  by (simp add: q_field_def)

lemma q_field_Some [simp]: "q_task Q i = Some h \<Longrightarrow> q_field Q i f = h f"
  by (simp add: q_field_def)

lemma q_fields_Some [simp]: "q_task Q i = Some h \<Longrightarrow> q_fields Q i = h"
  by (simp add: q_fields_def)

lemma in_state_task: "i \<in> in_state Q s \<Longrightarrow> \<exists>h. q_task Q i = Some h \<and> h ''state'' = Some (Txt s)"
  by (auto simp: in_state_def q_field_def split: option.splits)

lemma in_state_put_task [simp]:
  "in_state (put_task i h Q) s =
     (if h ''state'' = Some (Txt s) then insert i (in_state Q s) else in_state Q s - {i})"
  by (auto simp: in_state_def q_field_def put_task_def split: option.splits)

lemma in_state_upd [simp]:
  "in_state (Q\<lparr>q_pending := l\<rparr>) = in_state Q" "in_state (Q\<lparr>q_rank := z\<rparr>) = in_state Q"
  "in_state (Q\<lparr>q_scheduled := z\<rparr>) = in_state Q" "in_state (Q\<lparr>q_retry := z\<rparr>) = in_state Q"
  "in_state (Q\<lparr>q_active := l\<rparr>) = in_state Q" "in_state (Q\<lparr>q_lease := z\<rparr>) = in_state Q"
  "in_state (Q\<lparr>q_archived := z\<rparr>) = in_state Q" "in_state (Q\<lparr>q_seq := n\<rparr>) = in_state Q"
  by (simp_all add: in_state_def q_field_def fun_eq_iff)

lemma in_state_disjoint: "i \<in> in_state Q s \<Longrightarrow> i \<in> in_state Q t \<Longrightarrow> s = t"
  by (simp add: in_state_def)

lemma task_ok_seq_mono: "task_ok q i n h \<Longrightarrow> n \<le> n' \<Longrightarrow> task_ok q i n' h"
  by (fastforce simp: task_ok_def)

lemma task_ok_rank:
  assumes "task_ok q i n h"
  shows "h ''rank'' = Some (Num (rank_of h))" and "h ''rank_member'' = Some (Txt (member_of h))"
    and "drop 21 (member_of h) = i" and "\<exists>j. h ''msg'' = Some (Doc j) \<and> doc_ok q i j"
    and "\<exists>s \<in> set task_states. h ''state'' = Some (Txt s)"
  using assms by (auto simp: task_ok_def rank_of_def member_of_def)

lemma qinv_task: "qinv q Q \<Longrightarrow> q_task Q i = Some h \<Longrightarrow> task_ok q i (q_seq Q) h"
  by (simp add: qinv_def)

lemma qinv_containers:
  assumes "qinv q Q"
  shows "distinct (q_pending Q)" "set (q_pending Q) = in_state Q ''pending''"
    "distinct (q_active Q)" "set (q_active Q) = in_state Q ''active''"
    "zset_ok (q_rank Q)" "set (q_rank Q) = (\<lambda>i. rank_entry (q_fields Q i)) ` in_state Q ''pending''"
    "zset_ok (q_scheduled Q)" "set (zmembers (q_scheduled Q)) = in_state Q ''scheduled''"
    "zset_ok (q_retry Q)" "set (zmembers (q_retry Q)) = in_state Q ''retry''"
    "zset_ok (q_lease Q)" "set (zmembers (q_lease Q)) = in_state Q ''active''"
    "zset_ok (q_archived Q)" "set (zmembers (q_archived Q)) = in_state Q ''archived''"
    "0 \<le> q_seq Q" "q_seq Q < 2 ^ 63"
  using assms by (simp_all add: qinv_def)

text \<open>Ranking entries identify their task.\<close>

lemma rank_entry_task:
  "qinv q Q \<Longrightarrow> j \<in> in_state Q s \<Longrightarrow> snd (rank_entry (q_fields Q j)) = member_of (q_fields Q j)
     \<and> drop 21 (member_of (q_fields Q j)) = j"
  using in_state_task [of j Q s] qinv_task task_ok_rank(3) by (fastforce simp: rank_entry_def)

lemma in_state_set_source [simp]: "in_state (set_source src z Q) = in_state Q"
  by (cases src) simp_all

section \<open>The invariant, task by task\<close>

definition ranks_at :: "zset \<Rightarrow> string \<Rightarrow> (int \<times> string) set" where
  "ranks_at z i = {e \<in> set z. drop 21 (snd e) = i}"

definition placed :: "string \<Rightarrow> qstate \<Rightarrow> string \<Rightarrow> bool" where
  "placed q Q i \<longleftrightarrow>
     (\<forall>h. q_task Q i = Some h \<longrightarrow> task_ok q i (q_seq Q) h)
     \<and> (i \<in> set (q_pending Q) \<longleftrightarrow> q_field Q i ''state'' = Some (Txt ''pending''))
     \<and> (i \<in> set (q_active Q) \<longleftrightarrow> q_field Q i ''state'' = Some (Txt ''active''))
     \<and> (i \<in> set (zmembers (q_scheduled Q)) \<longleftrightarrow> q_field Q i ''state'' = Some (Txt ''scheduled''))
     \<and> (i \<in> set (zmembers (q_retry Q)) \<longleftrightarrow> q_field Q i ''state'' = Some (Txt ''retry''))
     \<and> (i \<in> set (zmembers (q_lease Q)) \<longleftrightarrow> q_field Q i ''state'' = Some (Txt ''active''))
     \<and> (i \<in> set (zmembers (q_archived Q)) \<longleftrightarrow> q_field Q i ''state'' = Some (Txt ''archived''))
     \<and> ranks_at (q_rank Q) i =
         (if q_field Q i ''state'' = Some (Txt ''pending'') then {rank_entry (q_fields Q i)} else {})"

definition containers_ok :: "qstate \<Rightarrow> bool" where
  "containers_ok Q \<longleftrightarrow> distinct (q_pending Q) \<and> distinct (q_active Q) \<and> zset_ok (q_rank Q)
     \<and> zset_ok (q_scheduled Q) \<and> zset_ok (q_retry Q) \<and> zset_ok (q_lease Q) \<and> zset_ok (q_archived Q)
     \<and> 0 \<le> q_seq Q \<and> q_seq Q < 2 ^ 63"

lemma ranks_at_eq:
  assumes "set (q_rank Q) = (\<lambda>i. rank_entry (q_fields Q i)) ` in_state Q ''pending''"
    and "\<And>j. j \<in> in_state Q ''pending'' \<Longrightarrow> drop 21 (member_of (q_fields Q j)) = j"
  shows "ranks_at (q_rank Q) i =
     (if q_field Q i ''state'' = Some (Txt ''pending'') then {rank_entry (q_fields Q i)} else {})"
  using assms(2) unfolding ranks_at_def assms(1)
  by (auto simp: rank_entry_def in_state_def)

lemma qinv_placed: "qinv q Q \<longleftrightarrow> containers_ok Q \<and> (\<forall>i. placed q Q i)"
proof
  assume I: "qinv q Q"
  have "placed q Q i" for i
  proof -
    have "ranks_at (q_rank Q) i =
       (if q_field Q i ''state'' = Some (Txt ''pending'') then {rank_entry (q_fields Q i)} else {})"
      using qinv_containers(6) [OF I] rank_entry_task [OF I] by (intro ranks_at_eq) auto
    moreover have "q_field Q i ''state'' = Some (Txt s) \<longleftrightarrow> i \<in> in_state Q s" for s
      by (simp add: in_state_def)
    ultimately show ?thesis
      using qinv_task [OF I] by (simp add: placed_def qinv_containers [OF I])
  qed
  with I show "containers_ok Q \<and> (\<forall>i. placed q Q i)" by (simp add: containers_ok_def qinv_def)
next
  assume A: "containers_ok Q \<and> (\<forall>i. placed q Q i)"
  then have P: "placed q Q i" for i by blast
  have "e \<in> set (q_rank Q) \<longleftrightarrow> (\<exists>i. q_field Q i ''state'' = Some (Txt ''pending'') \<and> e = rank_entry (q_fields Q i))" for e
  proof -
    have "e \<in> set (q_rank Q) \<longleftrightarrow> (\<exists>i. e \<in> ranks_at (q_rank Q) i)" by (auto simp: ranks_at_def)
    with P show ?thesis unfolding placed_def by auto
  qed
  then have "set (q_rank Q) = (\<lambda>i. rank_entry (q_fields Q i)) ` in_state Q ''pending''"
    by (auto simp: in_state_def)
  with A P show "qinv q Q" 
    by (auto simp: qinv_def containers_ok_def placed_def in_state_def)
qed


section \<open>Other tasks are not disturbed\<close>

lemma q_field_upd [simp]:
  "q_field (Q\<lparr>q_pending := l\<rparr>) = q_field Q" "q_field (Q\<lparr>q_rank := z\<rparr>) = q_field Q"
  "q_field (Q\<lparr>q_scheduled := z\<rparr>) = q_field Q" "q_field (Q\<lparr>q_retry := z\<rparr>) = q_field Q"
  "q_field (Q\<lparr>q_active := l\<rparr>) = q_field Q" "q_field (Q\<lparr>q_lease := z\<rparr>) = q_field Q"
  "q_field (Q\<lparr>q_archived := z\<rparr>) = q_field Q" "q_field (Q\<lparr>q_seq := n\<rparr>) = q_field Q"
  by (simp_all add: q_field_def fun_eq_iff)

lemma q_field_put_task [simp]:
  "q_field (put_task i h Q) j f = (if j = i then h f else q_field Q j f)"
  by (simp add: q_field_def)

lemma ranks_at_zadd [simp]:
  "ranks_at (zadd s m z) j =
     (if drop 21 m = j then insert (s, m) {e \<in> ranks_at z j. snd e \<noteq> m} else ranks_at z j)"
  by (auto simp: ranks_at_def set_zadd)

lemma ranks_at_zrem [simp]:
  "ranks_at (zrem m z) j = (if drop 21 m = j then {e \<in> ranks_at z j. snd e \<noteq> m} else ranks_at z j)"
  by (auto simp: ranks_at_def set_zrem)

lemma placed_release [simp]: "j \<noteq> i \<Longrightarrow> placed q (q_release i h Q) j = placed q Q j"
  by (simp add: placed_def q_release_def)

lemma placed_make_pending [simp]:
  "j \<noteq> i \<Longrightarrow> drop 21 (member_of h) = i \<Longrightarrow> placed q (make_pending i h Q) j = placed q Q j"
  by (simp add: placed_def make_pending_def)

lemma placed_zadd [simp]:
  "j \<noteq> i \<Longrightarrow> placed q (Q\<lparr>q_scheduled := zadd s i z\<rparr>) j = placed q (Q\<lparr>q_scheduled := z\<rparr>) j"
  "j \<noteq> i \<Longrightarrow> placed q (Q\<lparr>q_retry := zadd s i z\<rparr>) j = placed q (Q\<lparr>q_retry := z\<rparr>) j"
  "j \<noteq> i \<Longrightarrow> placed q (Q\<lparr>q_archived := zadd s i z\<rparr>) j = placed q (Q\<lparr>q_archived := z\<rparr>) j"
  "j \<noteq> i \<Longrightarrow> placed q (Q\<lparr>q_lease := zadd s i z\<rparr>) j = placed q (Q\<lparr>q_lease := z\<rparr>) j"
  by (simp_all add: placed_def)

lemma placed_zrem [simp]:
  "j \<noteq> i \<Longrightarrow> placed q (Q\<lparr>q_scheduled := zrem i z\<rparr>) j = placed q (Q\<lparr>q_scheduled := z\<rparr>) j"
  "j \<noteq> i \<Longrightarrow> placed q (Q\<lparr>q_retry := zrem i z\<rparr>) j = placed q (Q\<lparr>q_retry := z\<rparr>) j"
  "j \<noteq> i \<Longrightarrow> placed q (Q\<lparr>q_archived := zrem i z\<rparr>) j = placed q (Q\<lparr>q_archived := z\<rparr>) j"
  "j \<noteq> i \<Longrightarrow> placed q (Q\<lparr>q_lease := zrem i z\<rparr>) j = placed q (Q\<lparr>q_lease := z\<rparr>) j"
  by (simp_all add: placed_def)

section \<open>Preservation\<close>

text \<open>An operation on one task keeps the invariant if it places that task and leaves the others.\<close>

lemma qinv_single:
  assumes "qinv q Q" and "containers_ok Q'" and "\<And>j. j \<noteq> i \<Longrightarrow> placed q Q j \<Longrightarrow> placed q Q' j"
    and "placed q Q i \<Longrightarrow> placed q Q' i"
  shows "qinv q Q'"
  using assms by (metis qinv_placed)

lemma qinv_placedD: "qinv q Q \<Longrightarrow> containers_ok Q \<and> placed q Q i"
  by (simp add: qinv_placed)

lemma task_okI:
  assumes "task_ok q i n h" and "h' ''rank'' = h ''rank''" and "h' ''rank_member'' = h ''rank_member''"
    and "h' ''msg'' = Some (Doc j)" and "doc_ok q i j" and "h' ''state'' = Some (Txt s)"
    and "s \<in> set task_states" and "s \<noteq> ''active''" and "h' ''attempt_id'' = None"
  shows "task_ok q i n h'"
  using assms by (simp add: task_ok_def)

lemma task_ok_pending:
  assumes "task_ok q i n h" and "h ''attempt_id'' = None"
  shows "task_ok q i n (h(''state'' \<mapsto> Txt ''pending''))"
  using assms by (simp add: task_ok_def task_states_def)

lemma task_ok_msg: "task_ok q i n h \<Longrightarrow> doc_ok q i j \<Longrightarrow> task_ok q i n (h(''msg'' \<mapsto> Doc j))"
  by (simp add: task_ok_def)

lemma rank_of_upd [simp]:
  "f \<noteq> ''rank'' \<Longrightarrow> rank_of (h(f := v)) = rank_of h"
  "f \<noteq> ''rank_member'' \<Longrightarrow> member_of (h(f := v)) = member_of h"
  by (simp_all add: rank_of_def member_of_def)

lemma rank_entry_upd [simp]:
  "f \<noteq> ''rank'' \<Longrightarrow> f \<noteq> ''rank_member'' \<Longrightarrow> rank_entry (h(f := v)) = rank_entry h"
  by (simp add: rank_entry_def)

lemma q_owned_task:
  "q_owned Q i a \<Longrightarrow> \<exists>h. q_task Q i = Some h \<and> h ''state'' = Some (Txt ''active'')"
  by (auto simp: q_owned_def q_field_def split: option.splits)

lemma q_archived_taskD:
  "q_archived_task Q i \<Longrightarrow> \<exists>h. q_task Q i = Some h \<and> h ''state'' = Some (Txt ''archived'')"
  by (auto simp: q_archived_task_def q_field_def split: option.splits)

lemma containers_ok_upd [simp]:
  "containers_ok Q \<Longrightarrow> containers_ok (put_task i h Q)"
  "containers_ok Q \<Longrightarrow> containers_ok (q_release i h Q)"
  "containers_ok Q \<Longrightarrow> i \<notin> set (q_pending Q) \<Longrightarrow> containers_ok (make_pending i h Q)"
  "containers_ok Q \<Longrightarrow> zset_ok z \<Longrightarrow> containers_ok (Q\<lparr>q_scheduled := z\<rparr>)"
  "containers_ok Q \<Longrightarrow> zset_ok z \<Longrightarrow> containers_ok (Q\<lparr>q_retry := z\<rparr>)"
  "containers_ok Q \<Longrightarrow> zset_ok z \<Longrightarrow> containers_ok (Q\<lparr>q_archived := z\<rparr>)"
  "containers_ok Q \<Longrightarrow> zset_ok z \<Longrightarrow> containers_ok (Q\<lparr>q_lease := z\<rparr>)"
  "containers_ok Q \<Longrightarrow> zset_ok z \<Longrightarrow> containers_ok (set_source src z Q)"
  by (cases src; simp add: containers_ok_def q_release_def make_pending_def)+

lemma q_release_sel [simp]:
  "q_pending (q_release i h Q) = q_pending Q" "q_rank (q_release i h Q) = q_rank Q"
  "q_scheduled (q_release i h Q) = q_scheduled Q" "q_retry (q_release i h Q) = q_retry Q"
  "q_archived (q_release i h Q) = q_archived Q" "q_seq (q_release i h Q) = q_seq Q"
  "q_task (q_release i h Q) = (q_task Q)(i \<mapsto> h(''attempt_id'' := None))"
  by (simp_all add: q_release_def)

lemma q_release_same [simp]:
  "(q_release i h Q)\<lparr>q_retry := q_retry Q\<rparr> = q_release i h Q"
  "(q_release i h Q)\<lparr>q_archived := q_archived Q\<rparr> = q_release i h Q"
  by (simp_all add: q_release_def put_task_def)

lemma qinv_empty: "qinv q empty_queue"
  by (simp add: qinv_def empty_queue_def in_state_def q_field_def)

text \<open>Ending an attempt in one of the three final states.\<close>

definition finish_in :: "string \<Rightarrow> int \<Rightarrow> string \<Rightarrow> qstate \<Rightarrow> qstate" where
  "finish_in s at i Q =
     (if s = ''retry'' then Q\<lparr>q_retry := zadd at i (q_retry Q)\<rparr>
      else if s = ''archived'' then Q\<lparr>q_archived := zadd at i (q_archived Q)\<rparr> else Q)"

lemma qinv_finish:
  assumes I: "qinv q Q" and own: "q_owned Q i attempt" and d: "doc_ok q i msg"
    and s: "s \<in> {''completed'', ''retry'', ''archived''}"
    and h': "h' ''rank'' = q_field Q i ''rank''" "h' ''rank_member'' = q_field Q i ''rank_member''"
      "h' ''msg'' = Some (Doc msg)" "h' ''state'' = Some (Txt s)"
  shows "qinv q (finish_in s at i (q_release i h' Q))"
proof -
  obtain h where h: "q_task Q i = Some h" "h ''state'' = Some (Txt ''active'')"
    using own q_owned_task by blast
  from s have s': "s \<in> set task_states" "s \<noteq> ''active''" "s \<noteq> ''pending''" "s \<noteq> ''scheduled''"
    by (auto simp: task_states_def)
  have "task_ok q i (q_seq Q) (h'(''attempt_id'' := None))"
    by (rule task_okI [OF qinv_task [OF I h(1)] _ _ _ d _ s'(1,2)]) (simp_all add: h' h(1))
  then have "placed q (finish_in s at i (q_release i h' Q)) i"
    using s s' h h'(4) qinv_placedD [OF I, of i]
    by (elim insertE emptyE) (simp_all add: finish_in_def placed_def q_release_def containers_ok_def)
  moreover have "placed q (finish_in s at i (q_release i h' Q)) j" if "j \<noteq> i" for j
    using that qinv_placedD [OF I, of j] by (simp add: finish_in_def)
  moreover have "containers_ok (finish_in s at i (q_release i h' Q))"
    using qinv_placedD [OF I, of i] by (simp add: finish_in_def containers_ok_def q_release_def)
  ultimately show ?thesis by (metis qinv_placed)
qed

lemma q_ack_qinv:
  "qinv q Q \<Longrightarrow> doc_ok q i msg \<Longrightarrow> qinv q (snd (q_ack i msg at attempt Q))"
  using qinv_finish [of q Q i attempt msg "''completed''"
      "(q_fields Q i)(''msg'' \<mapsto> Doc msg, ''state'' \<mapsto> Txt ''completed'', ''completed_at'' \<mapsto> Num at)"]
  by (simp add: q_ack_def finish_in_def q_field_fields)

lemma q_schedule_retry_qinv:
  "qinv q Q \<Longrightarrow> doc_ok q i msg \<Longrightarrow> qinv q (snd (q_schedule_retry i msg at reason attempt Q))"
  using qinv_finish [of q Q i attempt msg "''retry''"
      "(q_fields Q i)(''msg'' \<mapsto> Doc msg, ''state'' \<mapsto> Txt ''retry'', ''retry_at'' \<mapsto> Num at,
         ''last_error'' \<mapsto> Txt reason)" "f64_of_int at"]
  by (simp add: q_schedule_retry_def finish_in_def q_field_fields)

lemma q_archive_qinv:
  "qinv q Q \<Longrightarrow> doc_ok q i msg \<Longrightarrow> qinv q (snd (q_archive i msg reason at attempt Q))"
  using qinv_finish [of q Q i attempt msg "''archived''"
      "(q_fields Q i)(''msg'' \<mapsto> Doc msg, ''state'' \<mapsto> Txt ''archived'', ''last_error'' \<mapsto> Txt reason)"
      "f64_of_int at"]
  by (simp add: q_archive_def finish_in_def q_field_fields)

text \<open>Making a task pending that has left every container.\<close>

definition unplaced :: "qstate \<Rightarrow> string \<Rightarrow> bool" where
  "unplaced Q i \<longleftrightarrow> i \<notin> set (q_pending Q) \<and> i \<notin> set (q_active Q) \<and> i \<notin> set (zmembers (q_scheduled Q))
     \<and> i \<notin> set (zmembers (q_retry Q)) \<and> i \<notin> set (zmembers (q_lease Q))
     \<and> i \<notin> set (zmembers (q_archived Q)) \<and> ranks_at (q_rank Q) i = {}"

lemma qinv_make_pending:
  assumes C: "containers_ok Q" and others: "\<And>j. j \<noteq> i \<Longrightarrow> placed q Q j" and "unplaced Q i"
    and ok: "task_ok q i (q_seq Q) h'" "h' = h(''state'' \<mapsto> Txt ''pending'')"
  shows "qinv q (make_pending i h Q)"
proof -
  have m: "drop 21 (member_of h) = i" using task_ok_rank(3) [OF ok(1)] ok(2) by simp
  have "placed q (make_pending i h Q) i"
    using assms m by (simp add: placed_def make_pending_def unplaced_def rank_entry_def)
  moreover have "placed q (make_pending i h Q) j" if "j \<noteq> i" for j
    using that others m by simp
  moreover have "containers_ok (make_pending i h Q)" using C assms(3) by (simp add: unplaced_def)
  ultimately show ?thesis by (metis qinv_placed)
qed

lemma q_requeue_qinv:
  assumes I: "qinv q Q"
  shows "qinv q (snd (q_requeue i attempt Q))"
proof (cases "q_owned Q i attempt")
  case True
  then obtain h where h: "q_task Q i = Some h" "h ''state'' = Some (Txt ''active'')"
    using q_owned_task by blast
  have ok: "task_ok q i (q_seq Q) h" by (rule qinv_task [OF I h(1)])
  then obtain j where "h ''msg'' = Some (Doc j)" "doc_ok q i j" using task_ok_rank(4) by blast
  then have "task_ok q i (q_seq Q) (h(''attempt_id'' := None, ''state'' \<mapsto> Txt ''pending''))"
    by (intro task_okI [OF ok, where s = "''pending''"]) (simp_all add: task_states_def)
  then have "qinv q (make_pending i (h(''attempt_id'' := None)) (q_release i h Q))"
    using qinv_placedD [OF I] h
    by (intro qinv_make_pending)
       (simp_all add: unplaced_def placed_def q_release_def containers_ok_def)
  with True h(1) show ?thesis by (simp add: q_requeue_def)
qed (simp add: q_requeue_def I)

lemma q_move_one_qinv:
  assumes I: "qinv q Q" and i: "i \<in> in_state Q (source_state src)"
  shows "qinv q (q_move_one src i Q)"
proof -
  obtain h where h: "q_task Q i = Some h" "h ''state'' = Some (Txt (source_state src))"
    using in_state_task [OF i] by blast
  have ok: "task_ok q i (q_seq Q) h" by (rule qinv_task [OF I h(1)])
  have "h ''attempt_id'' = None" using ok h(2) by (cases src) (simp_all add: task_ok_def)
  then have "task_ok q i (q_seq Q) (h(''state'' \<mapsto> Txt ''pending''))"
    using ok by (simp add: task_ok_pending)
  then have "qinv q (make_pending i h (set_source src (zrem i (source_zset src Q)) Q))"
    using qinv_placedD [OF I] h
    by (cases src; intro qinv_make_pending) (simp_all add: unplaced_def placed_def containers_ok_def)
  with h(1) show ?thesis by (simp add: q_move_one_def)
qed

lemma q_replay_qinv:
  assumes I: "qinv q Q" and d: "doc_ok q i msg"
  shows "qinv q (snd (q_replay i msg Q))"
proof (cases "q_archived_task Q i")
  case True
  then obtain h where h: "q_task Q i = Some h" "h ''state'' = Some (Txt ''archived'')"
    using q_archived_taskD by blast
  have ok: "task_ok q i (q_seq Q) h" by (rule qinv_task [OF I h(1)])
  have "task_ok q i (q_seq Q) (h(''msg'' \<mapsto> Doc msg, ''state'' \<mapsto> Txt ''pending''))"
    using ok h(2) d by (intro task_okI [OF ok, where s = "''pending''"]) (simp_all add: task_ok_def task_states_def)
  then have "qinv q (make_pending i (h(''msg'' \<mapsto> Doc msg)) (Q\<lparr>q_archived := zrem i (q_archived Q)\<rparr>))"
    using qinv_placedD [OF I] h
    by (intro qinv_make_pending) (simp_all add: unplaced_def placed_def containers_ok_def)
  with True h(1) show ?thesis by (simp add: q_replay_def)
qed (simp add: q_replay_def I)


lemma new_task_ok:
  assumes "doc_ok q i msg" and "0 < n" and "st \<in> {''pending'', ''scheduled''}"
  shows "task_ok q i n (new_task msg st prio rank (rank_member n i))"
  using assms(3) by (elim insertE emptyE) (use assms(1,2) in \<open>auto simp: task_ok_def new_task_def task_states_def\<close>)

lemma placed_absent:
  "q_task Q i = None \<Longrightarrow> placed q Q i \<longleftrightarrow> unplaced Q i"
  by (auto simp: placed_def unplaced_def)

lemma placed_seq: "placed q Q j \<Longrightarrow> n \<ge> q_seq Q \<Longrightarrow> placed q (Q\<lparr>q_seq := n\<rparr>) j"
  using task_ok_seq_mono [of q j "q_seq Q" _ n] by (simp add: placed_def)

lemma q_enqueue_qinv:
  assumes I: "qinv q Q" and d: "doc_ok q i msg"
  shows "qinv q (snd (q_enqueue msg i prio rank Q))"
proof (cases "q_task Q i = None \<and> q_seq Q + 1 < 2 ^ 63")
  case True
  let ?n = "q_seq Q + 1" let ?h = "new_task msg ''pending'' prio rank (rank_member ?n i)"
  let ?Q = "Q\<lparr>q_seq := ?n\<rparr>"
  have C: "containers_ok Q" and P: "placed q Q j" for j using qinv_placedD [OF I] by auto
  have "task_ok q i ?n ?h" using d C by (intro new_task_ok) (simp_all add: containers_ok_def)
  moreover have "?h(''state'' \<mapsto> Txt ''pending'') = ?h" by (auto simp: new_task_def fun_eq_iff)
  ultimately have "qinv q (make_pending i ?h ?Q)"
    using C P [of i] True placed_seq [OF P]
    by (intro qinv_make_pending) (simp_all add: containers_ok_def placed_absent unplaced_def)
  moreover have "make_pending i ?h ?Q = snd (q_enqueue msg i prio rank Q)"
    using True by (simp add: make_pending_def q_enqueue_def Let_def new_task_def rank_of_def
        member_of_def put_task_def fun_upd_twist)
  ultimately show ?thesis by simp
qed (auto simp: q_enqueue_def I)

lemma q_schedule_qinv:
  assumes I: "qinv q Q" and d: "doc_ok q i msg"
  shows "qinv q (snd (q_schedule msg i prio rank at Q))"
proof (cases "q_task Q i = None \<and> q_seq Q + 1 < 2 ^ 63")
  case True
  let ?n = "q_seq Q + 1" let ?h = "new_task msg ''scheduled'' prio rank (rank_member ?n i)"
  let ?Q = "(put_task i ?h Q)\<lparr>q_seq := ?n, q_scheduled := zadd (f64_of_int at) i (q_scheduled Q)\<rparr>"
  have C: "containers_ok Q" and P: "placed q Q j" for j using qinv_placedD [OF I] by auto
  have ok: "task_ok q i ?n ?h" using d C by (intro new_task_ok) (simp_all add: containers_ok_def)
  have "?h ''state'' = Some (Txt ''scheduled'')" by (simp add: new_task_def)
  with ok P [of i] True have "placed q ?Q i" by (simp add: placed_def)
  moreover have "placed q ?Q j" if "j \<noteq> i" for j
    using that placed_seq [OF P, of ?n j] by (simp add: placed_def)
  moreover have "containers_ok ?Q" using C True by (simp add: containers_ok_def)
  ultimately have "qinv q ?Q" by (metis qinv_placed)
  with True show ?thesis by (simp add: q_schedule_def)
qed (auto simp: q_schedule_def I)

text \<open>The head of the ranking is a pending task.\<close>

lemma rank_head:
  assumes I: "qinv q Q" and r: "q_rank Q = (s, rm) # zs"
  shows "drop 21 rm \<in> in_state Q ''pending''" and "rank_entry (q_fields Q (drop 21 rm)) = (s, rm)"
    and "member_of (q_fields Q (drop 21 rm)) = rm"
proof -
  have "(s, rm) \<in> set (q_rank Q)" using r by simp
  then obtain i where i: "i \<in> in_state Q ''pending''" "(s, rm) = rank_entry (q_fields Q i)"
    unfolding qinv_containers(6) [OF I] by blast
  with rank_entry_task [OF I i(1)] have "drop 21 rm = i" by (simp add: rank_entry_def)
  with i show "drop 21 rm \<in> in_state Q ''pending''" "rank_entry (q_fields Q (drop 21 rm)) = (s, rm)"
    "member_of (q_fields Q (drop 21 rm)) = rm" by (simp_all add: rank_entry_def)
qed

lemma q_claim_qinv:
  assumes I: "qinv q Q" and a: "attempt \<noteq> []"
  shows "qinv q (snd (q_claim now expires attempt Q))"
proof (cases "q_rank Q")
  case (Cons e zs)
  obtain s rm where e: "e = (s, rm)" by fastforce
  define i where "i = drop 21 rm"
  from rank_head [OF I, of s rm zs] Cons e have i: "i \<in> in_state Q ''pending''"
    and re: "rank_entry (q_fields Q i) = (s, rm)" by (simp_all add: i_def)
  then obtain h where h: "q_task Q i = Some h" "h ''state'' = Some (Txt ''pending'')"
    using in_state_task by blast
  let ?h = "h(''state'' \<mapsto> Txt ''active'', ''active_since'' \<mapsto> Num now, ''attempt_id'' \<mapsto> Txt attempt)"
  let ?Q = "(put_task i ?h Q)\<lparr>q_rank := zrem rm (q_rank Q), q_pending := remove1 i (q_pending Q),
     q_active := q_active Q @ [i], q_lease := zadd (f64_of_int expires) i (q_lease Q)\<rparr>"
  have C: "containers_ok Q" and P: "placed q Q j" for j using qinv_placedD [OF I] by auto
  have "task_ok q i (q_seq Q) ?h"
    using qinv_task [OF I h(1)] a by (simp add: task_ok_def task_states_def)
  with P [of i] C h re i_def have "placed q ?Q i"
    by (simp add: placed_def containers_ok_def)
  moreover have "placed q ?Q j" if "j \<noteq> i" for j
    using that P [of j] i_def by (simp add: placed_def)
  moreover have "containers_ok ?Q" using C P [of i] h by (simp add: containers_ok_def placed_def)
  ultimately have "qinv q ?Q" by (metis qinv_placed)
  with Cons e h i_def show ?thesis by (simp add: q_claim_def Let_def)
qed (simp add: q_claim_def I)

lemma q_drop_archived_qinv:
  assumes I: "qinv q Q" and i: "i \<in> in_state Q ''archived''"
  shows "qinv q (q_drop_archived i Q)"
proof -
  have C: "containers_ok Q" and P: "placed q Q j" for j using qinv_placedD [OF I] by auto
  have i': "q_field Q i ''state'' = Some (Txt ''archived'')" using i by (simp add: in_state_def)
  have "q_field (q_drop_archived i Q) j f = (if j = i then None else q_field Q j f)" for j f
    by (simp add: q_drop_archived_def q_field_def)
  moreover have "q_fields (q_drop_archived i Q) j = q_fields Q j" if "j \<noteq> i" for j
    using that by (simp add: q_drop_archived_def q_fields_def)
  ultimately have "placed q (q_drop_archived i Q) j" if "j \<noteq> i" for j
    using P [of j] that by (simp add: placed_def) (simp add: q_drop_archived_def)
  moreover have "placed q (q_drop_archived i Q) i"
    using P [of i] i' by (simp add: placed_absent q_drop_archived_def placed_def unplaced_def)
  moreover have "containers_ok (q_drop_archived i Q)" using C by (simp add: containers_ok_def q_drop_archived_def)
  ultimately show ?thesis by (metis qinv_placed)
qed

lemma q_delete_archived_qinv: "qinv q Q \<Longrightarrow> qinv q (snd (q_delete_archived i Q))"
  by (simp add: q_delete_archived_def q_drop_archived_qinv in_state_def q_archived_task_def)

lemma q_extend_one_qinv:
  assumes I: "qinv q Q"
  shows "qinv q (q_extend_one expires p Q)"
proof -
  have C: "containers_ok Q" and P: "placed q Q j" for j using qinv_placedD [OF I] by auto
  have "placed q (q_extend_one expires p Q) j" for j
    using P [of j] by (cases "j = fst p") (simp_all add: placed_def q_extend_one_def q_owned_def)
  moreover have "containers_ok (q_extend_one expires p Q)"
    using C by (simp add: containers_ok_def q_extend_one_def)
  ultimately show ?thesis by (metis qinv_placed)
qed

lemma q_extend_qinv: "qinv q Q \<Longrightarrow> qinv q (q_extend expires ps Q)"
  unfolding q_extend_def by (induction ps arbitrary: Q) (simp_all add: q_extend_one_qinv)

end
