(* ===== verification/QueueRefinement.thy ===== *)
theory QueueRefinement
  imports QueueInvariant
begin

text \<open>
  The refinement between the Lua scripts and the abstract queue: on a keyspace whose queue is typed
  (and, where a script relies on stored ranks, well-formed), each script returns and leaves what
  its abstract operation says, and every key outside the queue keeps its value.
\<close>

text \<open>Running a script yields a result and a queue, and stays inside the queue.\<close>

definition executes :: "string \<Rightarrow> 'a script \<Rightarrow> keyspace \<Rightarrow> (gerr + 'a) \<Rightarrow> qstate \<Rightarrow> bool" where
  "executes q s ks r Q' \<longleftrightarrow>
     (\<exists>ks'. run redis_doc s ks = (r, ks') \<and> queue_typed q ks' \<and> queue_view q ks' = Q'
            \<and> same_outside q ks ks')"

definition hset_task :: "string \<Rightarrow> string \<Rightarrow> (string \<times> bulk) list \<Rightarrow> keyspace \<Rightarrow> keyspace" where
  "hset_task q i fs ks =
     put_hash ks (TaskKey q i) (hset_fields fs (the (as_hash ks (TaskKey q i))))"

definition hdel_task :: "string \<Rightarrow> string \<Rightarrow> string \<Rightarrow> keyspace \<Rightarrow> keyspace" where
  "hdel_task q i f ks = put_hash ks (TaskKey q i) (AList.delete f (the (as_hash ks (TaskKey q i))))"

text \<open>The argument arrays of \<open>ExtendLease\<close>, from the ids and attempt ids of its tasks.\<close>

definition extend_keys :: "string \<Rightarrow> (string \<times> string) list \<Rightarrow> string list" where
  "extend_keys q ps = LeaseKey q # map (\<lambda>p. TaskKey q (fst p)) ps"

definition extend_args :: "int \<Rightarrow> (string \<times> string) list \<Rightarrow> bulk list" where
  "extend_args expires ps = Num expires # concat (map (\<lambda>p. [Txt (fst p), Txt (snd p)]) ps)"


section \<open>One command at a time\<close>

lemma executesI:
  "run redis_doc s ks = (r, ks') \<Longrightarrow> queue_typed q ks' \<Longrightarrow> queue_view q ks' = Q' \<Longrightarrow>
   same_outside q ks ks' \<Longrightarrow> executes q s ks r Q'"
  by (auto simp: executes_def)

lemma executes_Ret [intro]: "queue_typed q ks \<Longrightarrow> executes q (Ret x) ks (Inr x) (queue_view q ks)"
  by (simp add: executes_def)

lemma executes_run_cong:
  "run redis_doc s ks = run redis_doc s' ks' \<Longrightarrow> same_outside q ks ks' \<Longrightarrow>
   executes q s' ks' r Q' \<Longrightarrow> executes q s ks r Q'"
  by (auto simp: executes_def intro: same_outside_trans)

lemma run_hget_task [cmd_simps]:
  "queue_typed q ks \<Longrightarrow> run redis_doc (call_bulk (HGET (TaskKey q i) f) s) ks =
     run redis_doc (s (q_field (queue_view q ks) i f)) ks"
  using queue_typed_as_hash [of q ks i] by (auto simp: run_call_hget q_field_fields)

lemma run_hset_task [cmd_simps]:
  "queue_typed q ks \<Longrightarrow> run redis_doc (call_do (HSET (TaskKey q i) fs) s) ks =
     run redis_doc s (hset_task q i fs ks)"
  using queue_typed_as_hash [of q ks i] by (auto simp: run_call_do hset_task_def)

lemma run_hdel_task [cmd_simps]:
  "queue_typed q ks \<Longrightarrow> run redis_doc (call_do (HDEL (TaskKey q i) f) s) ks =
     run redis_doc s (hdel_task q i f ks)"
  using queue_typed_as_hash [of q ks i] by (auto simp: run_call_do hdel_task_def)

lemma run_exists_task [cmd_simps]:
  "queue_typed q ks \<Longrightarrow> run redis_doc (call_int (EXISTS (TaskKey q i)) s) ks =
     run redis_doc (s (if q_task (queue_view q ks) i = None then 0 else 1)) ks"
  by (simp add: run_call_int queue_view_task_None)

lemma run_del_task [cmd_simps]:
  "run redis_doc (call_do (DEL (TaskKey q i)) s) ks = run redis_doc s (ks(TaskKey q i := None))"
  by (simp add: run_call_do)

lemma run_incr [cmd_simps]:
  "queue_typed q ks \<Longrightarrow> run redis_doc (call_int (INCR (SequenceKey q)) s) ks =
     (let n = q_seq (queue_view q ks) + 1 in
      if n < 2 ^ 63 then run redis_doc (s n) (ks(SequenceKey q \<mapsto> VInt n))
      else (Inl overflow_error, ks))"
  by (simp add: call_int_def queue_typed_containers overflow_error_def Let_def)

lemma run_list_cmds [cmd_simps]:
  assumes "queue_typed q ks"
  shows "run redis_doc (call_do (LPUSH (PendingKey q) x) s) ks =
      run redis_doc s (put_list ks (PendingKey q) (x # q_pending (queue_view q ks)))"
    and "run redis_doc (call_do (LREM (PendingKey q) 1 x) s) ks =
      run redis_doc s (put_list ks (PendingKey q) (remove1 x (q_pending (queue_view q ks))))"
    and "run redis_doc (call_do (RPUSH (ActiveKey q) x) s) ks =
      run redis_doc s (put_list ks (ActiveKey q) (q_active (queue_view q ks) @ [x]))"
    and "run redis_doc (call_do (LREM (ActiveKey q) 1 x) s) ks =
      run redis_doc s (put_list ks (ActiveKey q) (remove1 x (q_active (queue_view q ks))))"
  by (simp_all add: run_call_do queue_typed_containers [OF assms])

lemma run_zadd [cmd_simps]:
  assumes "queue_typed q ks"
  shows "run redis_doc (call_do (ZADD (PendingRankKey q) (Num r) m) s) ks =
      run redis_doc s (put_zset ks (PendingRankKey q) (zadd (f64_of_int r) m (q_rank (queue_view q ks))))"
    and "run redis_doc (call_do (ZADD (source_key src q) (Num r) m) s) ks =
      run redis_doc s (put_zset ks (source_key src q)
        (zadd (f64_of_int r) m (source_zset src (queue_view q ks))))"
    and "run redis_doc (call_do (ZADD (LeaseKey q) (Num r) m) s) ks =
      run redis_doc s (put_zset ks (LeaseKey q) (zadd (f64_of_int r) m (q_lease (queue_view q ks))))"
    and "run redis_doc (call_do (ZADD (ArchivedKey q) (Num r) m) s) ks =
      run redis_doc s (put_zset ks (ArchivedKey q) (zadd (f64_of_int r) m (q_archived (queue_view q ks))))"
  by (simp_all add: run_call_do queue_typed_containers [OF assms])

lemmas run_zadd_source [cmd_simps] =
  run_zadd(2) [where src = Scheduled, simplified] run_zadd(2) [where src = Retry, simplified]

lemma run_zrem [cmd_simps]:
  assumes "queue_typed q ks"
  shows "run redis_doc (call_int (ZREM (PendingRankKey q) m) k) ks =
      run redis_doc (k (if m \<in> set (zmembers (q_rank (queue_view q ks))) then 1 else 0))
        (put_zset ks (PendingRankKey q) (zrem m (q_rank (queue_view q ks))))"
    and "run redis_doc (call_int (ZREM (source_key src q) m) k) ks =
      run redis_doc (k (if m \<in> set (zmembers (source_zset src (queue_view q ks))) then 1 else 0))
        (put_zset ks (source_key src q) (zrem m (source_zset src (queue_view q ks))))"
    and "run redis_doc (call_int (ZREM (ArchivedKey q) m) k) ks =
      run redis_doc (k (if m \<in> set (zmembers (q_archived (queue_view q ks))) then 1 else 0))
        (put_zset ks (ArchivedKey q) (zrem m (q_archived (queue_view q ks))))"
    and "run redis_doc (call_do (ZREM (LeaseKey q) m) s) ks =
      run redis_doc s (put_zset ks (LeaseKey q) (zrem m (q_lease (queue_view q ks))))"
  by (simp_all add: run_call_int run_call_do queue_typed_containers [OF assms])

lemma run_zrange [cmd_simps]:
  assumes "queue_typed q ks"
  shows "run redis_doc (call_strs (ZRANGE (PendingRankKey q) 0 0) k) ks =
      run redis_doc (k (take 1 (zmembers (q_rank (queue_view q ks))))) ks"
    and "run redis_doc (call_strs (ZRANGEBYSCORE (source_key src q) (Num t) None) k) ks =
      run redis_doc (k (due t (source_zset src (queue_view q ks)))) ks"
    and "run redis_doc (call_strs (ZRANGEBYSCORE (ArchivedKey q) (Num t) None) k) ks =
      run redis_doc (k (due t (q_archived (queue_view q ks)))) ks"
  by (simp_all add: run_call_strs queue_typed_containers [OF assms] zslice_first due_def)

lemma view_hset_task [simp]:
  "queue_typed q ks \<Longrightarrow> fs \<noteq> [] \<Longrightarrow>
   queue_view q (hset_task q i fs ks) =
     put_task i (q_fields (queue_view q ks) i ++ map_of (rev fs)) (queue_view q ks)"
  using queue_typed_as_hash [of q ks i] by (auto simp: hset_task_def put_task_def)

lemma view_hdel_task [simp]:
  assumes "queue_typed q ks" and "f \<noteq> ''state''" and "q_field (queue_view q ks) i ''state'' \<noteq> None"
  shows "queue_view q (hdel_task q i f ks) =
     put_task i ((q_fields (queue_view q ks) i)(f := None)) (queue_view q ks)"
proof -
  obtain h where h: "as_hash ks (TaskKey q i) = Some h" "map_of h = q_fields (queue_view q ks) i"
    using queue_typed_as_hash [OF assms(1), of i] by auto
  with assms(2,3) have "map_of (AList.delete f h) ''state'' \<noteq> None"
    by (simp add: delete_conv' q_field_fields)
  then have "AList.delete f h \<noteq> []" by auto
  with h show ?thesis by (simp add: hdel_task_def put_task_def delete_conv')
qed

lemma typed_task_cmds [simp]:
  "queue_typed q ks \<Longrightarrow> queue_typed q (hset_task q i fs ks)"
  "queue_typed q ks \<Longrightarrow> queue_typed q (hdel_task q i f ks)"
  by (simp_all add: hset_task_def hdel_task_def)

lemma same_outside_task_cmds [simp]:
  "same_outside q ks (hset_task q i fs ks') = same_outside q ks ks'"
  "same_outside q ks (hdel_task q i f ks') = same_outside q ks ks'"
  by (simp_all add: hset_task_def hdel_task_def)


section \<open>The scripts\<close>

lemma enqueueScript_refines:
  assumes "queue_typed q ks" and "Q = queue_view q ks"
  shows "executes q (enqueueScript (TaskKey q i) (PendingKey q) (PendingRankKey q) (SequenceKey q)
       (Doc msg) i (Num prio) (Num rank)) ks
     (fst (q_enqueue msg i prio rank Q)) (snd (q_enqueue msg i prio rank Q))"
  unfolding assms(2) enqueueScript_def q_enqueue_def
  by (simp add: executes_def cmd_simps assms(1) Let_def new_task_def q_fields_def)

lemma scheduleScript_refines:
  assumes "queue_typed q ks" and "Q = queue_view q ks"
  shows "executes q (scheduleScript (TaskKey q i) (ScheduledKey q) (SequenceKey q)
       (Doc msg) i (Num prio) (Num rank) (Num at)) ks
     (fst (q_schedule msg i prio rank at Q)) (snd (q_schedule msg i prio rank at Q))"
  unfolding assms(2) scheduleScript_def q_schedule_def
  by (simp add: executes_def cmd_simps assms(1) Let_def new_task_def q_fields_def)

lemma owned_by_run [cmd_simps]:
  "queue_typed q ks \<Longrightarrow> run redis_doc (owned_by (TaskKey q i) (Txt attempt) s) ks =
     (if q_owned (queue_view q ks) i attempt then run redis_doc s ks else (Inr 0, ks))"
  by (simp add: owned_by_def cmd_simps q_owned_def)

lemma ackScript_refines:
  assumes "queue_typed q ks" and "Q = queue_view q ks"
  shows "executes q (ackScript (TaskKey q i) (ActiveKey q) (LeaseKey q) i (Doc msg) (Num at)
       (Txt attempt)) ks
     (Inr (fst (q_ack i msg at attempt Q))) (snd (q_ack i msg at attempt Q))"
  unfolding assms(2) ackScript_def q_ack_def
  by (simp add: executes_def cmd_simps assms(1) q_release_def q_field_fields)

lemma retryScript_refines:
  assumes "queue_typed q ks" and "Q = queue_view q ks"
  shows "executes q (retryScript (TaskKey q i) (ActiveKey q) (LeaseKey q) (RetryKey q) i (Doc msg)
       (Num at) (Txt reason) (Txt attempt)) ks
     (Inr (fst (q_schedule_retry i msg at reason attempt Q)))
     (snd (q_schedule_retry i msg at reason attempt Q))"
  unfolding assms(2) retryScript_def q_schedule_retry_def
  by (simp add: executes_def cmd_simps assms(1) q_release_def q_field_fields)

lemma archiveScript_refines:
  assumes "queue_typed q ks" and "Q = queue_view q ks"
  shows "executes q (archiveScript (TaskKey q i) (ActiveKey q) (LeaseKey q) (ArchivedKey q) i (Doc msg)
       (Txt reason) (Num at) (Txt attempt)) ks
     (Inr (fst (q_archive i msg reason at attempt Q)))
     (snd (q_archive i msg reason at attempt Q))"
  unfolding assms(2) archiveScript_def q_archive_def
  by (simp add: executes_def cmd_simps assms(1) q_release_def q_field_fields)

lemma stored_rank:
  assumes "qinv q Q" and "q_task Q i = Some h"
  shows "q_field Q i ''rank'' = Some (Num (rank_of h))"
    and "q_field Q i ''rank_member'' = Some (Txt (member_of h))"
    and "\<exists>j. q_field Q i ''msg'' = Some (Doc j)"
  using task_ok_rank [OF qinv_task [OF assms]] assms(2) by auto

lemma member_or_Txt [simp]: "member_or (Some (Txt m)) i = m"
  by (simp add: member_or_def)

lemma requeueScript_refines:
  assumes "queue_typed q ks" and "Q = queue_view q ks" and "qinv q Q"
  shows "executes q (requeueScript (TaskKey q i) (ActiveKey q) (LeaseKey q) (PendingKey q)
       (PendingRankKey q) i (Txt attempt)) ks
     (Inr (fst (q_requeue i attempt Q))) (snd (q_requeue i attempt Q))"
proof (cases "q_owned Q i attempt")
  case True
  then obtain h where h: "q_task Q i = Some h" using q_owned_task by blast
  note sr = stored_rank [OF assms(3) h]
  from True h show ?thesis
    using sr assms(1,2) unfolding requeueScript_def q_requeue_def
    by (simp add: executes_def cmd_simps q_release_def make_pending_def q_field_fields fun_upd_twist)
next
  case False
  then show ?thesis using assms(1,2) unfolding requeueScript_def q_requeue_def
    by (simp add: executes_def cmd_simps)
qed

lemma claimScript_refines:
  assumes "queue_typed q ks" and "Q = queue_view q ks" and "qinv q Q"
  shows "executes q (claimScript (TaskKey q '''') (PendingRankKey q) (PendingKey q) (ActiveKey q)
       (LeaseKey q) (Num now) (Num expires) (Txt attempt)) ks
     (Inr (fst (q_claim now expires attempt Q))) (snd (q_claim now expires attempt Q))"
proof (cases "q_rank Q")
  case Nil
  then show ?thesis using assms(1,2) unfolding claimScript_def q_claim_def
    by (simp add: executes_def cmd_simps)
next
  case (Cons e zs)
  obtain s rm where e: "e = (s, rm)" by fastforce
  note hd = rank_head [OF assms(3) Cons [unfolded e]]
  obtain h where h: "q_task Q (drop 21 rm) = Some h" using in_state_task [OF hd(1)] by blast
  note sr = stored_rank [OF assms(3) h]
  from h hd have "member_of h = rm" by simp
  with h sr Cons e show ?thesis using assms(1,2) unfolding claimScript_def q_claim_def
    by (auto simp: executes_def cmd_simps TaskKey_append Let_def zmembers_def)
qed

lemma replayArchivedScript_refines:
  assumes "queue_typed q ks" and "Q = queue_view q ks" and "qinv q Q"
  shows "executes q (replayArchivedScript (TaskKey q i) (ArchivedKey q) (PendingKey q)
       (PendingRankKey q) i (Doc msg)) ks
     (Inr (fst (q_replay i msg Q))) (snd (q_replay i msg Q))"
proof (cases "q_archived_task Q i")
  case True
  then obtain h where h: "q_task Q i = Some h" "h ''state'' = Some (Txt ''archived'')"
    using q_archived_taskD by blast
  then have "i \<in> set (zmembers (q_archived Q))"
    unfolding qinv_containers(14) [OF assms(3)] by (simp add: in_state_def)
  with True h stored_rank [OF assms(3) h(1)] show ?thesis
    using assms(1,2) unfolding replayArchivedScript_def q_replay_def
    by (simp add: executes_def cmd_simps make_pending_def)
next
  case False
  then show ?thesis using assms(1,2) unfolding replayArchivedScript_def q_replay_def
    by (simp add: executes_def cmd_simps q_archived_task_def)
qed

lemma deleteArchivedScript_refines:
  assumes "queue_typed q ks" and "Q = queue_view q ks" and "qinv q Q"
  shows "executes q (deleteArchivedScript (TaskKey q i) (ArchivedKey q) i) ks
     (Inr (fst (q_delete_archived i Q))) (snd (q_delete_archived i Q))"
proof (cases "q_archived_task Q i")
  case True
  then have "i \<in> set (zmembers (q_archived Q))" and "q_field Q i ''state'' = Some (Txt ''archived'')"
    unfolding qinv_containers(14) [OF assms(3)] by (simp_all add: in_state_def q_archived_task_def)
  with True show ?thesis
    using assms(1,2) unfolding deleteArchivedScript_def q_delete_archived_def
    by (simp add: executes_def cmd_simps q_drop_archived_def)
next
  case False
  then show ?thesis using assms(1,2) unfolding deleteArchivedScript_def q_delete_archived_def
    by (simp add: executes_def cmd_simps q_archived_task_def)
qed

section \<open>The loops\<close>

lemma due_subset: "set (due t z) \<subseteq> set (zmembers z)"
  by (auto simp: due_def zmembers_def)

lemma due_distinct: "zset_ok z \<Longrightarrow> distinct (due t z)"
  unfolding due_def zmembers_def zset_ok_def by (simp add: distinct_map_filter)

lemma q_move_one_source [simp]:
  "source_zset src (q_move_one src i Q) = zrem i (source_zset src Q)"
  by (cases src) (simp_all add: q_move_one_def make_pending_def)

lemma source_members:
  "qinv q Q \<Longrightarrow> set (zmembers (source_zset src Q)) = in_state Q (source_state src)"
  by (cases src) (simp_all add: qinv_containers)

lemma run_move_step:
  assumes "queue_typed q ks" and "Q = queue_view q ks" and "qinv q Q"
    and "i \<in> set (zmembers (source_zset src Q))"
  shows "\<exists>ks'. run redis_doc (moveReady_loop (source_key src q) (PendingKey q) (PendingRankKey q) mx
            (TaskKey q '''') (i # is) moved) ks =
          (if moved \<ge> mx then (Inr moved, ks) else
           run redis_doc (moveReady_loop (source_key src q) (PendingKey q) (PendingRankKey q) mx
             (TaskKey q '''') is (moved + 1)) ks')
     \<and> queue_typed q ks' \<and> queue_view q ks' = q_move_one src i Q \<and> same_outside q ks ks'"
proof -
  obtain h where h: "q_task Q i = Some h"
    using assms(3,4) source_members in_state_task by blast
  note sr = stored_rank [OF assms(3) h]
  let ?K = "put_zset ks (source_key src q) (zrem i (source_zset src Q))"
  let ?K1 = "hset_task q i [(''state'', Txt ''pending'')] ?K"
  let ?K2 = "put_list ?K1 (PendingKey q) (i # q_pending Q)"
  let ?K3 = "put_zset ?K2 (PendingRankKey q) (zadd (f64_of_int (rank_of h)) (member_of h) (q_rank Q))"
  have "queue_typed q ?K3 \<and> queue_view q ?K3 = q_move_one src i Q \<and> same_outside q ks ?K3"
    using assms(1,2) h by (simp add: q_move_one_def make_pending_def)
  moreover have "run redis_doc (moveReady_loop (source_key src q) (PendingKey q) (PendingRankKey q) mx
            (TaskKey q '''') (i # is) moved) ks =
          (if moved \<ge> mx then (Inr moved, ks) else
           run redis_doc (moveReady_loop (source_key src q) (PendingKey q) (PendingRankKey q) mx
             (TaskKey q '''') is (moved + 1)) ?K3)"
    using assms h sr by (simp add: cmd_simps TaskKey_append Let_def q_field_fields)
  ultimately show ?thesis by blast
qed

lemma move_loop_refines:
  assumes "queue_typed q ks" and "qinv q (queue_view q ks)" and "distinct is"
    and "set is \<subseteq> set (zmembers (source_zset src (queue_view q ks)))"
  shows "executes q (moveReady_loop (source_key src q) (PendingKey q) (PendingRankKey q) mx
       (TaskKey q '''') is moved) ks
     (Inr (fst (q_move_loop src mx is moved (queue_view q ks))))
     (snd (q_move_loop src mx is moved (queue_view q ks)))
   \<and> qinv q (snd (q_move_loop src mx is moved (queue_view q ks)))"
  using assms
proof (induction "is" arbitrary: ks moved)
  case (Cons i "is")
  let ?Q = "queue_view q ks"
  have i: "i \<in> set (zmembers (source_zset src ?Q))" using Cons.prems(4) by simp
  obtain ks' where ks': "run redis_doc (moveReady_loop (source_key src q) (PendingKey q) (PendingRankKey q) mx
            (TaskKey q '''') (i # is) moved) ks =
          (if moved \<ge> mx then (Inr moved, ks) else
           run redis_doc (moveReady_loop (source_key src q) (PendingKey q) (PendingRankKey q) mx
             (TaskKey q '''') is (moved + 1)) ks')"
     "queue_typed q ks'" "queue_view q ks' = q_move_one src i ?Q" "same_outside q ks ks'"
    using run_move_step [OF Cons.prems(1) refl Cons.prems(2) i] by blast
  show ?case
  proof (cases "moved \<ge> mx")
    case True
    with Cons.prems ks'(1) show ?thesis by (simp add: executes_def del: moveReady_loop.simps)
  next
    case False
    have "qinv q (queue_view q ks')"
      unfolding ks'(3) using Cons.prems(2) i by (intro q_move_one_qinv) (simp_all add: source_members)
    moreover have "set is \<subseteq> set (zmembers (source_zset src (queue_view q ks')))"
      unfolding ks'(3) using Cons.prems(3,4) by auto
    ultimately have "executes q (moveReady_loop (source_key src q) (PendingKey q) (PendingRankKey q) mx
         (TaskKey q '''') is (moved + 1)) ks'
         (Inr (fst (q_move_loop src mx is (moved + 1) (queue_view q ks'))))
         (snd (q_move_loop src mx is (moved + 1) (queue_view q ks')))
       \<and> qinv q (snd (q_move_loop src mx is (moved + 1) (queue_view q ks')))"
      using Cons.IH [OF ks'(2)] Cons.prems(3) by simp
    then show ?thesis using False ks'(1,4)
      by (auto simp: ks'(3) simp del: moveReady_loop.simps intro: executes_run_cong)
  qed
qed (simp add: executes_Ret)

lemma source_zset_ok: "qinv q Q \<Longrightarrow> zset_ok (source_zset src Q)"
  by (cases src) (simp_all add: qinv_containers)

lemma moveReadyScript_refines:
  assumes "queue_typed q ks" and "Q = queue_view q ks" and "qinv q Q"
  shows "executes q (moveReadyScript (source_key src q) (PendingKey q) (PendingRankKey q) (Num now) mx
       (TaskKey q '''')) ks
     (Inr (fst (q_move_ready src now mx Q))) (snd (q_move_ready src now mx Q))"
    and "qinv q (snd (q_move_ready src now mx Q))"
proof -
  have *: "executes q (moveReady_loop (source_key src q) (PendingKey q) (PendingRankKey q) mx
       (TaskKey q '''') (due now (source_zset src Q)) 0) ks
     (Inr (fst (q_move_ready src now mx Q))) (snd (q_move_ready src now mx Q))
   \<and> qinv q (snd (q_move_ready src now mx Q))"
    using move_loop_refines [OF assms(1)] assms(2,3) due_distinct [OF source_zset_ok [OF assms(3)]]
      due_subset by (simp add: q_move_ready_def)
  then show "qinv q (snd (q_move_ready src now mx Q))" by blast
  have "run redis_doc (moveReadyScript (source_key src q) (PendingKey q) (PendingRankKey q) (Num now) mx
       (TaskKey q '''')) ks = run redis_doc (moveReady_loop (source_key src q) (PendingKey q)
       (PendingRankKey q) mx (TaskKey q '''') (due now (source_zset src Q)) 0) ks"
    using assms(1,2) by (simp add: moveReadyScript_def cmd_simps)
  with * show "executes q (moveReadyScript (source_key src q) (PendingKey q) (PendingRankKey q) (Num now) mx
       (TaskKey q '''')) ks
     (Inr (fst (q_move_ready src now mx Q))) (snd (q_move_ready src now mx Q))"
    by (metis executes_run_cong same_outside_refl)
qed

lemma run_cleanup_step:
  assumes "queue_typed q ks" and "Q = queue_view q ks" and "qinv q Q" and "i \<in> set (zmembers (q_archived Q))"
  shows "\<exists>ks'. run redis_doc (cleanup_loop (ArchivedKey q) mx (TaskKey q '''') (i # is) removed) ks =
          (if removed \<ge> mx then (Inr removed, ks) else
           run redis_doc (cleanup_loop (ArchivedKey q) mx (TaskKey q '''') is (removed + 1)) ks')
     \<and> queue_typed q ks' \<and> queue_view q ks' = q_drop_archived i Q \<and> same_outside q ks ks'"
proof -
  let ?K = "(put_zset ks (ArchivedKey q) (zrem i (q_archived Q)))(TaskKey q i := None)"
  have "q_field Q i ''state'' = Some (Txt ''archived'')"
    using assms(4) unfolding qinv_containers(14) [OF assms(3)] by (simp add: in_state_def)
  then have "run redis_doc (cleanup_loop (ArchivedKey q) mx (TaskKey q '''') (i # is) removed) ks =
          (if removed \<ge> mx then (Inr removed, ks) else
           run redis_doc (cleanup_loop (ArchivedKey q) mx (TaskKey q '''') is (removed + 1)) ?K)"
    using assms by (simp add: cmd_simps TaskKey_append Let_def)
  moreover have "queue_typed q ?K \<and> queue_view q ?K = q_drop_archived i Q \<and> same_outside q ks ?K"
    using assms(1,2) by (simp add: q_drop_archived_def)
  ultimately show ?thesis by blast
qed

lemma cleanup_loop_refines:
  assumes "queue_typed q ks" and "qinv q (queue_view q ks)" and "distinct is"
    and "set is \<subseteq> set (zmembers (q_archived (queue_view q ks)))"
  shows "executes q (cleanup_loop (ArchivedKey q) mx (TaskKey q '''') is removed) ks
     (Inr (fst (q_cleanup_loop mx is removed (queue_view q ks))))
     (snd (q_cleanup_loop mx is removed (queue_view q ks)))
   \<and> qinv q (snd (q_cleanup_loop mx is removed (queue_view q ks)))"
  using assms
proof (induction "is" arbitrary: ks removed)
  case (Cons i "is")
  let ?Q = "queue_view q ks"
  have i: "i \<in> set (zmembers (q_archived ?Q))" using Cons.prems(4) by simp
  obtain ks' where ks': "run redis_doc (cleanup_loop (ArchivedKey q) mx (TaskKey q '''') (i # is) removed) ks =
          (if removed \<ge> mx then (Inr removed, ks) else
           run redis_doc (cleanup_loop (ArchivedKey q) mx (TaskKey q '''') is (removed + 1)) ks')"
     "queue_typed q ks'" "queue_view q ks' = q_drop_archived i ?Q" "same_outside q ks ks'"
    using run_cleanup_step [OF Cons.prems(1) refl Cons.prems(2) i] by blast
  show ?case
  proof (cases "removed \<ge> mx")
    case True
    with Cons.prems ks'(1) show ?thesis by (simp add: executes_def del: cleanup_loop.simps)
  next
    case False
    have "qinv q (queue_view q ks')"
      unfolding ks'(3) using Cons.prems(2) i by (intro q_drop_archived_qinv) (simp_all add: qinv_containers(14))
    moreover have "set is \<subseteq> set (zmembers (q_archived (queue_view q ks')))"
      unfolding ks'(3) using Cons.prems(3,4) by (auto simp: q_drop_archived_def)
    ultimately have "executes q (cleanup_loop (ArchivedKey q) mx (TaskKey q '''') is (removed + 1)) ks'
         (Inr (fst (q_cleanup_loop mx is (removed + 1) (queue_view q ks'))))
         (snd (q_cleanup_loop mx is (removed + 1) (queue_view q ks')))
       \<and> qinv q (snd (q_cleanup_loop mx is (removed + 1) (queue_view q ks')))"
      using Cons.IH [OF ks'(2)] Cons.prems(3) by simp
    then show ?thesis using False ks'(1,4)
      by (auto simp: ks'(3) simp del: cleanup_loop.simps intro: executes_run_cong)
  qed
qed (simp add: executes_Ret)

lemma cleanupArchivedScript_refines:
  assumes "queue_typed q ks" and "Q = queue_view q ks" and "qinv q Q"
  shows "executes q (cleanupArchivedScript (ArchivedKey q) (Num before) mx (TaskKey q '''')) ks
     (Inr (fst (q_cleanup before mx Q))) (snd (q_cleanup before mx Q))"
    and "qinv q (snd (q_cleanup before mx Q))"
proof -
  have *: "executes q (cleanup_loop (ArchivedKey q) mx (TaskKey q '''') (due before (q_archived Q)) 0) ks
     (Inr (fst (q_cleanup before mx Q))) (snd (q_cleanup before mx Q))
   \<and> qinv q (snd (q_cleanup before mx Q))"
    using cleanup_loop_refines [OF assms(1)] assms(2,3) due_distinct [OF qinv_containers(13) [OF assms(3)]]
      due_subset by (simp add: q_cleanup_def)
  then show "qinv q (snd (q_cleanup before mx Q))" by blast
  have "run redis_doc (cleanupArchivedScript (ArchivedKey q) (Num before) mx (TaskKey q '''')) ks =
     run redis_doc (cleanup_loop (ArchivedKey q) mx (TaskKey q '''') (due before (q_archived Q)) 0) ks"
    using assms(1,2) by (simp add: cleanupArchivedScript_def cmd_simps)
  with * show "executes q (cleanupArchivedScript (ArchivedKey q) (Num before) mx (TaskKey q '''')) ks
     (Inr (fst (q_cleanup before mx Q))) (snd (q_cleanup before mx Q))"
    by (metis executes_run_cong same_outside_refl)
qed

lemma length_pairs: "length (concat (map (\<lambda>p. [Txt (fst p), Txt (snd p)]) ps)) = 2 * length ps"
  by (induction ps) simp_all

lemma extend_at:
  "lua_at (extend_keys q ps) 1 = Some (LeaseKey q)"
  "lua_at (extend_args expires ps) 1 = Some (Num expires)"
  "lua_at (extend_keys q (pre @ p # post)) (int (length pre) + 2) = Some (TaskKey q (fst p))"
  "lua_at (extend_args expires (pre @ p # post)) (int (length pre) * 2 + 2) = Some (Txt (fst p))"
  "lua_at (extend_args expires (pre @ p # post)) (3 + int (length pre) * 2) = Some (Txt (snd p))"
proof -
  have n: "nat (int (length pre) + 1) = Suc (length pre)" "nat (1 + int (length pre)) = Suc (length pre)"
    "nat (1 + int (length pre) * 2) = Suc (2 * length pre)"
    "nat (2 + int (length pre) * 2) = Suc (Suc (2 * length pre))" by simp_all
  show "lua_at (extend_keys q ps) 1 = Some (LeaseKey q)"
    "lua_at (extend_args expires ps) 1 = Some (Num expires)"
    "lua_at (extend_keys q (pre @ p # post)) (int (length pre) + 2) = Some (TaskKey q (fst p))"
    "lua_at (extend_args expires (pre @ p # post)) (int (length pre) * 2 + 2) = Some (Txt (fst p))"
    "lua_at (extend_args expires (pre @ p # post)) (3 + int (length pre) * 2) = Some (Txt (snd p))"
    by (simp_all add: lua_at_def extend_keys_def extend_args_def n nth_append length_pairs)
qed

lemma run_extend_step:
  assumes "queue_typed q ks" and "Q = queue_view q ks"
  shows "\<exists>n ks'. run redis_doc (extendLease_loop (extend_keys q (pre @ p # post))
            (extend_args expires (pre @ p # post)) ((int (length pre) + 2) # is) m) ks =
       run redis_doc (extendLease_loop (extend_keys q (pre @ p # post))
            (extend_args expires (pre @ p # post)) is n) ks'
     \<and> queue_typed q ks' \<and> queue_view q ks' = q_extend_one expires p Q \<and> same_outside q ks ks'"
proof -
  define L where "L = extendLease_loop (extend_keys q (pre @ p # post)) (extend_args expires (pre @ p # post)) is"
  have step: "run redis_doc (extendLease_loop (extend_keys q (pre @ p # post))
            (extend_args expires (pre @ p # post)) ((int (length pre) + 2) # is) m) ks =
       run redis_doc
         (if q_owned Q (fst p) (snd p) then call_do (ZADD (LeaseKey q) (Num expires) (fst p)) (L (m + 1))
          else if q_field Q (fst p) ''state'' = Some (Txt ''active'') then L m
          else call_do (ZREM (LeaseKey q) (fst p)) (L m)) ks"
    using assms by (simp add: extend_at cmd_simps Let_def q_owned_def L_def)
  define r where "r = (\<lambda>n ks'. run redis_doc (extendLease_loop (extend_keys q (pre @ p # post))
            (extend_args expires (pre @ p # post)) ((int (length pre) + 2) # is) m) ks = run redis_doc (L n) ks'
     \<and> queue_typed q ks' \<and> queue_view q ks' = q_extend_one expires p Q \<and> same_outside q ks ks')"
  consider "q_owned Q (fst p) (snd p)"
    | "\<not> q_owned Q (fst p) (snd p)" "q_field Q (fst p) ''state'' = Some (Txt ''active'')"
    | "\<not> q_owned Q (fst p) (snd p)" "q_field Q (fst p) ''state'' \<noteq> Some (Txt ''active'')" by blast
  then have "\<exists>n ks'. r n ks'"
  proof cases
    case 1
    with assms have "r (m + 1) (put_zset ks (LeaseKey q) (zadd (f64_of_int expires) (fst p) (q_lease Q)))"
      unfolding r_def step by (simp add: cmd_simps q_extend_one_def)
    then show ?thesis by blast
  next
    case 2
    with assms have "r m ks" unfolding r_def step by (simp add: q_extend_one_def)
    then show ?thesis by blast
  next
    case 3
    with assms have "r m (put_zset ks (LeaseKey q) (zrem (fst p) (q_lease Q)))"
      unfolding r_def step by (simp add: cmd_simps q_extend_one_def)
    then show ?thesis by blast
  qed
  then show ?thesis unfolding r_def L_def .
qed

lemma extend_loop_refines:
  assumes "queue_typed q ks"
  shows "\<exists>n. executes q (extendLease_loop (extend_keys q (pre @ post)) (extend_args expires (pre @ post))
       [int (length pre) + 2 .. int (length (pre @ post)) + 1] m) ks
     (Inr n) (q_extend expires post (queue_view q ks))"
  using assms
proof (induction post arbitrary: ks pre m)
  case Nil
  then show ?case by (auto simp: q_extend_def executes_def)
next
  case (Cons p post)
  let ?ps = "pre @ p # post"
  have idx: "[int (length pre) + 2 .. int (length ?ps) + 1] =
      (int (length pre) + 2) # [int (length (pre @ [p])) + 2 .. int (length ((pre @ [p]) @ post)) + 1]"
    by (subst upto_rec1) simp_all
  obtain n ks' where ks': "run redis_doc (extendLease_loop (extend_keys q ?ps) (extend_args expires ?ps)
         [int (length pre) + 2 .. int (length ?ps) + 1] m) ks =
       run redis_doc (extendLease_loop (extend_keys q ?ps) (extend_args expires ?ps)
         [int (length (pre @ [p])) + 2 .. int (length ((pre @ [p]) @ post)) + 1] n) ks'"
      "queue_typed q ks'" "queue_view q ks' = q_extend_one expires p (queue_view q ks)" "same_outside q ks ks'"
    unfolding idx using run_extend_step [OF Cons.prems refl] by blast
  obtain n' where "executes q (extendLease_loop (extend_keys q ?ps) (extend_args expires ?ps)
       [int (length (pre @ [p])) + 2 .. int (length ((pre @ [p]) @ post)) + 1] n) ks'
     (Inr n') (q_extend expires post (queue_view q ks'))"
    using Cons.IH [OF ks'(2), of "pre @ [p]" n] by auto
  then show ?case using ks'(1,4) executes_run_cong
    by (fastforce simp: ks'(3) q_extend_def)
qed

lemma extendLeaseScript_refines:
  assumes "queue_typed q ks" and "Q = queue_view q ks"
  shows "\<exists>n. executes q (extendLeaseScript (extend_keys q ps) (extend_args expires ps)) ks
     (Inr n) (q_extend expires ps Q)"
  using extend_loop_refines [OF assms(1), of "[]" ps expires 0] assms(2)
  by (simp add: extendLeaseScript_def extend_keys_def add.commute)

text \<open>\<open>moveOneScript\<close>, which no Go method runs, moves one task the way the loop does.\<close>

lemma moveOneScript_refines:
  assumes "queue_typed q ks" and "Q = queue_view q ks" and "qinv q Q"
  shows "executes q (moveOneScript (source_key src q) (PendingKey q) (PendingRankKey q) (TaskKey q i) i) ks
     (Inr (if i \<in> set (zmembers (source_zset src Q)) then 1 else 0))
     (if i \<in> set (zmembers (source_zset src Q)) then q_move_one src i Q else Q)"
proof (cases "i \<in> set (zmembers (source_zset src Q))")
  case True
  obtain h where h: "q_task Q i = Some h"
    using True assms(3) source_members in_state_task by blast
  with True stored_rank [OF assms(3) h] assms(1,2) show ?thesis
    by (simp add: executes_def moveOneScript_def cmd_simps q_move_one_def make_pending_def q_field_fields)
next
  case False
  then have "zrem i (source_zset src Q) = source_zset src Q"
    by (auto simp: zrem_def zmembers_def intro!: filter_True)
  moreover have "set_source src (source_zset src Q) Q = Q" by (cases src) simp_all
  ultimately show ?thesis using False assms(1,2)
    by (simp add: executes_def moveOneScript_def cmd_simps)
qed

end
