(* ===== verification/RedisStore.thy ===== *)
theory RedisStore
  imports QueueRefinement "HOL-Library.Word"
begin

text \<open>
  The Go methods of \<^verbatim>\<open>internal/redisstore/rdb.go\<close>. What Go reads from outside is an argument: the
  server (\<open>call\<close>), what becomes of each request (\<open>fate\<close>), the clock (\<open>now\<close>), and the random bytes.
  A method that issues one request takes its \<open>fate\<close>; a method that issues several takes a \<open>wire\<close>
  per request, which adds what other clients did to the database before that request reached the
  server. A message passed by pointer is returned as the method leaves it.
\<close>

section \<open>Requests\<close>

type_synonym 'db wire = "('db \<Rightarrow> 'db) \<times> fate"

definition request :: "'db redis \<Rightarrow> 'db wire \<Rightarrow> 'a script \<Rightarrow> 'db \<Rightarrow> (gerr + 'a) \<times> 'db" where
  "request call w s d = script_Run call (snd w) s (fst w d)"

text \<open>A wire that carries every request at once and undisturbed.\<close>

definition direct :: "'db wire" where
  "direct = (\<lambda>d. d, Delivered)"


section \<open>Helpers of the store\<close>

record Store =
  leaseDuration :: duration

definition second :: duration where
  "second = 1000000000"

definition New_Store :: Store where
  "New_Store = \<lparr>leaseDuration = 30 * second\<rparr>"

definition SetLeaseDuration :: "duration \<Rightarrow> Store \<Rightarrow> Store" where
  "SetLeaseDuration d s = (if d > 0 then s\<lparr>leaseDuration := d\<rparr> else s)"

text \<open>\<open>-float64(Priority)*1e15 + float64(CreatedAt.UnixMilli())\<close>, printed with three decimals: every
  intermediate value is an integer, so the text is that of an integer.\<close>

definition taskRank :: "TaskMessage \<Rightarrow> int" where
  "taskRank msg = f64_of_int (f64_of_int (- f64_of_int (Priority msg) * 10 ^ 15)
                              + f64_of_int (UnixMilli (CreatedAt msg)))"

text \<open>\<open>rand.Read\<close> fills the sixteen bytes or fails.\<close>

type_synonym entropy = "gerr + (nat \<Rightarrow> 8 word)"

definition hex_digit :: "nat \<Rightarrow> char" where
  "hex_digit n = (if n < 10 then char_of (48 + n) else char_of (87 + n))"

definition hex_EncodeToString :: "8 word list \<Rightarrow> string" where
  "hex_EncodeToString bs = concat (map (\<lambda>b. [hex_digit (unat b div 16), hex_digit (unat b mod 16)]) bs)"

definition newAttemptID :: "entropy \<Rightarrow> gerr + string" where
  "newAttemptID rnd = (case rnd of Inl e \<Rightarrow> Inl e | Inr value \<Rightarrow> Inr (hex_EncodeToString (map value [0..<16])))"

text \<open>The errors of \<open>encoding/json\<close>; only their being errors matters to callers.\<close>

definition marshal_error :: gerr where
  "marshal_error = ErrorsNew ''json: error calling MarshalJSON for type time.Time''"

definition unmarshal_error :: gerr where
  "unmarshal_error = ErrorsNew ''json: cannot unmarshal''"

fun Unmarshal_bulk :: "bulk \<Rightarrow> TaskMessage option" where
  "Unmarshal_bulk (Doc j) = Unmarshal j"
| "Unmarshal_bulk _ = None"


section \<open>Submitting and claiming\<close>

type_synonym 'db on_msg = "(gerr option \<times> TaskMessage) \<times> 'db"

text \<open>The result handling shared by the methods that run one integer script: an error is wrapped, 0
  is the given sentinel, anything else applies the update to the caller's message.\<close>

definition settle ::
  "string \<Rightarrow> gerr \<Rightarrow> (TaskMessage \<Rightarrow> TaskMessage) \<Rightarrow> TaskMessage \<Rightarrow> (gerr + int) \<times> 'db \<Rightarrow> 'db on_msg" where
  "settle what zero upd msg r = (case r of
     (Inl e, d) \<Rightarrow> ((Some (wrap_err what e), msg), d)
   | (Inr result, d) \<Rightarrow> if result = 0 then ((Some zero, msg), d) else ((None, upd msg), d))"

definition Enqueue :: "'db redis \<Rightarrow> fate \<Rightarrow> TaskMessage \<Rightarrow> 'db \<Rightarrow> 'db on_msg" where
  "Enqueue call ft msg d = (case Validate (Some msg) of
     Some e \<Rightarrow> ((Some e, msg), d)
   | None \<Rightarrow> (case Marshal msg of
       None \<Rightarrow> ((Some (wrap_err ''encode task'' marshal_error), msg), d)
     | Some encoded \<Rightarrow>
         settle ''enqueue task'' ErrTaskExists (\<lambda>m. m\<lparr>State := StatePending\<rparr>) msg
           (script_Run call ft
             (enqueueScript (TaskKey (Queue msg) (ID msg)) (PendingKey (Queue msg))
               (PendingRankKey (Queue msg)) (SequenceKey (Queue msg))
               (Doc encoded) (ID msg) (Num (Priority msg)) (Num (taskRank msg))) d)))"

definition Schedule :: "'db redis \<Rightarrow> fate \<Rightarrow> TaskMessage \<Rightarrow> 'db \<Rightarrow> 'db on_msg" where
  "Schedule call ft msg d = (case Validate (Some msg) of
     Some e \<Rightarrow> ((Some e, msg), d)
   | None \<Rightarrow> if IsZero (RunAt msg)
       then ((Some (ErrorsNew ''scheduled task run time is required''), msg), d)
       else (case Marshal msg of
         None \<Rightarrow> ((Some (wrap_err ''encode task'' marshal_error), msg), d)
       | Some encoded \<Rightarrow>
           settle ''schedule task'' ErrTaskExists (\<lambda>m. m\<lparr>State := StateScheduled\<rparr>) msg
             (script_Run call ft
               (scheduleScript (TaskKey (Queue msg) (ID msg)) (ScheduledKey (Queue msg))
                 (SequenceKey (Queue msg)) (Doc encoded) (ID msg) (Num (Priority msg))
                 (Num (taskRank msg)) (Num (UnixMilli (RunAt msg)))) d)))"

definition Claim ::
  "'db redis \<Rightarrow> Store \<Rightarrow> fate \<Rightarrow> entropy \<Rightarrow> string \<Rightarrow> gotime \<Rightarrow> duration \<Rightarrow> 'db \<Rightarrow> (gerr + TaskMessage) \<times> 'db" where
  "Claim call s ft rnd queue now lease d =
     (let lease = (if lease \<le> 0 then leaseDuration s else lease) in
      case newAttemptID rnd of
        Inl e \<Rightarrow> (Inl (wrap_err ''create claim attempt id'' e), d)
      | Inr attemptID \<Rightarrow>
          (case script_Run call ft
             (claimScript (TaskKey queue '''') (PendingRankKey queue) (PendingKey queue) (ActiveKey queue)
               (LeaseKey queue) (Num (UnixMilli now)) (Num (UnixMilli (now + lease))) (Txt attemptID)) d of
             (Inl e, d') \<Rightarrow> (Inl (wrap_err ''claim task'' e), d')
           | (Inr (status, v), d') \<Rightarrow>
               if status = 0 then (Inl ErrQueueEmpty, d')
               else (case Unmarshal_bulk v of
                   None \<Rightarrow> (Inl (wrap_err ''decode claimed task'' unmarshal_error), d')
                 | Some msg \<Rightarrow> (Inr (msg\<lparr>State := StateActive, AttemptID := attemptID\<rparr>), d'))))"

text \<open>The two nested loops of \<open>MoveReady\<close> over queues and sources, flattened.\<close>

fun MoveReady_loop ::
  "'db redis \<Rightarrow> (nat \<Rightarrow> 'db wire) \<Rightarrow> gotime \<Rightarrow> int \<Rightarrow> (string \<times> string) list \<Rightarrow> int \<Rightarrow> 'db
    \<Rightarrow> (int \<times> gerr option) \<times> 'db" where
  "MoveReady_loop call w now limit [] moved d = ((moved, None), d)"
| "MoveReady_loop call w now limit ((queue, source) # rest) moved d =
     (case request call (w 0)
        (moveReadyScript source (PendingKey queue) (PendingRankKey queue) (Num (UnixMilli now)) limit
          (queuePrefix queue @ ''task:'')) d of
        (Inl e, d') \<Rightarrow> ((moved, Some (wrap_err ''move ready tasks'' e)), d')
      | (Inr n, d') \<Rightarrow> MoveReady_loop call (\<lambda>k. w (Suc k)) now limit rest (moved + n) d')"

definition MoveReady ::
  "'db redis \<Rightarrow> (nat \<Rightarrow> 'db wire) \<Rightarrow> gotime \<Rightarrow> int \<Rightarrow> string list \<Rightarrow> 'db \<Rightarrow> (int \<times> gerr option) \<times> 'db" where
  "MoveReady call w now limit queues d =
     MoveReady_loop call w now (if limit \<le> 0 then 100 else limit)
       (concat (map (\<lambda>q. [(q, ScheduledKey q), (q, RetryKey q)]) queues)) 0 d"


section \<open>Ending an attempt\<close>

definition AckSuccess :: "'db redis \<Rightarrow> fate \<Rightarrow> gotime \<Rightarrow> TaskMessage \<Rightarrow> 'db \<Rightarrow> 'db on_msg" where
  "AckSuccess call ft now msg d =
     (case Marshal (msg\<lparr>State := StateCompleted, AttemptID := '''', CompletedAt := now\<rparr>) of
        None \<Rightarrow> ((Some (wrap_err ''encode completed task'' marshal_error), msg), d)
      | Some encoded \<Rightarrow>
          settle ''ack task'' ErrInvalidTransition
            (\<lambda>m. m\<lparr>State := StateCompleted, AttemptID := '''', CompletedAt := now\<rparr>) msg
            (script_Run call ft
              (ackScript (TaskKey (Queue msg) (ID msg)) (ActiveKey (Queue msg)) (LeaseKey (Queue msg))
                (ID msg) (Doc encoded) (Num (UnixMilli now)) (Txt (AttemptID msg))) d))"

definition ScheduleRetry ::
  "'db redis \<Rightarrow> fate \<Rightarrow> gotime \<Rightarrow> TaskMessage \<Rightarrow> gotime \<Rightarrow> string \<Rightarrow> 'db \<Rightarrow> 'db on_msg" where
  "ScheduleRetry call ft now msg at reason d =
     (case Marshal (msg\<lparr>State := StateRetry, AttemptID := '''', LastError := reason, LastFailedAt := now\<rparr>) of
        None \<Rightarrow> ((Some (wrap_err ''encode retry task'' marshal_error), msg), d)
      | Some encoded \<Rightarrow>
          settle ''schedule retry'' ErrInvalidTransition
            (\<lambda>m. m\<lparr>State := StateRetry, AttemptID := '''', LastError := reason, LastFailedAt := now\<rparr>) msg
            (script_Run call ft
              (retryScript (TaskKey (Queue msg) (ID msg)) (ActiveKey (Queue msg)) (LeaseKey (Queue msg))
                (RetryKey (Queue msg)) (ID msg) (Doc encoded) (Num (UnixMilli at)) (Txt reason)
                (Txt (AttemptID msg))) d))"

definition Archive :: "'db redis \<Rightarrow> fate \<Rightarrow> gotime \<Rightarrow> TaskMessage \<Rightarrow> string \<Rightarrow> 'db \<Rightarrow> 'db on_msg" where
  "Archive call ft now msg reason d =
     (case Marshal (msg\<lparr>State := StateArchived, AttemptID := '''', LastError := reason\<rparr>) of
        None \<Rightarrow> ((Some (wrap_err ''encode archived task'' marshal_error), msg), d)
      | Some encoded \<Rightarrow>
          settle ''archive task'' ErrInvalidTransition
            (\<lambda>m. m\<lparr>State := StateArchived, AttemptID := '''', LastError := reason\<rparr>) msg
            (script_Run call ft
              (archiveScript (TaskKey (Queue msg) (ID msg)) (ActiveKey (Queue msg)) (LeaseKey (Queue msg))
                (ArchivedKey (Queue msg)) (ID msg) (Doc encoded) (Txt reason) (Num (UnixMilli now))
                (Txt (AttemptID msg))) d))"

definition Requeue :: "'db redis \<Rightarrow> fate \<Rightarrow> TaskMessage \<Rightarrow> 'db \<Rightarrow> 'db on_msg" where
  "Requeue call ft msg d =
     settle ''requeue task'' ErrInvalidTransition (\<lambda>m. m\<lparr>State := StatePending, AttemptID := ''''\<rparr>) msg
       (script_Run call ft
         (requeueScript (TaskKey (Queue msg) (ID msg)) (ActiveKey (Queue msg)) (LeaseKey (Queue msg))
           (PendingKey (Queue msg)) (PendingRankKey (Queue msg)) (ID msg) (Txt (AttemptID msg))) d)"

section \<open>Reading\<close>

text \<open>The decoding of \<open>Get\<close>: the hash fields \<open>state\<close> and \<open>attempt_id\<close> override those of the document.\<close>

fun decode_task :: "bulk option list \<Rightarrow> gerr + TaskMessage" where
  "decode_task [v0, v1, v2] = (case v0 of
     None \<Rightarrow> Inl ErrTaskNotFound
   | Some b0 \<Rightarrow> (case v1 of
       None \<Rightarrow> Inl (ErrorsNew ''get task: state is missing'')
     | Some b1 \<Rightarrow> (case Unmarshal_bulk b0 of
         None \<Rightarrow> Inl (wrap_err ''decode task'' unmarshal_error)
       | Some m \<Rightarrow>
           let m = m\<lparr>State := text_of b1, AttemptID := ''''\<rparr> in
           if State m = StateActive then
             (case v2 of
                None \<Rightarrow> Inl (ErrorsNew ''get task: active attempt id is missing'')
              | Some b2 \<Rightarrow>
                  if text_of b2 = '''' then Inl (ErrorsNew ''get task: active attempt id is missing'')
                  else Inr (m\<lparr>AttemptID := text_of b2\<rparr>))
           else Inr m)))"
| "decode_task vs = Inl (ErrorsNew (''get task: unexpected field count '' @ dec_int (int (length vs))))"

definition Get :: "'db redis \<Rightarrow> fate \<Rightarrow> string \<Rightarrow> string \<Rightarrow> 'db \<Rightarrow> (gerr + TaskMessage) \<times> 'db" where
  "Get call ft queue tid d =
     (case script_Run call ft
        (call_vals (HMGET (TaskKey queue tid) [''msg'', ''state'', ''attempt_id'']) Ret) d of
        (Inl e, d') \<Rightarrow> (Inl (wrap_err ''get task'' e), d')
      | (Inr vs, d') \<Rightarrow> (decode_task vs, d'))"

definition ExpiredIDs ::
  "'db redis \<Rightarrow> fate \<Rightarrow> gotime \<Rightarrow> string \<Rightarrow> int \<Rightarrow> 'db \<Rightarrow> (gerr + string list) \<times> 'db" where
  "ExpiredIDs call ft now queue limit d =
     script_Run call ft
       (call_strs (ZRANGEBYSCORE (LeaseKey queue) (Num (UnixMilli now))
          (Some (0, if limit \<le> 0 then 100 else limit))) Ret) d"

definition PendingCount :: "'db redis \<Rightarrow> fate \<Rightarrow> string \<Rightarrow> 'db \<Rightarrow> (gerr + int) \<times> 'db" where
  "PendingCount call ft queue d = script_Run call ft (call_int (ZCARD (PendingRankKey queue)) Ret) d"

definition RetryCount_store :: "'db redis \<Rightarrow> fate \<Rightarrow> string \<Rightarrow> 'db \<Rightarrow> (gerr + int) \<times> 'db" where
  "RetryCount_store call ft queue d = script_Run call ft (call_int (ZCARD (RetryKey queue)) Ret) d"

definition ArchivedCount :: "'db redis \<Rightarrow> fate \<Rightarrow> string \<Rightarrow> 'db \<Rightarrow> (gerr + int) \<times> 'db" where
  "ArchivedCount call ft queue d = script_Run call ft (call_int (ZCARD (ArchivedKey queue)) Ret) d"


section \<open>Dead letters\<close>

definition GetDeadLetter :: "'db redis \<Rightarrow> fate \<Rightarrow> string \<Rightarrow> string \<Rightarrow> 'db \<Rightarrow> (gerr + TaskMessage) \<times> 'db" where
  "GetDeadLetter call ft queue tid d = (case Get call ft queue tid d of
     (Inl e, d') \<Rightarrow> (Inl e, d')
   | (Inr msg, d') \<Rightarrow> if State msg \<noteq> StateArchived then (Inl ErrInvalidTransition, d') else (Inr msg, d'))"

fun ListDeadLetters_loop ::
  "'db redis \<Rightarrow> (nat \<Rightarrow> 'db wire) \<Rightarrow> string \<Rightarrow> string list \<Rightarrow> TaskMessage list \<Rightarrow> 'db
    \<Rightarrow> (gerr + TaskMessage list) \<times> 'db" where
  "ListDeadLetters_loop call w queue [] result d = (Inr result, d)"
| "ListDeadLetters_loop call w queue (tid # ids) result d =
     (case GetDeadLetter call (snd (w 0)) queue tid (fst (w 0) d) of
        (Inl e, d') \<Rightarrow>
          if errors_Is e ErrInvalidTransition
          then ListDeadLetters_loop call (\<lambda>k. w (Suc k)) queue ids result d'
          else (Inl (wrap_err (''read dead letter '' @ tid) e), d')
      | (Inr msg, d') \<Rightarrow> ListDeadLetters_loop call (\<lambda>k. w (Suc k)) queue ids (result @ [msg]) d')"

text \<open>\<open>offset+limit-1\<close> is computed at the width of a Go \<open>int\<close>.\<close>

definition ListDeadLetters ::
  "'db redis \<Rightarrow> (nat \<Rightarrow> 'db wire) \<Rightarrow> string \<Rightarrow> int \<Rightarrow> int \<Rightarrow> 'db \<Rightarrow> (gerr + TaskMessage list) \<times> 'db" where
  "ListDeadLetters call w queue offset limit d =
     (if offset < 0 then (Inl (ErrorsNew ''dead-letter offset cannot be negative''), d) else
      let limit = (if limit \<le> 0 then 100 else limit) in
      case request call (w 0)
        (call_strs (ZRANGE (ArchivedKey queue) offset (wrap64 (offset + limit - 1))) Ret) d of
        (Inl e, d') \<Rightarrow> (Inl (wrap_err ''list dead letters'' e), d')
      | (Inr ids, d') \<Rightarrow> ListDeadLetters_loop call (\<lambda>k. w (Suc k)) queue ids [] d')"

definition ReplayDeadLetter ::
  "'db redis \<Rightarrow> (nat \<Rightarrow> 'db wire) \<Rightarrow> gotime \<Rightarrow> string \<Rightarrow> string \<Rightarrow> 'db \<Rightarrow> gerr option \<times> 'db" where
  "ReplayDeadLetter call w now queue tid d =
     (case GetDeadLetter call (snd (w 0)) queue tid (fst (w 0) d) of
        (Inl e, d') \<Rightarrow> (Some e, d')
      | (Inr msg, d') \<Rightarrow>
          (case Marshal (msg\<lparr>State := StatePending, RetryCount := 0, LastError := '''',
                  LastFailedAt := zero_time, CompletedAt := zero_time, RunAt := now\<rparr>) of
             None \<Rightarrow> (Some (wrap_err ''encode replayed dead letter'' marshal_error), d')
           | Some encoded \<Rightarrow>
               (case request call (w 1)
                  (replayArchivedScript (TaskKey queue tid) (ArchivedKey queue) (PendingKey queue)
                    (PendingRankKey queue) tid (Doc encoded)) d' of
                  (Inl e, d'') \<Rightarrow> (Some (wrap_err ''replay dead letter'' e), d'')
                | (Inr result, d'') \<Rightarrow>
                    if result = 0 then (Some ErrInvalidTransition, d'') else (None, d''))))"

definition DeleteDeadLetter ::
  "'db redis \<Rightarrow> (nat \<Rightarrow> 'db wire) \<Rightarrow> string \<Rightarrow> string \<Rightarrow> 'db \<Rightarrow> gerr option \<times> 'db" where
  "DeleteDeadLetter call w queue tid d =
     (case request call (w 0)
        (deleteArchivedScript (TaskKey queue tid) (ArchivedKey queue) tid) d of
        (Inl e, d') \<Rightarrow> (Some (wrap_err ''delete dead letter'' e), d')
      | (Inr result, d') \<Rightarrow>
          if result = 0 then
            (case GetDeadLetter call (snd (w 1)) queue tid (fst (w 1) d') of
               (Inl getErr, d'') \<Rightarrow> (Some getErr, d'')
             | (Inr _, d'') \<Rightarrow> (Some ErrInvalidTransition, d''))
          else (None, d'))"

definition CleanupDeadLetters ::
  "'db redis \<Rightarrow> fate \<Rightarrow> string \<Rightarrow> gotime \<Rightarrow> int \<Rightarrow> 'db \<Rightarrow> (int \<times> gerr option) \<times> 'db" where
  "CleanupDeadLetters call ft queue before limit d =
     (case script_Run call ft
        (cleanupArchivedScript (ArchivedKey queue) (Num (UnixMilli before))
          (if limit \<le> 0 then 100 else limit) (queuePrefix queue @ ''task:'')) d of
        (Inl e, d') \<Rightarrow> ((0, Some (wrap_err ''cleanup dead letters'' e)), d')
      | (Inr removed, d') \<Rightarrow> ((removed, None), d'))"

text \<open>The names that follow the key layout.\<close>

definition ListArchived ::
  "'db redis \<Rightarrow> (nat \<Rightarrow> 'db wire) \<Rightarrow> string \<Rightarrow> int \<Rightarrow> int \<Rightarrow> 'db \<Rightarrow> (gerr + TaskMessage list) \<times> 'db" where
  "ListArchived call w queue offset limit = ListDeadLetters call w queue offset limit"

definition GetArchived :: "'db redis \<Rightarrow> fate \<Rightarrow> string \<Rightarrow> string \<Rightarrow> 'db \<Rightarrow> (gerr + TaskMessage) \<times> 'db" where
  "GetArchived call ft queue tid = GetDeadLetter call ft queue tid"

definition ReplayArchived ::
  "'db redis \<Rightarrow> (nat \<Rightarrow> 'db wire) \<Rightarrow> gotime \<Rightarrow> string \<Rightarrow> string \<Rightarrow> 'db \<Rightarrow> gerr option \<times> 'db" where
  "ReplayArchived call w now queue tid = ReplayDeadLetter call w now queue tid"

definition DeleteArchived ::
  "'db redis \<Rightarrow> (nat \<Rightarrow> 'db wire) \<Rightarrow> string \<Rightarrow> string \<Rightarrow> 'db \<Rightarrow> gerr option \<times> 'db" where
  "DeleteArchived call w queue tid = DeleteDeadLetter call w queue tid"

definition CleanupArchived ::
  "'db redis \<Rightarrow> fate \<Rightarrow> string \<Rightarrow> gotime \<Rightarrow> int \<Rightarrow> 'db \<Rightarrow> (int \<times> gerr option) \<times> 'db" where
  "CleanupArchived call ft queue before limit = CleanupDeadLetters call ft queue before limit"


section \<open>Leases\<close>

text \<open>Nil entries of the task slice are skipped.\<close>

definition ExtendLease ::
  "'db redis \<Rightarrow> Store \<Rightarrow> fate \<Rightarrow> string \<Rightarrow> TaskMessage option list \<Rightarrow> gotime \<Rightarrow> duration \<Rightarrow> 'db
    \<Rightarrow> gerr option \<times> 'db" where
  "ExtendLease call s ft queue tasks now lease d =
     (let lease = (if lease \<le> 0 then leaseDuration s else lease) in
      if tasks = [] then (None, d) else
      let some = map the (filter (\<lambda>t. t \<noteq> None) tasks);
          keys = LeaseKey queue # map (\<lambda>t. TaskKey queue (ID t)) some;
          args = Num (UnixMilli (now + lease)) # concat (map (\<lambda>t. [Txt (ID t), Txt (AttemptID t)]) some)
      in if length keys = 1 then (None, d) else
      case script_Run call ft (extendLeaseScript keys args) d of
        (Inl e, d') \<Rightarrow> (Some (wrap_err ''extend task leases'' e), d')
      | (Inr _, d') \<Rightarrow> (None, d'))"

end
