(* ===== verification/QueueTasks.thy ===== *)
theory QueueTasks
  imports RedisStore
begin

text \<open>
  The durable tasks of a queue: \<open>task_of h\<close> is the message that \<open>Get\<close> reads from a task hash,
  \<open>q_lookup\<close> the map from ids to those messages. The lemmas say what each operation does to that map.
\<close>

definition task_of :: "(string \<rightharpoonup> bulk) \<Rightarrow> TaskMessage option" where
  "task_of h = (case decode_task [h ''msg'', h ''state'', h ''attempt_id''] of Inl _ \<Rightarrow> None | Inr m \<Rightarrow> Some m)"

definition q_lookup :: "qstate \<Rightarrow> string \<Rightarrow> TaskMessage option" where
  "q_lookup Q i = (case q_task Q i of None \<Rightarrow> None | Some h \<Rightarrow> task_of h)"

text \<open>What the hash and the message read from it have in common.\<close>

definition reads :: "string \<Rightarrow> string \<Rightarrow> (string \<rightharpoonup> bulk) \<Rightarrow> TaskMessage \<Rightarrow> bool" where
  "reads q i h t \<longleftrightarrow> task_of h = Some t \<and> h ''state'' = Some (Txt (State t)) \<and> ID t = i \<and> Queue t = q
     \<and> State t \<in> set task_states
     \<and> h ''attempt_id'' = (if State t = ''active'' then Some (Txt (AttemptID t)) else None)
     \<and> (AttemptID t \<noteq> [] \<longleftrightarrow> State t = ''active'')"


section \<open>Lemmas\<close>

lemma task_of_doc:
  assumes "h ''msg'' = Some (Doc j)" and "Unmarshal j = Some m" and "h ''state'' = Some (Txt s)"
    and "if s = ''active'' then h ''attempt_id'' = Some (Txt a) \<and> a \<noteq> [] else a = []"
  shows "task_of h = Some (m\<lparr>State := s, AttemptID := a\<rparr>)"
  using assms by (simp add: task_of_def split: if_splits)

lemma task_ok_doc:
  assumes "task_ok q i n h"
  obtains j m where "h ''msg'' = Some (Doc j)" and "Unmarshal j = Some m" and "ID m = i" and "Queue m = q"
  using assms by (auto simp: task_ok_def doc_ok_def split: option.splits)

lemma task_ok_reads:
  assumes "task_ok q i n h"
  shows "\<exists>t. reads q i h t"
proof -
  from assms obtain j m where j: "h ''msg'' = Some (Doc j)" "Unmarshal j = Some m" "ID m = i" "Queue m = q"
    by (rule task_ok_doc)
  from assms obtain s where s: "h ''state'' = Some (Txt s)" "s \<in> set task_states"
    unfolding task_ok_def by blast
  obtain a where a: "if s = ''active'' then h ''attempt_id'' = Some (Txt a) \<and> a \<noteq> []
      else h ''attempt_id'' = None \<and> a = []"
  proof (cases "s = ''active''")
    case True
    with assms s(1) that show thesis unfolding task_ok_def by auto
  next
    case False
    with assms s(1) have "h ''attempt_id'' = None" unfolding task_ok_def by simp
    with False that show thesis by simp
  qed
  then have "task_of h = Some (m\<lparr>State := s, AttemptID := a\<rparr>)"
    by (intro task_of_doc [OF j(1,2) s(1)]) (simp split: if_splits)
  with j s a have "reads q i h (m\<lparr>State := s, AttemptID := a\<rparr>)"
    by (cases "s = ''active''") (simp_all add: reads_def)
  then show ?thesis ..
qed

lemma q_lookup_put_task [simp]: "q_lookup (put_task i h Q) = (q_lookup Q)(i := task_of h)"
  by (simp add: fun_eq_iff q_lookup_def)

lemma q_lookup_upd [simp]:
  "q_lookup (Q\<lparr>q_pending := l\<rparr>) = q_lookup Q" "q_lookup (Q\<lparr>q_rank := z\<rparr>) = q_lookup Q"
  "q_lookup (Q\<lparr>q_scheduled := z\<rparr>) = q_lookup Q" "q_lookup (Q\<lparr>q_retry := z\<rparr>) = q_lookup Q"
  "q_lookup (Q\<lparr>q_active := l\<rparr>) = q_lookup Q" "q_lookup (Q\<lparr>q_lease := z\<rparr>) = q_lookup Q"
  "q_lookup (Q\<lparr>q_archived := z\<rparr>) = q_lookup Q" "q_lookup (Q\<lparr>q_seq := n\<rparr>) = q_lookup Q"
  "q_lookup (set_source src z Q) = q_lookup Q"
  by (cases src; simp add: fun_eq_iff q_lookup_def)+

lemma q_lookup_reads:
  assumes "qinv q Q" and "q_lookup Q i = Some t"
  obtains h where "q_task Q i = Some h" and "reads q i h t" and "task_ok q i (q_seq Q) h"
proof -
  from assms(2) obtain h where h: "q_task Q i = Some h" "task_of h = Some t"
    by (auto simp: q_lookup_def split: option.splits)
  note ok = qinv_task [OF assms(1) h(1)]
  from task_ok_reads [OF this] h(2) have "reads q i h t" by (auto simp: reads_def)
  with h ok that show thesis by blast
qed

lemma q_task_reads:
  assumes "qinv q Q" and "q_task Q i = Some h"
  obtains t where "q_lookup Q i = Some t" and "reads q i h t"
  using task_ok_reads [OF qinv_task [OF assms]] assms(2) that
  by (auto simp: q_lookup_def reads_def)

lemma q_lookup_None: "qinv q Q \<Longrightarrow> q_lookup Q i = None \<longleftrightarrow> q_task Q i = None"
  by (cases "q_task Q i") (simp add: q_lookup_def, auto elim: q_task_reads)

lemma in_state_lookup:
  assumes "qinv q Q"
  shows "i \<in> in_state Q s \<longleftrightarrow> (\<exists>t. q_lookup Q i = Some t \<and> State t = s)"
proof
  assume "i \<in> in_state Q s"
  then obtain h where h: "q_task Q i = Some h" "h ''state'' = Some (Txt s)" using in_state_task by blast
  obtain t where "q_lookup Q i = Some t" "reads q i h t" using q_task_reads [OF assms h(1)] .
  with h(2) show "\<exists>t. q_lookup Q i = Some t \<and> State t = s" by (auto simp: reads_def)
next
  assume "\<exists>t. q_lookup Q i = Some t \<and> State t = s"
  then obtain t where t: "q_lookup Q i = Some t" "State t = s" by blast
  obtain h where "q_task Q i = Some h" "reads q i h t" using q_lookup_reads [OF assms t(1)] .
  with t(2) show "i \<in> in_state Q s" by (simp add: in_state_def reads_def)
qed

lemma q_owned_lookup:
  assumes "qinv q Q"
  shows "q_owned Q i a \<longleftrightarrow> (\<exists>t. q_lookup Q i = Some t \<and> State t = ''active'' \<and> AttemptID t = a)"
proof
  assume own: "q_owned Q i a"
  then obtain h where h: "q_task Q i = Some h" using q_owned_task by blast
  obtain t where t: "q_lookup Q i = Some t" "reads q i h t" using q_task_reads [OF assms h] .
  have hs: "h ''state'' = Some (Txt ''active'')" "h ''attempt_id'' = Some (Txt a)"
    using own h by (simp_all add: q_owned_def)
  have "State t = ''active''" using t(2) hs(1) unfolding reads_def by simp
  moreover from this have "AttemptID t = a" using t(2) hs(2) unfolding reads_def by simp
  ultimately show "\<exists>t. q_lookup Q i = Some t \<and> State t = ''active'' \<and> AttemptID t = a" using t(1) by blast
next
  assume "\<exists>t. q_lookup Q i = Some t \<and> State t = ''active'' \<and> AttemptID t = a"
  then obtain t where t: "q_lookup Q i = Some t" "State t = ''active''" "AttemptID t = a" by blast
  obtain h where "q_task Q i = Some h" "reads q i h t" using q_lookup_reads [OF assms t(1)] .
  with t(2,3) show "q_owned Q i a" by (simp add: q_owned_def reads_def)
qed


section \<open>What the operations do to the tasks\<close>

lemma same_but_state:
  "t = m\<lparr>State := x, AttemptID := y\<rparr> \<Longrightarrow> m\<lparr>State := s, AttemptID := a\<rparr> = t\<lparr>State := s, AttemptID := a\<rparr>"
  by simp

lemma task_of_SomeD:
  assumes "task_of h = Some t"
  obtains j m where "h ''msg'' = Some (Doc j)" and "Unmarshal j = Some m"
    and "t = m\<lparr>State := State t, AttemptID := AttemptID t\<rparr>"
proof -
  from assms obtain b where b: "h ''msg'' = Some b" by (cases "h ''msg''") (simp_all add: task_of_def)
  obtain s where s: "h ''state'' = Some s" using assms b by (cases "h ''state''") (simp_all add: task_of_def)
  obtain m where m: "Unmarshal_bulk b = Some m"
    using assms b s by (cases "Unmarshal_bulk b") (simp_all add: task_of_def)
  then obtain j where j: "b = Doc j" by (cases b) simp_all
  have "t = m\<lparr>State := State t, AttemptID := AttemptID t\<rparr>"
    using assms b s m by (auto simp: task_of_def Let_def split: option.splits if_splits)
  with b m j that show thesis by simp
qed

lemma task_of_cong:
  assumes "task_of h = Some t" and "h' ''msg'' = h ''msg''" and "h' ''state'' = Some (Txt s)"
    and "if s = ''active'' then h' ''attempt_id'' = Some (Txt a) \<and> a \<noteq> [] else a = []"
  shows "task_of h' = Some (t\<lparr>State := s, AttemptID := a\<rparr>)"
proof -
  obtain j m where j: "h ''msg'' = Some (Doc j)" "Unmarshal j = Some m" "t = m\<lparr>State := State t, AttemptID := AttemptID t\<rparr>"
    using task_of_SomeD [OF assms(1)] .
  have "task_of h' = Some (m\<lparr>State := s, AttemptID := a\<rparr>)"
    using assms(2-4) j(1,2) by (intro task_of_doc) simp_all
  also have "m\<lparr>State := s, AttemptID := a\<rparr> = t\<lparr>State := s, AttemptID := a\<rparr>"
    by (rule same_but_state [OF j(3)])
  finally show ?thesis .
qed

lemma task_of_new:
  assumes "Marshal m = Some j" and "h ''msg'' = Some (Doc j)" and "h ''state'' = Some (Txt s)" and "s \<noteq> ''active''"
  shows "task_of h = Some (m\<lparr>State := s, AttemptID := ''''\<rparr>)"
  using assms by (intro task_of_doc [where h = h and j = j]) (simp_all add: Unmarshal_Marshal)

lemma q_enqueue_lookup:
  assumes "Marshal m = Some j" and "q_task Q i = None" and "q_seq Q + 1 < 2 ^ 63"
  shows "q_lookup (snd (q_enqueue j i p r Q)) = (q_lookup Q)(i \<mapsto> m\<lparr>State := ''pending'', AttemptID := ''''\<rparr>)"
proof -
  have "task_of (new_task j ''pending'' p r rm) = Some (m\<lparr>State := ''pending'', AttemptID := ''''\<rparr>)" for rm
    by (rule task_of_new [OF assms(1)]) (simp_all add: new_task_def)
  with assms(2,3) show ?thesis by (simp add: q_enqueue_def Let_def)
qed

lemma q_schedule_lookup:
  assumes "Marshal m = Some j" and "q_task Q i = None" and "q_seq Q + 1 < 2 ^ 63"
  shows "q_lookup (snd (q_schedule j i p r at Q)) = (q_lookup Q)(i \<mapsto> m\<lparr>State := ''scheduled'', AttemptID := ''''\<rparr>)"
proof -
  have "task_of (new_task j ''scheduled'' p r rm) = Some (m\<lparr>State := ''scheduled'', AttemptID := ''''\<rparr>)" for rm
    by (rule task_of_new [OF assms(1)]) (simp_all add: new_task_def)
  with assms(2,3) show ?thesis by (simp add: q_schedule_def Let_def)
qed

lemma q_lookup_release [simp]: "q_lookup (q_release i h Q) = (q_lookup Q)(i := task_of (h(''attempt_id'' := None)))"
  by (simp add: q_release_def)

lemma q_lookup_make_pending [simp]:
  "q_lookup (make_pending i h Q) = (q_lookup Q)(i := task_of (h(''state'' \<mapsto> Txt ''pending'')))"
  by (simp add: make_pending_def)

lemma q_finish_lookup:
  assumes "q_owned Q i a"
  shows "Marshal m = Some j \<Longrightarrow> q_lookup (snd (q_ack i j at a Q)) =
           (q_lookup Q)(i \<mapsto> m\<lparr>State := ''completed'', AttemptID := ''''\<rparr>)"
    and "Marshal m = Some j \<Longrightarrow> q_lookup (snd (q_schedule_retry i j at reason a Q)) =
           (q_lookup Q)(i \<mapsto> m\<lparr>State := ''retry'', AttemptID := ''''\<rparr>)"
    and "Marshal m = Some j \<Longrightarrow> q_lookup (snd (q_archive i j reason at a Q)) =
           (q_lookup Q)(i \<mapsto> m\<lparr>State := ''archived'', AttemptID := ''''\<rparr>)"
proof -
  have *: "Marshal m = Some j \<Longrightarrow> h ''msg'' = Some (Doc j) \<Longrightarrow> h ''state'' = Some (Txt s) \<Longrightarrow> s \<noteq> ''active'' \<Longrightarrow>
     (q_lookup Q)(i := task_of h) = (q_lookup Q)(i \<mapsto> m\<lparr>State := s, AttemptID := ''''\<rparr>)" for h s
    by (simp add: task_of_new)
  show "Marshal m = Some j \<Longrightarrow> q_lookup (snd (q_ack i j at a Q)) =
           (q_lookup Q)(i \<mapsto> m\<lparr>State := ''completed'', AttemptID := ''''\<rparr>)"
    "Marshal m = Some j \<Longrightarrow> q_lookup (snd (q_schedule_retry i j at reason a Q)) =
           (q_lookup Q)(i \<mapsto> m\<lparr>State := ''retry'', AttemptID := ''''\<rparr>)"
    "Marshal m = Some j \<Longrightarrow> q_lookup (snd (q_archive i j reason at a Q)) =
           (q_lookup Q)(i \<mapsto> m\<lparr>State := ''archived'', AttemptID := ''''\<rparr>)"
    using assms by (simp_all add: q_ack_def q_schedule_retry_def q_archive_def) (rule *; simp)+
qed

lemma q_requeue_lookup:
  assumes "q_owned Q i a" and "q_lookup Q i = Some t"
  shows "q_lookup (snd (q_requeue i a Q)) = (q_lookup Q)(i \<mapsto> t\<lparr>State := ''pending'', AttemptID := ''''\<rparr>)"
proof -
  have "task_of (q_fields Q i) = Some t" using assms(2) by (simp add: q_lookup_def q_fields_def split: option.splits)
  then have "task_of ((q_fields Q i)(''attempt_id'' := None, ''state'' \<mapsto> Txt ''pending'')) =
      Some (t\<lparr>State := ''pending'', AttemptID := ''''\<rparr>)"
    by (rule task_of_cong) simp_all
  with assms(1) show ?thesis by (simp add: q_requeue_def)
qed

lemma q_move_one_lookup:
  assumes "q_lookup Q i = Some t"
  shows "q_lookup (q_move_one src i Q) = (q_lookup Q)(i \<mapsto> t\<lparr>State := ''pending'', AttemptID := ''''\<rparr>)"
proof -
  have "task_of (q_fields Q i) = Some t" using assms by (simp add: q_lookup_def q_fields_def split: option.splits)
  then have "task_of ((q_fields Q i)(''state'' \<mapsto> Txt ''pending'')) =
      Some (t\<lparr>State := ''pending'', AttemptID := ''''\<rparr>)"
    by (rule task_of_cong) simp_all
  then show ?thesis by (simp add: q_move_one_def)
qed

lemma q_replay_lookup:
  assumes "q_archived_task Q i" and "Marshal m = Some j"
  shows "q_lookup (snd (q_replay i j Q)) = (q_lookup Q)(i \<mapsto> m\<lparr>State := ''pending'', AttemptID := ''''\<rparr>)"
proof -
  have "task_of ((q_fields Q i)(''msg'' \<mapsto> Doc j, ''state'' \<mapsto> Txt ''pending'')) =
      Some (m\<lparr>State := ''pending'', AttemptID := ''''\<rparr>)"
    by (rule task_of_new [OF assms(2)]) simp_all
  with assms(1) show ?thesis by (simp add: q_replay_def)
qed

lemma q_drop_archived_lookup [simp]: "q_lookup (q_drop_archived i Q) = (q_lookup Q)(i := None)"
  by (simp add: q_drop_archived_def q_lookup_def fun_eq_iff)

lemma q_extend_lookup [simp]: "q_lookup (q_extend expires ps Q) = q_lookup Q"
  unfolding q_extend_def by (induction ps arbitrary: Q) (simp_all add: q_extend_one_def)

text \<open>A claim hands out the task at the head of the ranking, which is pending.\<close>

lemma q_claim_lookup:
  assumes "qinv q Q" and "q_rank Q = (s, rm) # zs" and "a \<noteq> []"
  obtains t j where "q_lookup Q (drop 21 rm) = Some t" and "State t = ''pending''"
    and "fst (q_claim now expires a Q) = (1, Doc j)"
    and "\<exists>m. Unmarshal j = Some m \<and> m\<lparr>State := ''active'', AttemptID := a\<rparr> = t\<lparr>State := ''active'', AttemptID := a\<rparr>"
    and "q_lookup (snd (q_claim now expires a Q)) =
         (q_lookup Q)(drop 21 rm \<mapsto> t\<lparr>State := ''active'', AttemptID := a\<rparr>)"
proof -
  let ?i = "drop 21 rm"
  have "?i \<in> in_state Q ''pending''" using rank_head [OF assms(1,2)] by blast
  then obtain t where t: "q_lookup Q ?i = Some t" "State t = ''pending''"
    using in_state_lookup [OF assms(1)] by blast
  obtain h where h: "q_task Q ?i = Some h" "task_of h = Some t"
    using t(1) by (auto simp: q_lookup_def split: option.splits)
  obtain j m where j: "h ''msg'' = Some (Doc j)" "Unmarshal j = Some m" "t = m\<lparr>State := State t, AttemptID := AttemptID t\<rparr>"
    using task_of_SomeD [OF h(2)] .
  have "task_of (h(''state'' \<mapsto> Txt ''active'', ''active_since'' \<mapsto> Num now, ''attempt_id'' \<mapsto> Txt a)) =
      Some (t\<lparr>State := ''active'', AttemptID := a\<rparr>)"
    using assms(3) by (intro task_of_cong [OF h(2)]) simp_all
  then have "q_lookup (snd (q_claim now expires a Q)) = (q_lookup Q)(?i \<mapsto> t\<lparr>State := ''active'', AttemptID := a\<rparr>)"
    using assms(2) h(1) by (simp add: q_claim_def Let_def)
  moreover have "fst (q_claim now expires a Q) = (1, Doc j)"
    using assms(2) h(1) j(1) by (simp add: q_claim_def Let_def)
  moreover have "m\<lparr>State := ''active'', AttemptID := a\<rparr> = t\<lparr>State := ''active'', AttemptID := a\<rparr>"
    by (rule same_but_state [OF j(3)])
  ultimately show thesis using that t j(2) by blast
qed

end
