(* ===== verification/StoreSpec.thy ===== *)
theory StoreSpec
  imports QueueTasks
begin

text \<open>
  What the Go methods do, for any server that behaves as documented: each method's result and the
  queue it leaves, by the fate of its requests; and the invariant of the whole store, which every
  method keeps under any interference that keeps it.
\<close>

section \<open>The store invariant\<close>

definition queue_ok :: "string \<Rightarrow> keyspace \<Rightarrow> bool" where
  "queue_ok q ks \<longleftrightarrow> queue_typed q ks \<and> qinv q (queue_view q ks)"

definition store_ok :: "keyspace \<Rightarrow> bool" where
  "store_ok ks \<longleftrightarrow> (\<forall>q. queue_name_ok q \<longrightarrow> queue_ok q ks)"

text \<open>The durable task of a queue with an id.\<close>

definition tasks :: "keyspace \<Rightarrow> string \<Rightarrow> string \<Rightarrow> TaskMessage option" where
  "tasks ks q i = q_lookup (queue_view q ks) i"

text \<open>What the caller sees of a request, and what the request leaves of a queue.\<close>

definition reply_of :: "fate \<Rightarrow> (gerr + 'a) \<Rightarrow> gerr + 'a" where
  "reply_of ft r = (case ft of Delivered \<Rightarrow> r | NotSent e \<Rightarrow> Inl e | ReplyLost e \<Rightarrow> Inl e)"

definition left_by :: "fate \<Rightarrow> 'q \<Rightarrow> 'q \<Rightarrow> 'q" where
  "left_by ft Q Q' = (case ft of NotSent e \<Rightarrow> Q | _ \<Rightarrow> Q')"

definition becomes :: "string \<Rightarrow> keyspace \<Rightarrow> keyspace \<Rightarrow> qstate \<Rightarrow> bool" where
  "becomes q ks ks' Q' \<longleftrightarrow> queue_typed q ks' \<and> queue_view q ks' = Q' \<and> same_outside q ks ks'"


section \<open>Lemmas\<close>

lemma reply_of_simps [simp]:
  "reply_of Delivered r = r" "reply_of (NotSent e) r = Inl e" "reply_of (ReplyLost e) r = Inl e"
  by (simp_all add: reply_of_def)

lemma left_by_simps [simp]:
  "left_by Delivered Q Q' = Q'" "left_by (NotSent e) Q Q' = Q" "left_by (ReplyLost e) Q Q' = Q'" "left_by ft Q Q = Q"
  by (simp_all add: left_by_def split: fate.splits)

lemma left_by_cases: "left_by ft Q Q' = Q \<or> left_by ft Q Q' = Q'"
  by (cases ft) simp_all

lemma same_outside_keys:
  assumes "same_outside q ks ks'" and "queue_name_ok q" and "queue_name_ok q'" and "q' \<noteq> q" and "key_of q' k"
  shows "ks' k = ks k"
  using assms key_of_unique unfolding same_outside_def by blast

lemma other_queue:
  assumes "same_outside q ks ks'" and "queue_name_ok q" and "queue_name_ok q'" and "q' \<noteq> q"
  shows "queue_view q' ks' = queue_view q' ks" and "queue_typed q' ks' = queue_typed q' ks"
proof -
  note k = same_outside_keys [OF assms]
  show "queue_view q' ks' = queue_view q' ks"
    unfolding queue_view_def as_list_def as_zset_def as_int_def by (simp add: k)
  show "queue_typed q' ks' = queue_typed q' ks"
    unfolding queue_typed_def as_list_def as_zset_def as_int_def by (simp add: k)
qed

lemma store_okD: "store_ok ks \<Longrightarrow> queue_name_ok q \<Longrightarrow> queue_typed q ks \<and> qinv q (queue_view q ks)"
  by (simp add: store_ok_def queue_ok_def)

lemma store_ok_becomes:
  assumes "store_ok ks" and "queue_name_ok q" and "becomes q ks ks' Q'" and "qinv q Q'"
  shows "store_ok ks'"
  unfolding store_ok_def queue_ok_def
proof (intro allI impI)
  fix q' assume ok: "queue_name_ok q'"
  show "queue_typed q' ks' \<and> qinv q' (queue_view q' ks')"
  proof (cases "q' = q")
    case True
    with assms(3,4) show ?thesis by (simp add: becomes_def)
  next
    case False
    with assms(2,3) ok have "queue_view q' ks' = queue_view q' ks" "queue_typed q' ks' = queue_typed q' ks"
      using other_queue [of q ks ks' q'] by (simp_all add: becomes_def)
    with store_okD [OF assms(1) ok] show ?thesis by simp
  qed
qed

lemma becomes_refl [intro]: "queue_typed q ks \<Longrightarrow> becomes q ks ks (queue_view q ks)"
  by (simp add: becomes_def)

lemma becomes_tasks:
  assumes "becomes q ks ks' Q'"
  shows "tasks ks' q = q_lookup Q'"
    and "queue_name_ok q \<Longrightarrow> queue_name_ok q' \<Longrightarrow> q' \<noteq> q \<Longrightarrow> tasks ks' q' = tasks ks q'"
  using assms other_queue(1) by (auto simp: becomes_def tasks_def fun_eq_iff)

lemma store_ok_empty: "store_ok (\<lambda>_. None)"
proof -
  have "queue_view q (\<lambda>_. None) = empty_queue" for q
    by (simp add: queue_view_def empty_queue_def task_view_def as_list_def as_zset_def as_int_def)
  moreover have "queue_typed q (\<lambda>_. None)" for q
    by (simp add: queue_typed_def hash_or_absent_def as_list_def as_zset_def as_int_def)
  ultimately show ?thesis by (simp add: store_ok_def queue_ok_def qinv_empty)
qed

lemma doc_ok_Marshal: "Marshal m = Some j \<Longrightarrow> ID m = i \<Longrightarrow> Queue m = q \<Longrightarrow> doc_ok q i j"
  by (simp add: doc_ok_def Unmarshal_Marshal)

lemma length_hex: "length (hex_EncodeToString bs) = 2 * length bs"
  unfolding hex_EncodeToString_def by (induction bs) simp_all

lemma hex_nonempty: "newAttemptID rnd = Inr a \<Longrightarrow> length a = 32 \<and> a \<noteq> []"
  by (cases rnd) (auto simp: newAttemptID_def length_hex dest: arg_cong [of _ _ length])

lemma settle_sel:
  "snd (settle what zero upd msg r) = snd r"
  "fst (settle what zero upd msg r) = (case fst r of Inl e \<Rightarrow> (Some (wrap_err what e), msg)
     | Inr n \<Rightarrow> if n = 0 then (Some zero, msg) else (None, upd msg))"
  by (simp_all add: settle_def split: prod.splits sum.splits)

text \<open>A script that refines an abstract operation, run for a caller.\<close>

context redis_server
begin

lemma script_Run_executes:
  assumes "executes q s (view d) r Q'" and "queue_typed q (view d)"
  shows "fst (script_Run call ft s d) = reply_of ft r"
    and "becomes q (view d) (view (snd (script_Run call ft s d))) (left_by ft (queue_view q (view d)) Q')"
proof -
  obtain ks' where ks': "run redis_doc s (view d) = (r, ks')" "becomes q (view d) ks' Q'"
    using assms(1) by (auto simp: executes_def becomes_def)
  have "fst (script_Run call ft s d) = fst (script_Run redis_doc ft s (view d))"
    and v: "view (snd (script_Run call ft s d)) = snd (script_Run redis_doc ft s (view d))"
    by (simp_all flip: script_Run_documented)
  with ks'(1) show "fst (script_Run call ft s d) = reply_of ft r"
    by (simp add: script_Run_def reply_of_def split: fate.splits)
  show "becomes q (view d) (view (snd (script_Run call ft s d))) (left_by ft (queue_view q (view d)) Q')"
    unfolding v using ks' becomes_refl [OF assms(2)] by (cases ft) (simp_all add: script_Run_def)
qed

lemma Enqueue_effect:
  assumes "queue_typed (Queue m) (view d)" and "Validate (Some m) = None" and "Marshal m = Some j"
    and "Q = queue_view (Queue m) (view d)"
    and op_def: "op = q_enqueue j (ID m) (Priority m) (taskRank m) Q"
  shows "fst (Enqueue call ft m d) = (case reply_of ft (fst op) of
            Inl e \<Rightarrow> (Some (wrap_err ''enqueue task'' e), m)
          | Inr n \<Rightarrow> if n = 0 then (Some ErrTaskExists, m) else (None, m\<lparr>State := ''pending''\<rparr>))"
    and "becomes (Queue m) (view d) (view (snd (Enqueue call ft m d))) (left_by ft Q (snd op))"
  using script_Run_executes [OF enqueueScript_refines [OF assms(1) refl] assms(1)] assms(2-4)
  by (simp_all add: Enqueue_def settle_sel op_def del: Validate.simps)

lemma Schedule_effect:
  assumes "queue_typed (Queue m) (view d)" and "Validate (Some m) = None" and "Marshal m = Some j"
    and "\<not> IsZero (RunAt m)" and "Q = queue_view (Queue m) (view d)"
    and op_def: "op = q_schedule j (ID m) (Priority m) (taskRank m) (UnixMilli (RunAt m)) Q"
  shows "fst (Schedule call ft m d) = (case reply_of ft (fst op) of
            Inl e \<Rightarrow> (Some (wrap_err ''schedule task'' e), m)
          | Inr n \<Rightarrow> if n = 0 then (Some ErrTaskExists, m) else (None, m\<lparr>State := ''scheduled''\<rparr>))"
    and "becomes (Queue m) (view d) (view (snd (Schedule call ft m d))) (left_by ft Q (snd op))"
  using script_Run_executes [OF scheduleScript_refines [OF assms(1) refl] assms(1)] assms(2-5)
  by (simp_all add: Schedule_def settle_sel op_def del: Validate.simps)

lemma Claim_effect:
  assumes "queue_typed q (view d)" and "Q = queue_view q (view d)" and "qinv q Q" and "newAttemptID rnd = Inr a"
    and "ls = (if lease \<le> 0 then leaseDuration s else lease)"
    and op_def: "op = q_claim (UnixMilli now) (UnixMilli (now + ls)) a Q"
  shows "fst (Claim call s ft rnd q now lease d) = (case reply_of ft (Inr (fst op)) of
            Inl e \<Rightarrow> Inl (wrap_err ''claim task'' e)
          | Inr (status, v) \<Rightarrow> if status = 0 then Inl ErrQueueEmpty else
              (case Unmarshal_bulk v of None \<Rightarrow> Inl (wrap_err ''decode claimed task'' unmarshal_error)
               | Some msg \<Rightarrow> Inr (msg\<lparr>State := ''active'', AttemptID := a\<rparr>)))"
    and "becomes q (view d) (view (snd (Claim call s ft rnd q now lease d))) (left_by ft Q (snd op))"
proof -
  let ?r = "script_Run call ft (claimScript (TaskKey q []) (PendingRankKey q) (PendingKey q) (ActiveKey q)
     (LeaseKey q) (Num (UnixMilli now)) (Num (UnixMilli (now + ls))) (Txt a)) d"
  note ex = script_Run_executes [OF claimScript_refines [OF assms(1-3)] assms(1),
      of ft "UnixMilli now" "UnixMilli (now + ls)" a, folded op_def]
  have "Claim call s ft rnd q now lease d = (case ?r of
             (Inl e, d') \<Rightarrow> (Inl (wrap_err ''claim task'' e), d')
           | (Inr (status, v), d') \<Rightarrow>
               if status = 0 then (Inl ErrQueueEmpty, d')
               else (case Unmarshal_bulk v of
                   None \<Rightarrow> (Inl (wrap_err ''decode claimed task'' unmarshal_error), d')
                 | Some msg \<Rightarrow> (Inr (msg\<lparr>State := ''active'', AttemptID := a\<rparr>), d')))"
    by (simp only: Claim_def assms(4,5) Let_def sum.case StateActive_def)
  then show "fst (Claim call s ft rnd q now lease d) = (case reply_of ft (Inr (fst op)) of
            Inl e \<Rightarrow> Inl (wrap_err ''claim task'' e)
          | Inr (status, v) \<Rightarrow> if status = 0 then Inl ErrQueueEmpty else
              (case Unmarshal_bulk v of None \<Rightarrow> Inl (wrap_err ''decode claimed task'' unmarshal_error)
               | Some msg \<Rightarrow> Inr (msg\<lparr>State := ''active'', AttemptID := a\<rparr>)))"
    and "becomes q (view d) (view (snd (Claim call s ft rnd q now lease d))) (left_by ft Q (snd op))"
    using ex assms(2) by (auto split: prod.splits sum.splits option.splits)
qed

lemma Requeue_effect:
  assumes "queue_typed (Queue m) (view d)" and "Q = queue_view (Queue m) (view d)" and "qinv (Queue m) Q"
    and op_def: "op = q_requeue (ID m) (AttemptID m) Q"
  shows "fst (Requeue call ft m d) = (case reply_of ft (Inr (fst op)) of
            Inl e \<Rightarrow> (Some (wrap_err ''requeue task'' e), m)
          | Inr n \<Rightarrow> if n = 0 then (Some ErrInvalidTransition, m)
                     else (None, m\<lparr>State := ''pending'', AttemptID := []\<rparr>))"
    and "becomes (Queue m) (view d) (view (snd (Requeue call ft m d))) (left_by ft Q (snd op))"
  using script_Run_executes [OF requeueScript_refines [OF assms(1-3)] assms(1)] assms(2)
  by (simp_all add: Requeue_def settle_sel op_def)

lemma AckSuccess_effect:
  assumes "queue_typed (Queue m) (view d)" and "Q = queue_view (Queue m) (view d)"
    and "m' = m\<lparr>State := ''completed'', AttemptID := [], CompletedAt := now\<rparr>" and "Marshal m' = Some j"
    and op_def: "op = q_ack (ID m) j (UnixMilli now) (AttemptID m) Q"
  shows "fst (AckSuccess call ft now m d) = (case reply_of ft (Inr (fst op)) of
            Inl e \<Rightarrow> (Some (wrap_err ''ack task'' e), m)
          | Inr n \<Rightarrow> if n = 0 then (Some ErrInvalidTransition, m) else (None, m'))"
    and "becomes (Queue m) (view d) (view (snd (AckSuccess call ft now m d))) (left_by ft Q (snd op))"
  using script_Run_executes [OF ackScript_refines [OF assms(1) refl] assms(1)] assms(2-4)
  by (simp_all add: AckSuccess_def settle_sel op_def split: sum.splits)

lemma ScheduleRetry_effect:
  assumes "queue_typed (Queue m) (view d)" and "Q = queue_view (Queue m) (view d)"
    and "m' = m\<lparr>State := ''retry'', AttemptID := [], LastError := reason, LastFailedAt := now\<rparr>"
    and "Marshal m' = Some j"
    and op_def: "op = q_schedule_retry (ID m) j (UnixMilli at) reason (AttemptID m) Q"
  shows "fst (ScheduleRetry call ft now m at reason d) = (case reply_of ft (Inr (fst op)) of
            Inl e \<Rightarrow> (Some (wrap_err ''schedule retry'' e), m)
          | Inr n \<Rightarrow> if n = 0 then (Some ErrInvalidTransition, m) else (None, m'))"
    and "becomes (Queue m) (view d) (view (snd (ScheduleRetry call ft now m at reason d))) (left_by ft Q (snd op))"
  using script_Run_executes [OF retryScript_refines [OF assms(1) refl] assms(1)] assms(2-4)
  by (simp_all add: ScheduleRetry_def settle_sel op_def split: sum.splits)

lemma Archive_effect:
  assumes "queue_typed (Queue m) (view d)" and "Q = queue_view (Queue m) (view d)"
    and "m' = m\<lparr>State := ''archived'', AttemptID := [], LastError := reason\<rparr>"
    and "Marshal m' = Some j"
    and op_def: "op = q_archive (ID m) j reason (UnixMilli now) (AttemptID m) Q"
  shows "fst (Archive call ft now m reason d) = (case reply_of ft (Inr (fst op)) of
            Inl e \<Rightarrow> (Some (wrap_err ''archive task'' e), m)
          | Inr n \<Rightarrow> if n = 0 then (Some ErrInvalidTransition, m) else (None, m'))"
    and "becomes (Queue m) (view d) (view (snd (Archive call ft now m reason d))) (left_by ft Q (snd op))"
  using script_Run_executes [OF archiveScript_refines [OF assms(1) refl] assms(1)] assms(2-4)
  by (simp_all add: Archive_def settle_sel op_def split: sum.splits)

lemma CleanupDeadLetters_effect:
  assumes "queue_typed q (view d)" and "Q = queue_view q (view d)" and "qinv q Q"
    and lim_def: "lim = (if limit \<le> 0 then 100 else limit)"
    and op_def: "op = q_cleanup (UnixMilli before) lim Q"
  shows "fst (CleanupDeadLetters call ft q before limit d) = (case reply_of ft (Inr (fst op)) of
            Inl e \<Rightarrow> (0, Some (wrap_err ''cleanup dead letters'' e)) | Inr n \<Rightarrow> (n, None))"
    and "becomes q (view d) (view (snd (CleanupDeadLetters call ft q before limit d))) (left_by ft Q (snd op))"
proof -
  note ex = script_Run_executes [OF cleanupArchivedScript_refines(1) [OF assms(1-3)] assms(1),
      of ft "UnixMilli before" lim, folded op_def]
  have "queuePrefix q @ ''task:'' = TaskKey q []" by (simp add: TaskKey_def)
  note * = CleanupDeadLetters_def [of call ft q before limit d, unfolded this, folded lim_def]
  show "fst (CleanupDeadLetters call ft q before limit d) = (case reply_of ft (Inr (fst op)) of
            Inl e \<Rightarrow> (0, Some (wrap_err ''cleanup dead letters'' e)) | Inr n \<Rightarrow> (n, None))"
    and "becomes q (view d) (view (snd (CleanupDeadLetters call ft q before limit d))) (left_by ft Q (snd op))"
    unfolding * using ex assms(2) by (auto simp del: if_split split: prod.splits sum.splits)
qed

lemma script_Run_read:
  assumes "run redis_doc s (view d) = (r, view d)"
  shows "fst (script_Run call ft s d) = reply_of ft r" and "view (snd (script_Run call ft s d)) = view d"
proof -
  have "map_prod id view (script_Run call ft s d) = (reply_of ft r, view d)"
    unfolding script_Run_documented using assms by (cases ft) (simp_all add: script_Run_def)
  then show "fst (script_Run call ft s d) = reply_of ft r" and "view (snd (script_Run call ft s d)) = view d"
    by (cases "script_Run call ft s d", simp)+
qed

lemma Get_effect:
  assumes "queue_typed q (view d)" and "Q = queue_view q (view d)" and "qinv q Q"
  shows "fst (Get call ft q i d) = (case ft of
            Delivered \<Rightarrow> (case q_lookup Q i of None \<Rightarrow> Inl ErrTaskNotFound | Some t \<Rightarrow> Inr t)
          | NotSent e \<Rightarrow> Inl (wrap_err ''get task'' e) | ReplyLost e \<Rightarrow> Inl (wrap_err ''get task'' e))"
    and "view (snd (Get call ft q i d)) = view d"
proof -
  let ?s = "call_vals (HMGET (TaskKey q i) [''msg'', ''state'', ''attempt_id'']) Ret"
  let ?v = "[q_fields Q i ''msg'', q_fields Q i ''state'', q_fields Q i ''attempt_id'']"
  obtain h where h: "as_hash (view d) (TaskKey q i) = Some h" "map_of h = q_fields Q i"
    using queue_typed_as_hash [OF assms(1), of i] assms(2) by blast
  then have "run redis_doc ?s (view d) = (Inr ?v, view d)" by (simp add: call_vals_def)
  note rd = script_Run_read [OF this, of ft]
  show "view (snd (Get call ft q i d)) = view d"
    unfolding Get_def using rd(2) by (auto split: prod.splits sum.splits)
  have "decode_task ?v = (case q_lookup Q i of None \<Rightarrow> Inl ErrTaskNotFound | Some t \<Rightarrow> Inr t)"
  proof (cases "q_task Q i")
    case None
    then show ?thesis by (simp add: q_fields_def q_lookup_def)
  next
    case (Some h)
    then obtain t where t: "q_lookup Q i = Some t" "reads q i h t" using q_task_reads [OF assms(3)] by blast
    then have "task_of h = Some t" unfolding reads_def by blast
    with Some t(1) show ?thesis by (simp add: task_of_def split: sum.splits del: decode_task.simps)
  qed
  moreover have "fst (Get call ft q i d) = (case reply_of ft (Inr ?v) of
      Inl e \<Rightarrow> Inl (wrap_err ''get task'' e) | Inr vs \<Rightarrow> decode_task vs)"
    unfolding Get_def using rd(1) by (auto simp del: decode_task.simps split: prod.splits sum.splits)
  ultimately show "fst (Get call ft q i d) = (case ft of
            Delivered \<Rightarrow> (case q_lookup Q i of None \<Rightarrow> Inl ErrTaskNotFound | Some t \<Rightarrow> Inr t)
          | NotSent e \<Rightarrow> Inl (wrap_err ''get task'' e) | ReplyLost e \<Rightarrow> Inl (wrap_err ''get task'' e))"
    by (cases ft) (simp_all del: decode_task.simps)
qed

lemma GetDeadLetter_effect:
  assumes "queue_typed q (view d)" and "Q = queue_view q (view d)" and "qinv q Q"
  shows "fst (GetDeadLetter call ft q i d) = (case ft of
            Delivered \<Rightarrow> (case q_lookup Q i of None \<Rightarrow> Inl ErrTaskNotFound
               | Some t \<Rightarrow> if State t = ''archived'' then Inr t else Inl ErrInvalidTransition)
          | NotSent e \<Rightarrow> Inl (wrap_err ''get task'' e) | ReplyLost e \<Rightarrow> Inl (wrap_err ''get task'' e))"
    and "view (snd (GetDeadLetter call ft q i d)) = view d"
proof -
  note e = Get_effect [OF assms, of ft i]
  show "view (snd (GetDeadLetter call ft q i d)) = view d"
    unfolding GetDeadLetter_def using e(2) by (auto split: prod.splits sum.splits)
  have g: "fst (GetDeadLetter call ft q i d) = (case fst (Get call ft q i d) of Inl e \<Rightarrow> Inl e
      | Inr t \<Rightarrow> if State t = ''archived'' then Inr t else Inl ErrInvalidTransition)"
    unfolding GetDeadLetter_def by (cases "Get call ft q i d") (simp split: sum.split)
  show "fst (GetDeadLetter call ft q i d) = (case ft of
            Delivered \<Rightarrow> (case q_lookup Q i of None \<Rightarrow> Inl ErrTaskNotFound
               | Some t \<Rightarrow> if State t = ''archived'' then Inr t else Inl ErrInvalidTransition)
          | NotSent e \<Rightarrow> Inl (wrap_err ''get task'' e) | ReplyLost e \<Rightarrow> Inl (wrap_err ''get task'' e))"
    unfolding g e(1) by (cases ft) (simp_all split: option.split)
qed

lemma ExpiredIDs_effect:
  assumes "queue_typed q (view d)" and "Q = queue_view q (view d)"
  shows "fst (ExpiredIDs call ft now q limit d) =
           reply_of ft (Inr (take (nat (if limit \<le> 0 then 100 else limit)) (due (UnixMilli now) (q_lease Q))))"
    and "view (snd (ExpiredIDs call ft now q limit d)) = view d"
proof -
  define lim where "lim = (if limit \<le> 0 then 100 else limit)"
  have "0 \<le> lim" by (simp add: lim_def)
  then have "run redis_doc (call_strs (ZRANGEBYSCORE (LeaseKey q) (Num (UnixMilli now)) (Some (0, lim))) Ret) (view d) =
     (Inr (take (nat lim) (due (UnixMilli now) (q_lease Q))), view d)"
    using queue_typed_containers(5) [OF assms(1)] assms(2) by (simp add: call_strs_def due_def)
  from script_Run_read [OF this] show "fst (ExpiredIDs call ft now q limit d) =
           reply_of ft (Inr (take (nat (if limit \<le> 0 then 100 else limit)) (due (UnixMilli now) (q_lease Q))))"
    and "view (snd (ExpiredIDs call ft now q limit d)) = view d"
    unfolding ExpiredIDs_def lim_def [symmetric] by simp_all
qed

lemma counts_effect:
  assumes "queue_typed q (view d)" and "Q = queue_view q (view d)"
  shows "fst (PendingCount call ft q d) = reply_of ft (Inr (int (length (q_rank Q))))"
    and "fst (RetryCount_store call ft q d) = reply_of ft (Inr (int (length (q_retry Q))))"
    and "fst (ArchivedCount call ft q d) = reply_of ft (Inr (int (length (q_archived Q))))"
    and "view (snd (PendingCount call ft q d)) = view d"
    and "view (snd (RetryCount_store call ft q d)) = view d"
    and "view (snd (ArchivedCount call ft q d)) = view d"
proof -
  have card: "as_zset (view d) k = Some z \<Longrightarrow>
      run redis_doc (call_int (ZCARD k) Ret) (view d) = (Inr (int (length z)), view d)" for k z
    by (simp add: call_int_def)
  note c = queue_typed_containers [OF assms(1)] queue_typed_containers(4) [OF assms(1), of Retry, simplified]
  show "fst (PendingCount call ft q d) = reply_of ft (Inr (int (length (q_rank Q))))"
    "view (snd (PendingCount call ft q d)) = view d"
    unfolding PendingCount_def assms(2) by (rule script_Run_read [OF card [OF c(3)]])+
  show "fst (RetryCount_store call ft q d) = reply_of ft (Inr (int (length (q_retry Q))))"
    "view (snd (RetryCount_store call ft q d)) = view d"
    unfolding RetryCount_store_def assms(2) by (rule script_Run_read [OF card [OF c(8)]])+
  show "fst (ArchivedCount call ft q d) = reply_of ft (Inr (int (length (q_archived Q))))"
    "view (snd (ArchivedCount call ft q d)) = view d"
    unfolding ArchivedCount_def assms(2) by (rule script_Run_read [OF card [OF c(6)]])+
qed

lemma ExtendLease_effect:
  assumes "queue_typed q (view d)" and "Q = queue_view q (view d)"
    and "ls = (if lease \<le> 0 then leaseDuration s else lease)"
    and "ps = map (\<lambda>t. (ID (the t), AttemptID (the t))) (filter (\<lambda>t. t \<noteq> None) ts)"
  shows "fst (ExtendLease call s ft q ts now lease d) =
           (if ps = [] then None else case ft of Delivered \<Rightarrow> None
            | NotSent e \<Rightarrow> Some (wrap_err ''extend task leases'' e)
            | ReplyLost e \<Rightarrow> Some (wrap_err ''extend task leases'' e))"
    and "becomes q (view d) (view (snd (ExtendLease call s ft q ts now lease d)))
           (left_by ft Q (q_extend (UnixMilli (now + ls)) ps Q))"
proof -
  let ?r = "script_Run call ft (extendLeaseScript (extend_keys q ps) (extend_args (UnixMilli (now + ls)) ps)) d"
  have eq: "ExtendLease call s ft q ts now lease d = (if ps = [] then (None, d) else
      case ?r of (Inl e, d') \<Rightarrow> (Some (wrap_err ''extend task leases'' e), d') | (Inr _, d') \<Rightarrow> (None, d'))"
    by (auto simp: ExtendLease_def Let_def assms(3,4) extend_keys_def extend_args_def comp_def)
  obtain n where "executes q (extendLeaseScript (extend_keys q ps) (extend_args (UnixMilli (now + ls)) ps)) (view d)
     (Inr n) (q_extend (UnixMilli (now + ls)) ps Q)"
    using extendLeaseScript_refines [OF assms(1,2)] by blast
  note ex = script_Run_executes [OF this assms(1), of ft]
  show "fst (ExtendLease call s ft q ts now lease d) =
           (if ps = [] then None else case ft of Delivered \<Rightarrow> None
            | NotSent e \<Rightarrow> Some (wrap_err ''extend task leases'' e)
            | ReplyLost e \<Rightarrow> Some (wrap_err ''extend task leases'' e))"
    unfolding eq using ex(1) by (cases ft) (auto split: prod.splits sum.splits)
  show "becomes q (view d) (view (snd (ExtendLease call s ft q ts now lease d)))
           (left_by ft Q (q_extend (UnixMilli (now + ls)) ps Q))"
    unfolding eq using ex(2) assms(1,2) by (auto simp: q_extend_def becomes_refl split: prod.splits sum.splits)
qed

lemma move_request_effect:
  assumes "queue_typed q (view d)" and "Q = queue_view q (view d)" and "qinv q Q"
    and r_def: "r = script_Run call ft (moveReadyScript (source_key src q) (PendingKey q) (PendingRankKey q)
          (Num now) lim (queuePrefix q @ ''task:'')) d"
  shows "fst r = reply_of ft (Inr (fst (q_move_ready src now lim Q)))"
    and "becomes q (view d) (view (snd r)) (left_by ft Q (snd (q_move_ready src now lim Q)))"
proof -
  have "queuePrefix q @ ''task:'' = TaskKey q []" by (simp add: TaskKey_def)
  with script_Run_executes [OF moveReadyScript_refines(1) [OF assms(1-3)] assms(1)] assms(2)
  show "fst r = reply_of ft (Inr (fst (q_move_ready src now lim Q)))"
    and "becomes q (view d) (view (snd r)) (left_by ft Q (snd (q_move_ready src now lim Q)))"
    unfolding r_def by simp_all
qed


text \<open>Every method keeps the store invariant.\<close>

lemma left_by_keeps:
  assumes "store_ok (view d)" and "queue_name_ok q"
    and "becomes q (view d) (view d') (left_by ft (queue_view q (view d)) Q')" and "qinv q Q'"
  shows "store_ok (view d')"
  using store_ok_becomes [OF assms(1-3)] assms(4) store_okD [OF assms(1,2)] left_by_cases
  by metis

lemma Enqueue_keeps:
  assumes "store_ok (view d)" and "queue_name_ok (Queue m)"
  shows "store_ok (view (snd (Enqueue call ft m d)))"
proof (cases "Validate (Some m) = None \<and> (\<exists>j. Marshal m = Some j)")
  case True
  then obtain j where v: "Validate (Some m) = None" "Marshal m = Some j" by blast
  note t = store_okD [OF assms, THEN conjunct1] and i = store_okD [OF assms, THEN conjunct2]
  have "qinv (Queue m) (snd (q_enqueue j (ID m) (Priority m) (taskRank m) (queue_view (Queue m) (view d))))"
    by (rule q_enqueue_qinv [OF i doc_ok_Marshal [OF v(2) refl refl]])
  then show ?thesis by (rule left_by_keeps [OF assms Enqueue_effect(2) [OF t v refl refl]])
next
  case False
  with assms(1) show ?thesis
    by (auto simp: Enqueue_def simp del: Validate.simps split: option.splits)
qed

lemma Schedule_keeps:
  assumes "store_ok (view d)" and "queue_name_ok (Queue m)"
  shows "store_ok (view (snd (Schedule call ft m d)))"
proof (cases "Validate (Some m) = None \<and> (\<exists>j. Marshal m = Some j) \<and> \<not> IsZero (RunAt m)")
  case True
  then obtain j where v: "Validate (Some m) = None" "Marshal m = Some j" "\<not> IsZero (RunAt m)" by blast
  note t = store_okD [OF assms, THEN conjunct1] and i = store_okD [OF assms, THEN conjunct2]
  have "qinv (Queue m) (snd (q_schedule j (ID m) (Priority m) (taskRank m) (UnixMilli (RunAt m))
      (queue_view (Queue m) (view d))))"
    by (rule q_schedule_qinv [OF i doc_ok_Marshal [OF v(2) refl refl]])
  then show ?thesis by (rule left_by_keeps [OF assms Schedule_effect(2) [OF t v refl refl]])
next
  case False
  with assms(1) show ?thesis
    by (auto simp: Schedule_def simp del: Validate.simps split: option.splits)
qed

lemma Claim_keeps:
  assumes "store_ok (view d)" and "queue_name_ok q"
  shows "store_ok (view (snd (Claim call s ft rnd q now lease d)))"
proof (cases "newAttemptID rnd")
  case (Inl e)
  with assms(1) show ?thesis by (simp add: Claim_def)
next
  case (Inr a)
  note t = store_okD [OF assms, THEN conjunct1] and i = store_okD [OF assms, THEN conjunct2]
  have "qinv q (snd (q_claim (UnixMilli now) e a (queue_view q (view d))))" for e
    using hex_nonempty [OF Inr] i by (simp add: q_claim_qinv)
  then show ?thesis by (rule left_by_keeps [OF assms Claim_effect(2) [OF t refl i Inr refl refl]])
qed

lemma finish_keeps:
  assumes "store_ok (view d)" and "queue_name_ok (Queue m)"
  shows "store_ok (view (snd (AckSuccess call ft now m d)))"
    and "store_ok (view (snd (ScheduleRetry call ft now m at reason d)))"
    and "store_ok (view (snd (Archive call ft now m reason d)))"
    and "store_ok (view (snd (Requeue call ft m d)))"
proof -
  note t = store_okD [OF assms, THEN conjunct1] and i = store_okD [OF assms, THEN conjunct2]
  show "store_ok (view (snd (AckSuccess call ft now m d)))"
  proof (cases "Marshal (m\<lparr>State := ''completed'', AttemptID := [], CompletedAt := now\<rparr>)")
    case None
    with assms(1) show ?thesis by (simp add: AckSuccess_def)
  next
    case (Some j)
    show ?thesis
      by (rule left_by_keeps [OF assms AckSuccess_effect(2) [OF t refl refl Some refl]],
          rule q_ack_qinv [OF i], rule doc_ok_Marshal [OF Some]) simp_all
  qed
  show "store_ok (view (snd (ScheduleRetry call ft now m at reason d)))"
  proof (cases "Marshal (m\<lparr>State := ''retry'', AttemptID := [], LastError := reason, LastFailedAt := now\<rparr>)")
    case None
    with assms(1) show ?thesis by (simp add: ScheduleRetry_def)
  next
    case (Some j)
    show ?thesis
      by (rule left_by_keeps [OF assms ScheduleRetry_effect(2) [OF t refl refl Some refl]],
          rule q_schedule_retry_qinv [OF i], rule doc_ok_Marshal [OF Some]) simp_all
  qed
  show "store_ok (view (snd (Archive call ft now m reason d)))"
  proof (cases "Marshal (m\<lparr>State := ''archived'', AttemptID := [], LastError := reason\<rparr>)")
    case None
    with assms(1) show ?thesis by (simp add: Archive_def)
  next
    case (Some j)
    show ?thesis
      by (rule left_by_keeps [OF assms Archive_effect(2) [OF t refl refl Some refl]],
          rule q_archive_qinv [OF i], rule doc_ok_Marshal [OF Some]) simp_all
  qed
  show "store_ok (view (snd (Requeue call ft m d)))"
    by (rule left_by_keeps [OF assms Requeue_effect(2) [OF t refl i refl] q_requeue_qinv [OF i]])
qed

lemma reads_keep:
  assumes "store_ok (view d)" and "queue_name_ok q"
  shows "view (snd (Get call ft q i d)) = view d" and "view (snd (GetDeadLetter call ft q i d)) = view d"
    and "view (snd (ExpiredIDs call ft now q limit d)) = view d"
proof -
  note t = store_okD [OF assms, THEN conjunct1] and i = store_okD [OF assms, THEN conjunct2]
  show "view (snd (Get call ft q i d)) = view d" by (rule Get_effect(2) [OF t refl i])
  show "view (snd (GetDeadLetter call ft q i d)) = view d" by (rule GetDeadLetter_effect(2) [OF t refl i])
  show "view (snd (ExpiredIDs call ft now q limit d)) = view d" by (rule ExpiredIDs_effect(2) [OF t refl])
qed

lemma CleanupDeadLetters_keeps:
  assumes "store_ok (view d)" and "queue_name_ok q"
  shows "store_ok (view (snd (CleanupDeadLetters call ft q before limit d)))"
proof -
  note t = store_okD [OF assms, THEN conjunct1] and i = store_okD [OF assms, THEN conjunct2]
  show ?thesis
    by (rule left_by_keeps [OF assms CleanupDeadLetters_effect(2) [OF t refl i refl refl]
          cleanupArchivedScript_refines(2) [OF t refl i]])
qed

lemma ExtendLease_keeps:
  assumes "store_ok (view d)" and "queue_name_ok q"
  shows "store_ok (view (snd (ExtendLease call s ft q ts now lease d)))"
proof -
  note t = store_okD [OF assms, THEN conjunct1] and i = store_okD [OF assms, THEN conjunct2]
  show ?thesis
    by (rule left_by_keeps [OF assms ExtendLease_effect(2) [OF t refl refl refl] q_extend_qinv [OF i]])
qed

text \<open>The methods that issue several requests, under interference that keeps the invariant.\<close>

lemma MoveReady_loop_keeps:
  assumes "\<And>n d. store_ok (view d) \<Longrightarrow> store_ok (view (fst (w n) d))" and "store_ok (view d)"
    and "\<And>q k. (q, k) \<in> set qs \<Longrightarrow> queue_name_ok q \<and> (\<exists>src. k = source_key src q)"
  shows "store_ok (view (snd (MoveReady_loop call w now lim qs moved d)))"
  using assms
proof (induction qs arbitrary: w moved d)
  case (Cons e qs)
  obtain q k where e: "e = (q, k)" by fastforce
  with Cons.prems(3) obtain src where q: "queue_name_ok q" and k: "k = source_key src q" by auto
  define r where "r = request call (w 0) (moveReadyScript k (PendingKey q) (PendingRankKey q)
      (Num (UnixMilli now)) lim (queuePrefix q @ ''task:'')) d"
  let ?d = "fst (w 0) d"
  have d: "store_ok (view ?d)" using Cons.prems(1,2) by blast
  note t = store_okD [OF d q, THEN conjunct1] and i = store_okD [OF d q, THEN conjunct2]
  have "store_ok (view (snd r))"
    unfolding r_def request_def k
    by (rule left_by_keeps [OF d q move_request_effect(2) [OF t refl i refl] moveReadyScript_refines(2) [OF t refl i]])
  moreover from this have "store_ok (view (snd (MoveReady_loop call (\<lambda>n. w (Suc n)) now lim qs n (snd r))))" for n
    using Cons.prems by (intro Cons.IH) auto
  ultimately show ?case
    by (auto simp: e r_def [symmetric] split: prod.splits sum.splits)
qed simp

lemma MoveReady_keeps:
  assumes "\<And>n d. store_ok (view d) \<Longrightarrow> store_ok (view (fst (w n) d))" and "store_ok (view d)"
    and "\<And>q. q \<in> set qs \<Longrightarrow> queue_name_ok q"
  shows "store_ok (view (snd (MoveReady call w now limit qs d)))"
  unfolding MoveReady_def
proof (rule MoveReady_loop_keeps [OF assms(1,2)])
  fix q k assume "(q, k) \<in> set (concat (map (\<lambda>q. [(q, ScheduledKey q), (q, RetryKey q)]) qs))"
  then have q: "q \<in> set qs" and "k = source_key Scheduled q \<or> k = source_key Retry q" by auto
  then show "queue_name_ok q \<and> (\<exists>src. k = source_key src q)" using assms(3) by blast
qed

lemma ListDeadLetters_keeps:
  assumes "\<And>n d. store_ok (view d) \<Longrightarrow> store_ok (view (fst (w n) d))" and "store_ok (view d)" and "queue_name_ok q"
  shows "store_ok (view (snd (ListDeadLetters call w q offset limit d)))"
proof -
  have loop: "store_ok (view (snd (ListDeadLetters_loop call w q ids res d)))"
    if "\<And>n d. store_ok (view d) \<Longrightarrow> store_ok (view (fst (w n) d))" and "store_ok (view d)" for w ids res d
    using that
  proof (induction ids arbitrary: w res d)
    case (Cons i ids)
    let ?r = "GetDeadLetter call (snd (w 0)) q i (fst (w 0) d)"
    have "store_ok (view (fst (w 0) d))" using Cons.prems by blast
    then have "store_ok (view (snd ?r))" using reads_keep(2) assms(3) by metis
    moreover from this have "store_ok (view (snd (ListDeadLetters_loop call (\<lambda>n. w (Suc n)) q ids res' (snd ?r))))" for res'
      using Cons.prems by (intro Cons.IH) auto
    ultimately show ?case by (auto split: prod.splits sum.splits)
  qed simp
  define z where "z = (if limit \<le> 0 then 100 else limit)"
  define r where "r = request call (w 0)
      (call_strs (ZRANGE (ArchivedKey q) offset (wrap64 (offset + z - 1))) Ret) d"
  have d: "store_ok (view (fst (w 0) d))" using assms by blast
  note c = queue_typed_containers(6) [OF store_okD [OF d assms(3), THEN conjunct1]]
  have "run redis_doc (call_strs (ZRANGE (ArchivedKey q) offset (wrap64 (offset + z - 1))) Ret) (view (fst (w 0) d)) =
     (Inr (zslice offset (wrap64 (offset + z - 1)) (zmembers (q_archived (queue_view q (view (fst (w 0) d)))))), view (fst (w 0) d))"
    by (simp add: call_strs_def c)
  from script_Run_read(2) [OF this] d have "store_ok (view (snd r))" unfolding r_def request_def by simp
  moreover from this have "store_ok (view (snd (ListDeadLetters_loop call (\<lambda>n. w (Suc n)) q ids [] (snd r))))" for ids
    using assms(1) by (intro loop) auto
  ultimately show ?thesis using assms(2)
    by (auto simp: ListDeadLetters_def Let_def z_def [symmetric] r_def [symmetric] split: prod.splits sum.splits)
qed

lemma ReplayDeadLetter_keeps:
  assumes "\<And>n d. store_ok (view d) \<Longrightarrow> store_ok (view (fst (w n) d))" and "store_ok (view d)" and "queue_name_ok q"
  shows "store_ok (view (snd (ReplayDeadLetter call w now q i d)))"
proof -
  define g where "g = GetDeadLetter call (snd (w 0)) q i (fst (w 0) d)"
  have d0: "store_ok (view (fst (w 0) d))" using assms by blast
  note t0 = store_okD [OF d0 assms(3), THEN conjunct1] and i0 = store_okD [OF d0 assms(3), THEN conjunct2]
  have g: "store_ok (view (snd g))" unfolding g_def using reads_keep(2) [OF d0 assms(3)] d0 by simp
  have read: "ID m = i \<and> Queue m = q" if "fst g = Inr m" for m
  proof -
    have "q_lookup (queue_view q (view (fst (w 0) d))) i = Some m"
      using GetDeadLetter_effect(1) [OF t0 refl i0, of "snd (w 0)" i] that
      by (simp add: g_def split: fate.splits option.splits if_splits)
    then obtain h where "reads q i h m" using q_lookup_reads [OF i0] by blast
    then show ?thesis unfolding reads_def by blast
  qed
  have replay: "store_ok (view (snd (request call (w 1) (replayArchivedScript (TaskKey q i) (ArchivedKey q)
      (PendingKey q) (PendingRankKey q) i (Doc j)) (snd g))))" if "doc_ok q i j" for j
  proof -
    have d1: "store_ok (view (fst (w 1) (snd g)))" using assms(1) g by blast
    note t1 = store_okD [OF d1 assms(3), THEN conjunct1] and i1 = store_okD [OF d1 assms(3), THEN conjunct2]
    show ?thesis unfolding request_def
      by (rule left_by_keeps [OF d1 assms(3) script_Run_executes(2) [OF replayArchivedScript_refines [OF t1 refl i1] t1]])
        (rule q_replay_qinv [OF i1 that])
  qed
  show ?thesis
  proof (cases "fst g")
    case (Inl e)
    with g show ?thesis by (auto simp: ReplayDeadLetter_def g_def [symmetric] split: prod.splits sum.splits)
  next
    case (Inr m)
    then have "doc_ok q i j" if "Marshal (m\<lparr>State := StatePending, RetryCount := 0, LastError := [],
        LastFailedAt := zero_time, CompletedAt := zero_time, RunAt := now\<rparr>) = Some j" for j
      using that read by (intro doc_ok_Marshal [OF that]) simp_all
    note rp = replay [OF this]
    have "g = (Inr m, snd g)" using Inr by (cases g) simp
    with g rp show ?thesis unfolding ReplayDeadLetter_def g_def [symmetric]
      by (auto split: prod.splits sum.splits option.splits)
  qed
qed

lemma DeleteDeadLetter_keeps:
  assumes "\<And>n d. store_ok (view d) \<Longrightarrow> store_ok (view (fst (w n) d))" and "store_ok (view d)" and "queue_name_ok q"
  shows "store_ok (view (snd (DeleteDeadLetter call w q i d)))"
proof -
  define r where "r = request call (w 0) (deleteArchivedScript (TaskKey q i) (ArchivedKey q) i) d"
  have d0: "store_ok (view (fst (w 0) d))" using assms by blast
  note t0 = store_okD [OF d0 assms(3), THEN conjunct1] and i0 = store_okD [OF d0 assms(3), THEN conjunct2]
  have r: "store_ok (view (snd r))" unfolding r_def request_def
    by (rule left_by_keeps [OF d0 assms(3) script_Run_executes(2) [OF deleteArchivedScript_refines [OF t0 refl i0] t0]])
      (rule q_delete_archived_qinv [OF i0])
  have d1: "store_ok (view (fst (w 1) (snd r)))" using assms(1) r by blast
  then have "store_ok (view (snd (GetDeadLetter call (snd (w 1)) q i (fst (w 1) (snd r)))))"
    using reads_keep(2) [OF d1 assms(3)] by simp
  with r show ?thesis unfolding DeleteDeadLetter_def r_def [symmetric]
    by (auto split: prod.splits sum.splits)
qed

end

end
