(* ===== verification/StoreRuns.thy ===== *)
theory StoreRuns
  imports StoreSpec
begin

text \<open>
  Runs of the store: any number of clients call the methods of the store on one Redis, in any order,
  with any network fate per request, and with the work of the others falling between the requests of
  one call. \<open>store_step\<close> is one method call; the interference inside a call is itself made of steps.
\<close>

inductive store_step :: "'db redis \<Rightarrow> 'db \<Rightarrow> 'db \<Rightarrow> bool" for call where
  enqueue: "queue_name_ok (Queue m) \<Longrightarrow> store_step call d (snd (Enqueue call ft m d))"
| schedule: "queue_name_ok (Queue m) \<Longrightarrow> store_step call d (snd (Schedule call ft m d))"
| claim: "queue_name_ok q \<Longrightarrow> store_step call d (snd (Claim call s ft rnd q now lease d))"
| move_ready: "(\<And>q. q \<in> set qs \<Longrightarrow> queue_name_ok q) \<Longrightarrow> (\<And>n d. (store_step call)\<^sup>*\<^sup>* d (fst (w n) d)) \<Longrightarrow>
    store_step call d (snd (MoveReady call w now limit qs d))"
| ack: "queue_name_ok (Queue m) \<Longrightarrow> store_step call d (snd (AckSuccess call ft now m d))"
| retry: "queue_name_ok (Queue m) \<Longrightarrow> store_step call d (snd (ScheduleRetry call ft now m at reason d))"
| archive: "queue_name_ok (Queue m) \<Longrightarrow> store_step call d (snd (Archive call ft now m reason d))"
| requeue: "queue_name_ok (Queue m) \<Longrightarrow> store_step call d (snd (Requeue call ft m d))"
| get: "queue_name_ok q \<Longrightarrow> store_step call d (snd (Get call ft q i d))"
| expired: "queue_name_ok q \<Longrightarrow> store_step call d (snd (ExpiredIDs call ft now q limit d))"
| extend: "queue_name_ok q \<Longrightarrow> store_step call d (snd (ExtendLease call s ft q ts now lease d))"
| list: "queue_name_ok q \<Longrightarrow> (\<And>n d. (store_step call)\<^sup>*\<^sup>* d (fst (w n) d)) \<Longrightarrow>
    store_step call d (snd (ListDeadLetters call w q offset limit d))"
| replay: "queue_name_ok q \<Longrightarrow> (\<And>n d. (store_step call)\<^sup>*\<^sup>* d (fst (w n) d)) \<Longrightarrow>
    store_step call d (snd (ReplayDeadLetter call w now q i d))"
| delete: "queue_name_ok q \<Longrightarrow> (\<And>n d. (store_step call)\<^sup>*\<^sup>* d (fst (w n) d)) \<Longrightarrow>
    store_step call d (snd (DeleteDeadLetter call w q i d))"
| cleanup: "queue_name_ok q \<Longrightarrow> store_step call d (snd (CleanupDeadLetters call ft q before limit d))"


context redis_server
begin

lemma steps_keep:
  "(\<lambda>d d'. store_step call d d' \<and> (store_ok (view d) \<longrightarrow> store_ok (view d')))\<^sup>*\<^sup>* d d' \<Longrightarrow>
   store_ok (view d) \<Longrightarrow> store_ok (view d')"
  by (induction rule: rtranclp_induct) simp_all

lemma step_keeps: "store_step call d d' \<Longrightarrow> store_ok (view d) \<Longrightarrow> store_ok (view d')"
proof (induction rule: store_step.induct)
  case (move_ready qs w d now limit)
  then show ?case by (intro MoveReady_keeps) (auto intro: steps_keep)
next
  case (list q w d offset limit)
  then show ?case by (intro ListDeadLetters_keeps) (auto intro: steps_keep)
next
  case (replay q w d now i)
  then show ?case by (intro ReplayDeadLetter_keeps) (auto intro: steps_keep)
next
  case (delete q w d i)
  then show ?case by (intro DeleteDeadLetter_keeps) (auto intro: steps_keep)
qed (simp_all add: Enqueue_keeps Schedule_keeps Claim_keeps finish_keeps reads_keep ExtendLease_keeps
      CleanupDeadLetters_keeps)

lemma run_keeps: "(store_step call)\<^sup>*\<^sup>* d d' \<Longrightarrow> store_ok (view d) \<Longrightarrow> store_ok (view d')"
  by (induction rule: rtranclp_induct) (simp_all add: step_keeps)

end

end
