(* ===== verification/StoreEffects.thy ===== *)
theory StoreEffects
  imports StoreRuns
begin

text \<open>
  The store as its callers see it: what each method returns and what it does to the durable tasks
  (\<open>tasks\<close>), to the lease of a task and to its place in the ranking, in any well-formed store.
\<close>

section \<open>Observations\<close>

text \<open>Two databases that agree on a queue and outside it.\<close>

definition untouched :: "string \<Rightarrow> keyspace \<Rightarrow> keyspace \<Rightarrow> bool" where
  "untouched q ks ks' \<longleftrightarrow> becomes q ks ks' (queue_view q ks)"

text \<open>The attempt that owns a task: the task is active under that attempt id.\<close>

definition owner :: "keyspace \<Rightarrow> string \<Rightarrow> string \<Rightarrow> string option" where
  "owner ks q i = (case tasks ks q i of Some t \<Rightarrow> if State t = StateActive then Some (AttemptID t) else None
     | None \<Rightarrow> None)"

text \<open>The score under which a member is stored in a sorted set.\<close>

primrec zscore :: "zset \<Rightarrow> string \<Rightarrow> int option" where
  "zscore [] i = None"
| "zscore (e # z) i = (if i = snd e then Some (fst e) else zscore z i)"

definition lease_of :: "keyspace \<Rightarrow> string \<Rightarrow> string \<Rightarrow> int option" where
  "lease_of ks q i = zscore (q_lease (queue_view q ks)) i"

text \<open>The entry of a pending task in the ranking.\<close>

definition rank_at :: "keyspace \<Rightarrow> string \<Rightarrow> string \<Rightarrow> int \<times> string" where
  "rank_at ks q i = rank_entry (q_fields (queue_view q ks) i)"


text \<open>A pending task that no other pending task of its queue precedes in the ranking.\<close>

definition best_pending :: "keyspace \<Rightarrow> string \<Rightarrow> string \<Rightarrow> TaskMessage \<Rightarrow> bool" where
  "best_pending ks q i t \<longleftrightarrow> tasks ks q i = Some t \<and> State t = ''pending'' \<and> ID t = i \<and> Queue t = q
     \<and> (\<forall>j u. tasks ks q j = Some u \<and> State u = ''pending'' \<longrightarrow> rank_at ks q i \<le> rank_at ks q j)"

text \<open>The caller's view of a one-request method, given what it returns on a delivered reply.\<close>

definition reported ::
  "string \<Rightarrow> fate \<Rightarrow> TaskMessage \<Rightarrow> gerr option \<times> TaskMessage \<Rightarrow> gerr option \<times> TaskMessage" where
  "reported what ft m r = (case ft of Delivered \<Rightarrow> r
     | NotSent e \<Rightarrow> (Some (wrap_err what e), m) | ReplyLost e \<Rightarrow> (Some (wrap_err what e), m))"

text \<open>Redis can still count one more task of the queue.\<close>

definition seq_room :: "keyspace \<Rightarrow> string \<Rightarrow> bool" where
  "seq_room ks q \<longleftrightarrow> q_seq (queue_view q ks) + 1 < 2 ^ 63"


section \<open>Lemmas\<close>

lemma owner_iff:
  assumes "qinv q (queue_view q ks)"
  shows "owner ks q i = Some a \<longleftrightarrow> q_owned (queue_view q ks) i a"
  unfolding q_owned_lookup [OF assms] owner_def tasks_def by (auto split: option.splits)

lemma zscore_zrem [simp]: "zscore (zrem m z) i = (if i = m then None else zscore z i)"
  by (cases "i = m"; induction z) (simp_all add: zrem_def)

lemma zscore_member: "zscore z i \<noteq> None \<longleftrightarrow> i \<in> set (zmembers z)"
  by (induction z) (simp_all add: zmembers_def)

lemma zscore_insort: "m \<notin> set (zmembers y) \<Longrightarrow> zscore (insort (s, m) y) i = (if i = m then Some s else zscore y i)"
  by (cases "i = m"; induction y) (simp_all add: zmembers_def del: less_eq_prod_simp)

lemma zscore_zadd [simp]: "zscore (zadd s m z) i = (if i = m then Some s else zscore z i)"
  unfolding zadd_def by (subst zscore_insort) simp_all

lemma zscore_in: "zset_ok z \<Longrightarrow> (s, i) \<in> set z \<longleftrightarrow> zscore z i = Some s"
proof (induction z)
  case (Cons e z)
  have "zset_ok z" using Cons.prems by (simp add: zset_ok_def zmembers_def)
  moreover have "snd e \<notin> set (zmembers z)" using Cons.prems by (simp add: zset_ok_def zmembers_def)
  ultimately show ?case using Cons.IH zscore_member [of z i]
    by (cases e; cases "i = snd e") (auto simp: set_zmembers image_iff)
qed simp

lemma lease_active:
  assumes "qinv q (queue_view q ks)"
  shows "lease_of ks q i \<noteq> None \<longleftrightarrow> owner ks q i \<noteq> None"
proof -
  have "lease_of ks q i \<noteq> None \<longleftrightarrow> i \<in> in_state (queue_view q ks) ''active''"
    unfolding lease_of_def zscore_member by (simp add: qinv_containers(12) [OF assms])
  also have "\<dots> \<longleftrightarrow> owner ks q i \<noteq> None"
    unfolding in_state_lookup [OF assms] by (auto simp: owner_def tasks_def split: option.splits)
  finally show ?thesis .
qed

lemma untouched_refl: "queue_typed q ks \<Longrightarrow> untouched q ks ks"
  by (simp add: untouched_def becomes_refl)

lemma no_effect:
  assumes "becomes q ks ks' (left_by ft (queue_view q ks) Q')" and "Q' = queue_view q ks"
  shows "untouched q ks ks'"
  using assms by (simp add: untouched_def)

context redis_server
begin

lemma Enqueue_exists:
  assumes ok: "store_ok (view d)" "queue_name_ok (Queue m)" and v: "Validate (Some m) = None" "Marshal m = Some j"
    and old: "tasks (view d) (Queue m) (ID m) \<noteq> None"
  shows "fst (Enqueue call ft m d) = reported ''enqueue task'' ft m (Some ErrTaskExists, m)"
    and "untouched (Queue m) (view d) (view (snd (Enqueue call ft m d)))"
proof -
  note t = store_okD [OF ok, THEN conjunct1] and i = store_okD [OF ok, THEN conjunct2]
  note e = Enqueue_effect [OF t v refl refl, of ft]
  have op: "q_enqueue j (ID m) (Priority m) (taskRank m) (queue_view (Queue m) (view d)) =
      (Inr 0, queue_view (Queue m) (view d))"
    using old q_lookup_None [OF i] by (simp add: q_enqueue_def tasks_def)
  show "fst (Enqueue call ft m d) = reported ''enqueue task'' ft m (Some ErrTaskExists, m)"
    using e(1) by (cases ft) (simp_all add: op reported_def)
  show "untouched (Queue m) (view d) (view (snd (Enqueue call ft m d)))"
    using e(2) by (simp add: op untouched_def)
qed

lemma Enqueue_new:
  assumes ok: "store_ok (view d)" "queue_name_ok (Queue m)" and v: "Validate (Some m) = None" "Marshal m = Some j"
    and new: "tasks (view d) (Queue m) (ID m) = None" and room: "seq_room (view d) (Queue m)"
  shows "fst (Enqueue call ft m d) = reported ''enqueue task'' ft m (None, m\<lparr>State := ''pending''\<rparr>)"
    and "tasks (view (snd (Enqueue call ft m d))) (Queue m) = left_by ft (tasks (view d) (Queue m))
           ((tasks (view d) (Queue m))(ID m \<mapsto> m\<lparr>State := ''pending'', AttemptID := []\<rparr>))"
proof -
  let ?Q = "queue_view (Queue m) (view d)"
  note t = store_okD [OF ok, THEN conjunct1] and i = store_okD [OF ok, THEN conjunct2]
  note e = Enqueue_effect [OF t v refl refl, of ft]
  have "q_task ?Q (ID m) = None" using new q_lookup_None [OF i] by (simp add: tasks_def)
  then have "fst (q_enqueue j (ID m) (Priority m) (taskRank m) ?Q) = Inr 1"
    and l: "q_lookup (snd (q_enqueue j (ID m) (Priority m) (taskRank m) ?Q)) =
     (q_lookup ?Q)(ID m \<mapsto> m\<lparr>State := ''pending'', AttemptID := []\<rparr>)"
    using room by (simp add: q_enqueue_def Let_def seq_room_def,
      intro q_enqueue_lookup [OF v(2)]) (simp_all add: seq_room_def)
  with e(1) show "fst (Enqueue call ft m d) = reported ''enqueue task'' ft m (None, m\<lparr>State := ''pending''\<rparr>)"
    by (cases ft) (simp_all add: reported_def)
  show "tasks (view (snd (Enqueue call ft m d))) (Queue m) = left_by ft (tasks (view d) (Queue m))
           ((tasks (view d) (Queue m))(ID m \<mapsto> m\<lparr>State := ''pending'', AttemptID := []\<rparr>))"
    using becomes_tasks(1) [OF e(2)] l by (cases ft) (simp_all add: tasks_def fun_eq_iff)
qed

lemma Schedule_new:
  assumes ok: "store_ok (view d)" "queue_name_ok (Queue m)"
    and v: "Validate (Some m) = None" "Marshal m = Some j" "\<not> IsZero (RunAt m)"
    and new: "tasks (view d) (Queue m) (ID m) = None" and room: "seq_room (view d) (Queue m)"
  shows "fst (Schedule call ft m d) = reported ''schedule task'' ft m (None, m\<lparr>State := ''scheduled''\<rparr>)"
    and "tasks (view (snd (Schedule call ft m d))) (Queue m) = left_by ft (tasks (view d) (Queue m))
           ((tasks (view d) (Queue m))(ID m \<mapsto> m\<lparr>State := ''scheduled'', AttemptID := []\<rparr>))"
proof -
  let ?Q = "queue_view (Queue m) (view d)"
  note t = store_okD [OF ok, THEN conjunct1] and i = store_okD [OF ok, THEN conjunct2]
  note e = Schedule_effect [OF t v refl refl, of ft]
  have "q_task ?Q (ID m) = None" using new q_lookup_None [OF i] by (simp add: tasks_def)
  then have "fst (q_schedule j (ID m) (Priority m) (taskRank m) (UnixMilli (RunAt m)) ?Q) = Inr 1"
    and l: "q_lookup (snd (q_schedule j (ID m) (Priority m) (taskRank m) (UnixMilli (RunAt m)) ?Q)) =
     (q_lookup ?Q)(ID m \<mapsto> m\<lparr>State := ''scheduled'', AttemptID := []\<rparr>)"
    using room by (simp add: q_schedule_def Let_def seq_room_def,
      intro q_schedule_lookup [OF v(2)]) (simp_all add: seq_room_def)
  with e(1) show "fst (Schedule call ft m d) = reported ''schedule task'' ft m (None, m\<lparr>State := ''scheduled''\<rparr>)"
    by (cases ft) (simp_all add: reported_def)
  show "tasks (view (snd (Schedule call ft m d))) (Queue m) = left_by ft (tasks (view d) (Queue m))
           ((tasks (view d) (Queue m))(ID m \<mapsto> m\<lparr>State := ''scheduled'', AttemptID := []\<rparr>))"
    using becomes_tasks(1) [OF e(2)] l by (cases ft) (simp_all add: tasks_def fun_eq_iff)
qed

text \<open>Ending an attempt, by its owner and by anyone else.\<close>

lemma finish_owner:
  assumes ok: "store_ok (view d)" "queue_name_ok (Queue m)" and own: "owner (view d) (Queue m) (ID m) = Some (AttemptID m)"
  defines "T \<equiv> tasks (view d) (Queue m)"
  shows "m' = m\<lparr>State := ''completed'', AttemptID := [], CompletedAt := now\<rparr> \<Longrightarrow> Marshal m' \<noteq> None \<Longrightarrow>
       fst (AckSuccess call ft now m d) = reported ''ack task'' ft m (None, m')
       \<and> tasks (view (snd (AckSuccess call ft now m d))) (Queue m) = left_by ft T (T(ID m \<mapsto> m'))"
    and "m' = m\<lparr>State := ''retry'', AttemptID := [], LastError := reason, LastFailedAt := now\<rparr> \<Longrightarrow> Marshal m' \<noteq> None \<Longrightarrow>
       fst (ScheduleRetry call ft now m at reason d) = reported ''schedule retry'' ft m (None, m')
       \<and> tasks (view (snd (ScheduleRetry call ft now m at reason d))) (Queue m) = left_by ft T (T(ID m \<mapsto> m'))"
    and "m' = m\<lparr>State := ''archived'', AttemptID := [], LastError := reason\<rparr> \<Longrightarrow> Marshal m' \<noteq> None \<Longrightarrow>
       fst (Archive call ft now m reason d) = reported ''archive task'' ft m (None, m')
       \<and> tasks (view (snd (Archive call ft now m reason d))) (Queue m) = left_by ft T (T(ID m \<mapsto> m'))"
    and "fst (Requeue call ft m d) = reported ''requeue task'' ft m (None, m\<lparr>State := ''pending'', AttemptID := []\<rparr>)
       \<and> tasks (view (snd (Requeue call ft m d))) (Queue m) =
           left_by ft T (T(ID m \<mapsto> (the (T (ID m)))\<lparr>State := ''pending'', AttemptID := []\<rparr>))"
proof -
  note t = store_okD [OF ok, THEN conjunct1] and i = store_okD [OF ok, THEN conjunct2]
  have o: "q_owned (queue_view (Queue m) (view d)) (ID m) (AttemptID m)" using own by (simp add: owner_iff [OF i])
  note l = q_finish_lookup [OF o]
  show "fst (AckSuccess call ft now m d) = reported ''ack task'' ft m (None, m')
       \<and> tasks (view (snd (AckSuccess call ft now m d))) (Queue m) = left_by ft T (T(ID m \<mapsto> m'))"
    if m': "m' = m\<lparr>State := ''completed'', AttemptID := [], CompletedAt := now\<rparr>" and "Marshal m' \<noteq> None"
  proof -
    from that(2) obtain j where j: "Marshal m' = Some j" by blast
    note e = AckSuccess_effect [OF t refl m' j refl, of ft]
    have "fst (q_ack (ID m) j (UnixMilli now) (AttemptID m) (queue_view (Queue m) (view d))) = 1"
      using o by (simp add: q_ack_def)
    then show ?thesis using e(1) becomes_tasks(1) [OF e(2)] l(1) [OF j] m'
      by (cases ft) (simp_all add: reported_def T_def tasks_def fun_eq_iff)
  qed
  show "fst (ScheduleRetry call ft now m at reason d) = reported ''schedule retry'' ft m (None, m')
       \<and> tasks (view (snd (ScheduleRetry call ft now m at reason d))) (Queue m) = left_by ft T (T(ID m \<mapsto> m'))"
    if m': "m' = m\<lparr>State := ''retry'', AttemptID := [], LastError := reason, LastFailedAt := now\<rparr>" and "Marshal m' \<noteq> None"
  proof -
    from that(2) obtain j where j: "Marshal m' = Some j" by blast
    note e = ScheduleRetry_effect [OF t refl m' j refl, of ft at]
    have "fst (q_schedule_retry (ID m) j (UnixMilli at) reason (AttemptID m) (queue_view (Queue m) (view d))) = 1"
      using o by (simp add: q_schedule_retry_def)
    then show ?thesis using e(1) becomes_tasks(1) [OF e(2)] l(2) [OF j] m'
      by (cases ft) (simp_all add: reported_def T_def tasks_def fun_eq_iff)
  qed
  show "fst (Archive call ft now m reason d) = reported ''archive task'' ft m (None, m')
       \<and> tasks (view (snd (Archive call ft now m reason d))) (Queue m) = left_by ft T (T(ID m \<mapsto> m'))"
    if m': "m' = m\<lparr>State := ''archived'', AttemptID := [], LastError := reason\<rparr>" and "Marshal m' \<noteq> None"
  proof -
    from that(2) obtain j where j: "Marshal m' = Some j" by blast
    note e = Archive_effect [OF t refl m' j refl, of ft now]
    have "fst (q_archive (ID m) j reason (UnixMilli now) (AttemptID m) (queue_view (Queue m) (view d))) = 1"
      using o by (simp add: q_archive_def)
    then show ?thesis using e(1) becomes_tasks(1) [OF e(2)] l(3) [OF j] m'
      by (cases ft) (simp_all add: reported_def T_def tasks_def fun_eq_iff)
  qed
  obtain u where u: "q_lookup (queue_view (Queue m) (view d)) (ID m) = Some u"
    using o unfolding q_owned_lookup [OF i] by blast
  note e = Requeue_effect [OF t refl i refl, of ft]
  have "fst (q_requeue (ID m) (AttemptID m) (queue_view (Queue m) (view d))) = 1"
    using o by (simp add: q_requeue_def)
  then show "fst (Requeue call ft m d) = reported ''requeue task'' ft m (None, m\<lparr>State := ''pending'', AttemptID := []\<rparr>)
       \<and> tasks (view (snd (Requeue call ft m d))) (Queue m) =
           left_by ft T (T(ID m \<mapsto> (the (T (ID m)))\<lparr>State := ''pending'', AttemptID := []\<rparr>))"
    using e(1) becomes_tasks(1) [OF e(2)] q_requeue_lookup [OF o u] u
    by (cases ft) (simp_all add: reported_def T_def tasks_def fun_eq_iff)
qed

lemma finish_other:
  assumes ok: "store_ok (view d)" "queue_name_ok (Queue m)" and own: "owner (view d) (Queue m) (ID m) \<noteq> Some (AttemptID m)"
  shows "Marshal (m\<lparr>State := ''completed'', AttemptID := [], CompletedAt := now\<rparr>) \<noteq> None \<Longrightarrow>
       fst (AckSuccess call ft now m d) = reported ''ack task'' ft m (Some ErrInvalidTransition, m)
       \<and> untouched (Queue m) (view d) (view (snd (AckSuccess call ft now m d)))"
    and "Marshal (m\<lparr>State := ''retry'', AttemptID := [], LastError := reason, LastFailedAt := now\<rparr>) \<noteq> None \<Longrightarrow>
       fst (ScheduleRetry call ft now m at reason d) = reported ''schedule retry'' ft m (Some ErrInvalidTransition, m)
       \<and> untouched (Queue m) (view d) (view (snd (ScheduleRetry call ft now m at reason d)))"
    and "Marshal (m\<lparr>State := ''archived'', AttemptID := [], LastError := reason\<rparr>) \<noteq> None \<Longrightarrow>
       fst (Archive call ft now m reason d) = reported ''archive task'' ft m (Some ErrInvalidTransition, m)
       \<and> untouched (Queue m) (view d) (view (snd (Archive call ft now m reason d)))"
    and "fst (Requeue call ft m d) = reported ''requeue task'' ft m (Some ErrInvalidTransition, m)
       \<and> untouched (Queue m) (view d) (view (snd (Requeue call ft m d)))"
proof -
  note t = store_okD [OF ok, THEN conjunct1] and i = store_okD [OF ok, THEN conjunct2]
  have o: "\<not> q_owned (queue_view (Queue m) (view d)) (ID m) (AttemptID m)" using own by (simp add: owner_iff [OF i])
  show "fst (AckSuccess call ft now m d) = reported ''ack task'' ft m (Some ErrInvalidTransition, m)
       \<and> untouched (Queue m) (view d) (view (snd (AckSuccess call ft now m d)))"
    if "Marshal (m\<lparr>State := ''completed'', AttemptID := [], CompletedAt := now\<rparr>) \<noteq> None"
    using that AckSuccess_effect [OF t refl refl _ refl, where now = now and ft = ft]
    by (cases ft) (auto simp: q_ack_def o reported_def untouched_def)
  show "fst (ScheduleRetry call ft now m at reason d) = reported ''schedule retry'' ft m (Some ErrInvalidTransition, m)
       \<and> untouched (Queue m) (view d) (view (snd (ScheduleRetry call ft now m at reason d)))"
    if "Marshal (m\<lparr>State := ''retry'', AttemptID := [], LastError := reason, LastFailedAt := now\<rparr>) \<noteq> None"
    using that ScheduleRetry_effect [OF t refl refl _ refl, where reason = reason and now = now and ft = ft and at = at]
    by (cases ft) (auto simp: q_schedule_retry_def o reported_def untouched_def)
  show "fst (Archive call ft now m reason d) = reported ''archive task'' ft m (Some ErrInvalidTransition, m)
       \<and> untouched (Queue m) (view d) (view (snd (Archive call ft now m reason d)))"
    if "Marshal (m\<lparr>State := ''archived'', AttemptID := [], LastError := reason\<rparr>) \<noteq> None"
    using that Archive_effect [OF t refl refl _ refl, where reason = reason and now = now and ft = ft]
    by (cases ft) (auto simp: q_archive_def o reported_def untouched_def)
  show "fst (Requeue call ft m d) = reported ''requeue task'' ft m (Some ErrInvalidTransition, m)
       \<and> untouched (Queue m) (view d) (view (snd (Requeue call ft m d)))"
    using Requeue_effect [OF t refl i refl, of ft]
    by (cases ft) (auto simp: q_requeue_def o reported_def untouched_def)
qed

lemma Claim_empty:
  assumes ok: "store_ok (view d)" "queue_name_ok q" and a: "newAttemptID rnd = Inr a"
    and none: "\<And>i t. tasks (view d) q i = Some t \<Longrightarrow> State t \<noteq> ''pending''"
  shows "fst (Claim call s ft rnd q now lease d) = (case ft of Delivered \<Rightarrow> Inl ErrQueueEmpty
         | NotSent e \<Rightarrow> Inl (wrap_err ''claim task'' e) | ReplyLost e \<Rightarrow> Inl (wrap_err ''claim task'' e))"
    and "untouched q (view d) (view (snd (Claim call s ft rnd q now lease d)))"
proof -
  note t = store_okD [OF ok, THEN conjunct1] and i = store_okD [OF ok, THEN conjunct2]
  note e = Claim_effect [OF t refl i a refl refl, of s ft now lease]
  have "in_state (queue_view q (view d)) ''pending'' = {}"
    using none in_state_lookup [OF i, of _ "''pending''"] by (auto simp: tasks_def)
  then have "q_rank (queue_view q (view d)) = []" using qinv_containers(6) [OF i] by simp
  then have op: "q_claim n x a (queue_view q (view d)) = ((0, Txt []), queue_view q (view d))" for n x
    by (simp add: q_claim_def)
  show "fst (Claim call s ft rnd q now lease d) = (case ft of Delivered \<Rightarrow> Inl ErrQueueEmpty
         | NotSent e \<Rightarrow> Inl (wrap_err ''claim task'' e) | ReplyLost e \<Rightarrow> Inl (wrap_err ''claim task'' e))"
    using e(1) unfolding op by (cases ft) simp_all
  show "untouched q (view d) (view (snd (Claim call s ft rnd q now lease d)))"
    using e(2) unfolding op by (simp add: untouched_def)
qed

lemma Claim_pending:
  assumes ok: "store_ok (view d)" "queue_name_ok q" and a: "newAttemptID rnd = Inr a"
    and pend: "tasks (view d) q j = Some u" "State u = ''pending''"
    and ls: "ls = (if lease \<le> 0 then leaseDuration s else lease)"
  shows "\<exists>i t. best_pending (view d) q i t
     \<and> fst (Claim call s ft rnd q now lease d) = (case ft of Delivered \<Rightarrow> Inr (t\<lparr>State := ''active'', AttemptID := a\<rparr>)
         | NotSent e \<Rightarrow> Inl (wrap_err ''claim task'' e) | ReplyLost e \<Rightarrow> Inl (wrap_err ''claim task'' e))
     \<and> tasks (view (snd (Claim call s ft rnd q now lease d))) q =
         left_by ft (tasks (view d) q) ((tasks (view d) q)(i \<mapsto> t\<lparr>State := ''active'', AttemptID := a\<rparr>))
     \<and> lease_of (view (snd (Claim call s ft rnd q now lease d))) q =
         left_by ft (lease_of (view d) q) ((lease_of (view d) q)(i \<mapsto> f64_of_int (UnixMilli (now + ls))))"
proof -
  let ?Q = "queue_view q (view d)"
  note t = store_okD [OF ok, THEN conjunct1] and i = store_okD [OF ok, THEN conjunct2]
  note e = Claim_effect [OF t refl i a ls refl, of ft now]
  have "j \<in> in_state ?Q ''pending''" using pend in_state_lookup [OF i] by (auto simp: tasks_def)
  then have "set (q_rank ?Q) \<noteq> {}" unfolding qinv_containers(6) [OF i] by blast
  then obtain sc rm zs where r: "q_rank ?Q = (sc, rm) # zs" by (cases "q_rank ?Q") auto
  have ne: "a \<noteq> []" using hex_nonempty [OF a] by blast
  let ?i = "drop 21 rm" and ?op = "q_claim (UnixMilli now) (UnixMilli (now + ls)) a ?Q"
  obtain u j where u: "q_lookup ?Q ?i = Some u" "State u = ''pending''" "fst ?op = (1, Doc j)"
     "\<exists>m. Unmarshal j = Some m \<and> m\<lparr>State := ''active'', AttemptID := a\<rparr> = u\<lparr>State := ''active'', AttemptID := a\<rparr>"
     "q_lookup (snd ?op) = (q_lookup ?Q)(?i \<mapsto> u\<lparr>State := ''active'', AttemptID := a\<rparr>)"
    using q_claim_lookup [OF i r ne] by blast
  obtain h where h: "reads q ?i h u" using q_lookup_reads [OF i u(1)] by blast
  have head: "rank_at (view d) q ?i = (sc, rm)" unfolding rank_at_def by (rule rank_head(2) [OF i r])
  have min: "rank_at (view d) q ?i \<le> rank_at (view d) q k" if "tasks (view d) q k = Some v" "State v = ''pending''" for k v
  proof -
    have "k \<in> in_state ?Q ''pending''" using that in_state_lookup [OF i] by (auto simp: tasks_def)
    then have "rank_at (view d) q k \<in> set (q_rank ?Q)" unfolding qinv_containers(6) [OF i] rank_at_def by blast
    moreover have "sorted (q_rank ?Q)" using qinv_containers(5) [OF i] by (simp add: zset_ok_def)
    ultimately show ?thesis unfolding head r by auto
  qed
  have "q_lease (snd ?op) = zadd (f64_of_int (UnixMilli (now + ls))) ?i (q_lease ?Q)"
    using r by (simp add: q_claim_def Let_def)
  with e(2) have lease: "lease_of (view (snd (Claim call s ft rnd q now lease d))) q =
         left_by ft (lease_of (view d) q) ((lease_of (view d) q)(?i \<mapsto> f64_of_int (UnixMilli (now + ls))))"
    by (cases ft) (simp_all add: becomes_def lease_of_def fun_eq_iff)
  have res: "fst (Claim call s ft rnd q now lease d) = (case ft of Delivered \<Rightarrow> Inr (u\<lparr>State := ''active'', AttemptID := a\<rparr>)
         | NotSent e \<Rightarrow> Inl (wrap_err ''claim task'' e) | ReplyLost e \<Rightarrow> Inl (wrap_err ''claim task'' e))"
    using e(1) u(3,4) by (cases ft) auto
  have tk: "tasks (view (snd (Claim call s ft rnd q now lease d))) q =
         left_by ft (tasks (view d) q) ((tasks (view d) q)(?i \<mapsto> u\<lparr>State := ''active'', AttemptID := a\<rparr>))"
    using becomes_tasks(1) [OF e(2)] u(5) by (cases ft) (simp_all add: tasks_def fun_eq_iff)
  have "ID u = ?i" "Queue u = q" using h unfolding reads_def by blast+
  then have "best_pending (view d) q ?i u"
    using u(1,2) min unfolding best_pending_def by (auto simp: tasks_def)
  with res tk lease show ?thesis by blast
qed

end

end
