(* ===== verification/QueueBatches.thy ===== *)
theory QueueBatches
  imports StoreEffects
begin

text \<open>
  The batch operations on a queue, \<open>q_move_ready\<close> and \<open>q_cleanup\<close>, described by the set of ids they
  take from a sorted set: the earliest ones that are due, up to the limit.
\<close>

definition make_ready :: "TaskMessage \<Rightarrow> TaskMessage" where
  "make_ready t = t\<lparr>State := ''pending'', AttemptID := []\<rparr>"

lemma q_move_loop_take:
  "q_move_loop src mx ids n Q =
     (n + int (length (take (nat (mx - n)) ids)), fold (q_move_one src) (take (nat (mx - n)) ids) Q)"
proof (induction ids arbitrary: n Q)
  case (Cons i ids)
  show ?case
  proof (cases "n \<ge> mx")
    case False
    then have "nat (mx - n) = Suc (nat (mx - (n + 1)))" by simp
    with False Cons.IH show ?thesis by simp
  qed simp
qed simp

lemma q_cleanup_loop_take:
  "q_cleanup_loop mx ids n Q =
     (n + int (length (take (nat (mx - n)) ids)), fold q_drop_archived (take (nat (mx - n)) ids) Q)"
proof (induction ids arbitrary: n Q)
  case (Cons i ids)
  show ?case
  proof (cases "n \<ge> mx")
    case False
    then have "nat (mx - n) = Suc (nat (mx - (n + 1)))" by simp
    with False Cons.IH show ?thesis by simp
  qed simp
qed simp

lemma fold_move_lookup:
  "(\<And>i. i \<in> set ids \<Longrightarrow> q_lookup Q i \<noteq> None) \<Longrightarrow>
   q_lookup (fold (q_move_one src) ids Q) i =
     (if i \<in> set ids then map_option make_ready (q_lookup Q i) else q_lookup Q i)"
proof (induction ids arbitrary: Q)
  case (Cons k ids)
  obtain t where "q_lookup Q k = Some t" using Cons.prems [of k] by auto
  note l = q_move_one_lookup [OF this, of src, folded make_ready_def] this
  have idem: "make_ready (make_ready t) = make_ready t" for t by (simp add: make_ready_def)
  have "q_lookup (fold (q_move_one src) ids (q_move_one src k Q)) i =
     (if i \<in> set ids then map_option make_ready (q_lookup (q_move_one src k Q) i) else q_lookup (q_move_one src k Q) i)"
    using Cons.prems by (intro Cons.IH) (simp add: l)
  then show ?case by (cases "i = k") (simp_all add: l idem)
qed simp

lemma fold_move_other:
  "src' \<noteq> src \<Longrightarrow> source_zset src' (fold (q_move_one src) ids Q) = source_zset src' Q"
proof (induction ids arbitrary: Q)
  case (Cons i ids)
  have "source_zset src' (q_move_one src i Q) = source_zset src' Q"
    using Cons.prems by (cases src; cases src') (simp_all add: q_move_one_def make_pending_def)
  with Cons show ?case by simp
qed simp

lemma fold_drop_lookup:
  "q_lookup (fold q_drop_archived ids Q) i = (if i \<in> set ids then None else q_lookup Q i)"
  by (induction ids arbitrary: Q) simp_all

text \<open>The ids a sorted set holds up to a score, earliest first.\<close>

lemma due_zscore: "zset_ok z \<Longrightarrow> i \<in> set (due t z) \<longleftrightarrow> (\<exists>s. zscore z i = Some s \<and> s \<le> f64_of_int t)"
proof -
  assume z: "zset_ok z"
  have "i \<in> set (due t z) \<longleftrightarrow> (\<exists>s. (s, i) \<in> set z \<and> s \<le> f64_of_int t)"
    by (force simp: due_def set_zmembers)
  then show ?thesis by (simp add: zscore_in [OF z])
qed

lemma sorted_take_before:
  assumes "sorted xs" and "x \<in> set (take n xs)" and "y \<in> set xs" and "y \<notin> set (take n xs)"
  shows "x \<le> y"
proof -
  have "y \<in> set (drop n xs)" using assms(3,4) by (metis Un_iff append_take_drop_id set_append)
  with assms(1,2) show ?thesis by (metis append_take_drop_id sorted_append)
qed

lemma due_take_before:
  assumes "zset_ok z" and "i \<in> set (take n (due t z))" and "k \<in> set (due t z)" and "k \<notin> set (take n (due t z))"
  shows "the (zscore z i) \<le> the (zscore z k)"
proof -
  let ?f = "filter (\<lambda>e. fst e \<le> f64_of_int t) z"
  have d: "due t z = map snd ?f" by (simp add: due_def zmembers_def)
  obtain s where s: "(s, i) \<in> set (take n ?f)" using assms(2) unfolding d take_map by auto
  obtain s' where s': "(s', k) \<in> set ?f" using assms(3) unfolding d by auto
  have "(s', k) \<notin> set (take n ?f)" using assms(4) unfolding d take_map by force
  moreover have "sorted ?f" using assms(1) by (simp add: zset_ok_def sorted_wrt_filter)
  ultimately have "(s, i) \<le> (s', k)" using s s' sorted_take_before by blast
  moreover have "(s, i) \<in> set z" "(s', k) \<in> set z" using s s' by (auto dest: in_set_takeD)
  ultimately show ?thesis using zscore_in [OF assms(1)] by (auto simp: less_eq_prod_simp)
qed

lemma q_move_ready_spec:
  assumes "qinv q Q" and "0 \<le> lim" and ids: "ids = take (nat lim) (due now (source_zset src Q))"
  shows "fst (q_move_ready src now lim Q) = int (card (set ids))"
    and "q_lookup (snd (q_move_ready src now lim Q)) i =
          (if i \<in> set ids then map_option make_ready (q_lookup Q i) else q_lookup Q i)"
    and "src' \<noteq> src \<Longrightarrow> source_zset src' (snd (q_move_ready src now lim Q)) = source_zset src' Q"
proof -
  have mv: "q_move_ready src now lim Q = (int (length ids), fold (q_move_one src) ids Q)"
    unfolding q_move_ready_def q_move_loop_take ids by simp
  have "distinct ids" unfolding ids using due_distinct [OF source_zset_ok [OF assms(1)]] by simp
  then show "fst (q_move_ready src now lim Q) = int (card (set ids))" by (simp add: mv distinct_card)
  have "q_lookup Q k \<noteq> None" if "k \<in> set ids" for k
  proof -
    have "k \<in> in_state Q (source_state src)"
      using that due_subset source_members [OF assms(1)] unfolding ids by (metis in_set_takeD subsetD)
    then show ?thesis using in_state_lookup [OF assms(1)] by auto
  qed
  then show "q_lookup (snd (q_move_ready src now lim Q)) i =
          (if i \<in> set ids then map_option make_ready (q_lookup Q i) else q_lookup Q i)"
    unfolding mv by (simp add: fold_move_lookup)
  show "src' \<noteq> src \<Longrightarrow> source_zset src' (snd (q_move_ready src now lim Q)) = source_zset src' Q"
    by (simp add: mv fold_move_other)
qed

lemma q_cleanup_spec:
  assumes "qinv q Q" and "0 \<le> lim" and ids: "ids = take (nat lim) (due before (q_archived Q))"
  shows "fst (q_cleanup before lim Q) = int (card (set ids))"
    and "q_lookup (snd (q_cleanup before lim Q)) i = (if i \<in> set ids then None else q_lookup Q i)"
proof -
  have mv: "q_cleanup before lim Q = (int (length ids), fold q_drop_archived ids Q)"
    unfolding q_cleanup_def q_cleanup_loop_take ids by simp
  have "distinct ids" unfolding ids using due_distinct [OF qinv_containers(13) [OF assms(1)]] by simp
  then show "fst (q_cleanup before lim Q) = int (card (set ids))" by (simp add: mv distinct_card)
  show "q_lookup (snd (q_cleanup before lim Q)) i = (if i \<in> set ids then None else q_lookup Q i)"
    by (simp add: mv fold_drop_lookup)
qed

end
