(* ===== verification/StoreMaintenance.thy ===== *)
theory StoreMaintenance
  imports QueueBatches
begin

text \<open>
  Leases, due tasks and dead letters as callers see them: the batch methods take the earliest ids
  whose score has been reached, \<open>ExtendLease\<close> renews only what the caller owns, and the dead-letter
  methods act on archived tasks only.
\<close>

text \<open>When a task of a sorted set is due: the score it is stored under.\<close>

definition ready_at :: "source \<Rightarrow> keyspace \<Rightarrow> string \<Rightarrow> string \<Rightarrow> int option" where
  "ready_at src ks q i = zscore (source_zset src (queue_view q ks)) i"

definition archived_at :: "keyspace \<Rightarrow> string \<Rightarrow> string \<Rightarrow> int option" where
  "archived_at ks q i = zscore (q_archived (queue_view q ks)) i"

text \<open>The ids whose score has been reached.\<close>

definition reached :: "(string \<Rightarrow> int option) \<Rightarrow> gotime \<Rightarrow> string set" where
  "reached f now = {i. \<exists>s. f i = Some s \<and> s \<le> f64_of_int (UnixMilli now)}"

text \<open>A subset of size at most \<open>lim\<close> that holds the earliest elements of a set.\<close>

definition earliest :: "int \<Rightarrow> (string \<Rightarrow> int option) \<Rightarrow> string set \<Rightarrow> string set \<Rightarrow> bool" where
  "earliest lim f S A \<longleftrightarrow> finite S \<and> A \<subseteq> S \<and> int (card A) = min lim (int (card S))
     \<and> (\<forall>a \<in> A. \<forall>b \<in> S - A. the (f a) \<le> the (f b))"

definition default_limit :: "int \<Rightarrow> int" where
  "default_limit limit = (if limit \<le> 0 then 100 else limit)"

lemma tasks_fun: "tasks ks q = q_lookup (queue_view q ks)"
  by (simp add: fun_eq_iff tasks_def)

lemma default_limit_pos: "0 \<le> default_limit limit"
  by (simp add: default_limit_def)

lemma due_earliest:
  assumes "zset_ok z" and "0 \<le> lim"
  shows "earliest lim (zscore z) (reached (zscore z) now) (set (take (nat lim) (due (UnixMilli now) z)))"
proof -
  let ?d = "due (UnixMilli now) z"
  have S: "reached (zscore z) now = set ?d" using due_zscore [OF assms(1)] by (auto simp: reached_def)
  have "distinct ?d" by (rule due_distinct [OF assms(1)])
  then have "card (set (take (nat lim) ?d)) = min (length ?d) (nat lim)" "card (set ?d) = length ?d"
    by (simp_all add: distinct_card)
  moreover have "the (zscore z a) \<le> the (zscore z b)"
    if "a \<in> set (take (nat lim) ?d)" "b \<in> set ?d - set (take (nat lim) ?d)" for a b
    using that due_take_before [OF assms(1)] by blast
  ultimately show ?thesis using assms(2) unfolding earliest_def S by (auto dest: in_set_takeD)
qed

lemma q_extend_one_owned [simp]: "q_owned (q_extend_one expires p Q) i a = q_owned Q i a"
  by (simp add: q_extend_one_def q_owned_def)

lemma q_extend_lease:
  assumes "qinv q Q"
  shows "zscore (q_lease (q_extend expires ps Q)) i =
     (if \<exists>p \<in> set ps. fst p = i \<and> q_owned Q i (snd p) then Some (f64_of_int expires) else zscore (q_lease Q) i)"
  using assms
proof (induction ps arbitrary: Q)
  case Nil
  then show ?case by (simp add: q_extend_def)
next
  case (Cons p ps)
  let ?Q = "q_extend_one expires p Q"
  have IH: "zscore (q_lease (q_extend expires ps ?Q)) i =
     (if \<exists>p \<in> set ps. fst p = i \<and> q_owned Q i (snd p) then Some (f64_of_int expires) else zscore (q_lease ?Q) i)"
    using Cons.IH [OF q_extend_one_qinv [OF Cons.prems]] by simp
  have "zscore (q_lease Q) (fst p) = None" if "q_field Q (fst p) ''state'' \<noteq> Some (Txt ''active'')"
    using that zscore_member [of "q_lease Q" "fst p"] qinv_containers(12) [OF Cons.prems]
    by (auto simp: in_state_def)
  then have "zscore (q_lease ?Q) i =
      (if fst p = i \<and> q_owned Q i (snd p) then Some (f64_of_int expires) else zscore (q_lease Q) i)"
    by (auto simp: q_extend_one_def)
  with IH show ?case by (auto simp: q_extend_def)
qed

lemma archived_lookup:
  assumes "qinv q Q" and "q_lookup Q i = Some t"
  shows "q_archived_task Q i \<longleftrightarrow> State t = ''archived''" and "State t = ''archived'' \<Longrightarrow> AttemptID t = []"
proof -
  show "q_archived_task Q i \<longleftrightarrow> State t = ''archived''"
    using assms(2) in_state_lookup [OF assms(1), of i "''archived''"]
    by (simp add: q_archived_task_def in_state_def)
  obtain h where "reads q i h t" using q_lookup_reads [OF assms] .
  then show "State t = ''archived'' \<Longrightarrow> AttemptID t = []" unfolding reads_def by auto
qed

context redis_server
begin

lemma MoveReady_one_queue:
  assumes ok: "store_ok (view d)" "queue_name_ok q"
    and lim_def: "lim = default_limit limit"
  shows "\<exists>A B d'. MoveReady call (\<lambda>_. direct) now limit [q] d = ((int (card A) + int (card B), None), d')
     \<and> earliest lim (ready_at Scheduled (view d) q) (reached (ready_at Scheduled (view d) q) now) A
     \<and> earliest lim (ready_at Retry (view d) q) (reached (ready_at Retry (view d) q) now) B
     \<and> tasks (view d') q = (\<lambda>i. if i \<in> A \<union> B then map_option make_ready (tasks (view d) q i) else tasks (view d) q i)"
proof -
  let ?t = "UnixMilli now"
  have lim: "0 \<le> lim" "lim = (if limit \<le> 0 then 100 else limit)" unfolding lim_def default_limit_def by simp_all
  note t = store_okD [OF ok, THEN conjunct1] and i = store_okD [OF ok, THEN conjunct2]
  define Q where "Q = queue_view q (view d)"
  define r1 where "r1 = script_Run call Delivered (moveReadyScript (source_key Scheduled q) (PendingKey q) (PendingRankKey q)
          (Num ?t) lim (queuePrefix q @ ''task:'')) d"
  note e1 = move_request_effect [OF t refl i r1_def, folded Q_def]
  define Q1 where "Q1 = snd (q_move_ready Scheduled ?t lim Q)"
  have i1: "qinv q Q1" unfolding Q1_def Q_def by (rule moveReadyScript_refines(2) [OF t refl i])
  have t1: "queue_typed q (view (snd r1))" and v1: "queue_view q (view (snd r1)) = Q1"
    using e1(2) by (simp_all add: becomes_def Q1_def)
  define r2 where "r2 = script_Run call Delivered (moveReadyScript (source_key Retry q) (PendingKey q) (PendingRankKey q)
          (Num ?t) lim (queuePrefix q @ ''task:'')) (snd r1)"
  note e2 = move_request_effect [OF t1 v1 [symmetric] i1 r2_def]
  define A where "A = set (take (nat lim) (due ?t (q_scheduled Q)))"
  define B where "B = set (take (nat lim) (due ?t (q_retry Q1)))"
  have iQ: "qinv q Q" using i by (simp add: Q_def)
  note s1 = q_move_ready_spec [OF iQ lim(1) refl, where src = Scheduled and now = ?t, simplified]
  note s2 = q_move_ready_spec [OF i1 lim(1) refl, where src = Retry and now = ?t, simplified]
  have rq: "q_retry Q1 = q_retry Q" using s1(3) [of Retry] by (simp add: Q1_def)
  obtain d1 where p1: "r1 = (Inr (int (card A)), d1)"
    using e1(1) s1(1) by (cases r1) (simp add: A_def)
  obtain d2 where p2: "r2 = (Inr (int (card B)), d2)"
    using e2(1) s2(1) by (cases r2) (simp add: B_def)
  have "MoveReady call (\<lambda>_. direct) now limit [q] d = ((int (card A) + int (card B), None), snd r2)"
    unfolding MoveReady_def lim(2) [symmetric]
    using p1 [unfolded r1_def] p2 [unfolded r2_def p1] by (simp add: request_def direct_def p2)
  moreover have "earliest lim (ready_at Scheduled (view d) q) (reached (ready_at Scheduled (view d) q) now) A"
    using due_earliest [OF qinv_containers(7) [OF iQ] lim(1), of now]
    by (simp add: A_def ready_at_def [abs_def] Q_def)
  moreover have "earliest lim (ready_at Retry (view d) q) (reached (ready_at Retry (view d) q) now) B"
    using due_earliest [OF qinv_containers(9) [OF iQ] lim(1), of now]
    by (simp add: B_def rq ready_at_def [abs_def] Q_def)
  moreover have "tasks (view (snd r2)) q = (\<lambda>i. if i \<in> A \<union> B then map_option make_ready (tasks (view d) q i) else tasks (view d) q i)"
  proof
    fix k
    have "A \<inter> B = {}"
    proof -
      have "A \<subseteq> in_state Q ''scheduled''" "B \<subseteq> in_state Q ''retry''"
        unfolding A_def B_def rq qinv_containers(8,10) [OF iQ, symmetric]
        using set_take_subset due_subset by (meson order_trans)+
      then show ?thesis using in_state_disjoint by fastforce
    qed
    then show "tasks (view (snd r2)) q k = (if k \<in> A \<union> B then map_option make_ready (tasks (view d) q k) else tasks (view d) q k)"
      using e2(2) s1(2) s2(2) by (auto simp: becomes_def tasks_def Q1_def A_def B_def Q_def)
  qed
  ultimately show ?thesis by blast
qed

lemma ExtendLease_lease:
  assumes ok: "store_ok (view d)" "queue_name_ok q" and ls: "ls = (if lease \<le> 0 then leaseDuration s else lease)"
  shows "lease_of (view (snd (ExtendLease call s ft q ts now lease d))) q i =
     left_by ft (lease_of (view d) q i)
       (if \<exists>t. Some t \<in> set ts \<and> ID t = i \<and> owner (view d) q i = Some (AttemptID t)
        then Some (f64_of_int (UnixMilli (now + ls))) else lease_of (view d) q i)"
    and "tasks (view (snd (ExtendLease call s ft q ts now lease d))) q = tasks (view d) q"
proof -
  note t = store_okD [OF ok, THEN conjunct1] and i = store_okD [OF ok, THEN conjunct2]
  define ps where "ps = map (\<lambda>t. (ID (the t), AttemptID (the t))) (filter (\<lambda>t. t \<noteq> None) ts)"
  note e = ExtendLease_effect(2) [OF t refl ls ps_def, of ft now]
  have "(\<exists>p \<in> set ps. fst p = i \<and> q_owned (queue_view q (view d)) i (snd p)) \<longleftrightarrow>
      (\<exists>t. Some t \<in> set ts \<and> ID t = i \<and> owner (view d) q i = Some (AttemptID t))"
    unfolding ps_def owner_iff [OF i] by force
  with e q_extend_lease [OF i, of "UnixMilli (now + ls)" ps i]
  show "lease_of (view (snd (ExtendLease call s ft q ts now lease d))) q i =
     left_by ft (lease_of (view d) q i)
       (if \<exists>t. Some t \<in> set ts \<and> ID t = i \<and> owner (view d) q i = Some (AttemptID t)
        then Some (f64_of_int (UnixMilli (now + ls))) else lease_of (view d) q i)"
    by (cases ft) (auto simp: becomes_def lease_of_def)
  show "tasks (view (snd (ExtendLease call s ft q ts now lease d))) q = tasks (view d) q"
    using becomes_tasks(1) [OF e] by (cases ft) (simp_all add: tasks_def fun_eq_iff)
qed

lemma ExpiredIDs_earliest:
  assumes ok: "store_ok (view d)" "queue_name_ok q"
  shows "\<exists>ids. fst (ExpiredIDs call Delivered now q limit d) = Inr ids \<and> distinct ids
     \<and> earliest (default_limit limit) (lease_of (view d) q) (reached (lease_of (view d) q) now) (set ids)"
proof -
  note t = store_okD [OF ok, THEN conjunct1] and i = store_okD [OF ok, THEN conjunct2]
  note z = qinv_containers(11) [OF i]
  have "lease_of (view d) q = zscore (q_lease (queue_view q (view d)))" by (simp add: fun_eq_iff lease_of_def)
  with ExpiredIDs_effect(1) [OF t refl, of Delivered now limit, folded default_limit_def]
    due_earliest [OF z default_limit_pos, of limit now] due_distinct [OF z]
  show ?thesis by simp
qed

lemma CleanupDeadLetters_earliest:
  assumes ok: "store_ok (view d)" "queue_name_ok q"
  shows "\<exists>A d'. CleanupDeadLetters call Delivered q before limit d = ((int (card A), None), d')
     \<and> earliest (default_limit limit) (archived_at (view d) q) (reached (archived_at (view d) q) before) A
     \<and> tasks (view d') q = (\<lambda>i. if i \<in> A then None else tasks (view d) q i)"
proof -
  note t = store_okD [OF ok, THEN conjunct1] and i = store_okD [OF ok, THEN conjunct2]
  let ?Q = "queue_view q (view d)" and ?r = "CleanupDeadLetters call Delivered q before limit d"
  define A where "A = set (take (nat (default_limit limit)) (due (UnixMilli before) (q_archived ?Q)))"
  note e = CleanupDeadLetters_effect [OF t refl i default_limit_def [of limit] refl, of Delivered before]
  note s = q_cleanup_spec [OF i default_limit_pos refl, of "UnixMilli before" limit, folded A_def]
  have "archived_at (view d) q = zscore (q_archived ?Q)" by (simp add: fun_eq_iff archived_at_def)
  with due_earliest [OF qinv_containers(13) [OF i] default_limit_pos, of limit before]
  have "earliest (default_limit limit) (archived_at (view d) q) (reached (archived_at (view d) q) before) A"
    by (simp add: A_def)
  moreover have "?r = ((int (card A), None), snd ?r)" using e(1) s(1) by (simp add: prod_eq_iff)
  moreover have "tasks (view (snd ?r)) q = (\<lambda>i. if i \<in> A then None else tasks (view d) q i)"
    using becomes_tasks(1) [OF e(2)] s(2) by (simp add: tasks_def fun_eq_iff)
  ultimately show ?thesis by blast
qed

lemma replay_request_effect:
  assumes "queue_typed q (view d)" and "Q = queue_view q (view d)" and "qinv q Q"
    and r_def: "r = script_Run call ft (replayArchivedScript (TaskKey q i) (ArchivedKey q) (PendingKey q)
          (PendingRankKey q) i (Doc j)) d"
  shows "fst r = reply_of ft (Inr (fst (q_replay i j Q)))"
    and "becomes q (view d) (view (snd r)) (left_by ft Q (snd (q_replay i j Q)))"
  using script_Run_executes [OF replayArchivedScript_refines [OF assms(1-3)] assms(1)] assms(2)
  unfolding r_def by simp_all

lemma Replay_refused:
  assumes ok: "store_ok (view d)" "queue_name_ok q"
    and no: "\<And>t. tasks (view d) q i = Some t \<Longrightarrow> State t \<noteq> ''archived''"
  shows "fst (ReplayDeadLetter call (\<lambda>_. direct) now q i d) =
           Some (if tasks (view d) q i = None then ErrTaskNotFound else ErrInvalidTransition)"
    and "view (snd (ReplayDeadLetter call (\<lambda>_. direct) now q i d)) = view d"
proof -
  note t = store_okD [OF ok, THEN conjunct1] and i = store_okD [OF ok, THEN conjunct2]
  note g = GetDeadLetter_effect [OF t refl i, of Delivered i]
  define e where "e = (if tasks (view d) q i = None then ErrTaskNotFound else ErrInvalidTransition)"
  obtain d1 where "GetDeadLetter call Delivered q i d = (Inl e, d1)" "view d1 = view d"
    using g no by (cases "GetDeadLetter call Delivered q i d") (auto simp: e_def tasks_def split: option.splits)
  then show "fst (ReplayDeadLetter call (\<lambda>_. direct) now q i d) =
           Some (if tasks (view d) q i = None then ErrTaskNotFound else ErrInvalidTransition)"
    and "view (snd (ReplayDeadLetter call (\<lambda>_. direct) now q i d)) = view d"
    by (simp_all add: ReplayDeadLetter_def direct_def e_def)
qed

lemma Replay_archived:
  assumes ok: "store_ok (view d)" "queue_name_ok q"
    and u: "tasks (view d) q i = Some u" "State u = ''archived''"
    and u': "u' = u\<lparr>State := ''pending'', RetryCount := 0, LastError := [], LastFailedAt := zero_time,
                 CompletedAt := zero_time, RunAt := now\<rparr>" and j: "Marshal u' = Some j"
  shows "fst (ReplayDeadLetter call (\<lambda>_. direct) now q i d) = None"
    and "tasks (view (snd (ReplayDeadLetter call (\<lambda>_. direct) now q i d))) q = (tasks (view d) q)(i \<mapsto> u')"
proof -
  note t = store_okD [OF ok, THEN conjunct1] and i = store_okD [OF ok, THEN conjunct2]
  have l: "q_lookup (queue_view q (view d)) i = Some u" using u(1) by (simp add: tasks_def)
  obtain d1 where g: "GetDeadLetter call Delivered q i d = (Inr u, d1)" "view d1 = view d"
    using GetDeadLetter_effect [OF t refl i, of Delivered i] l u(2)
    by (cases "GetDeadLetter call Delivered q i d") simp
  define r where "r = script_Run call Delivered (replayArchivedScript (TaskKey q i) (ArchivedKey q) (PendingKey q)
                    (PendingRankKey q) i (Doc j)) d1"
  have a: "q_archived_task (queue_view q (view d)) i" using archived_lookup(1) [OF i l] u(2) by simp
  note e = replay_request_effect [of q d1, unfolded g(2), OF t refl i r_def]
  have same: "u'\<lparr>State := ''pending'', AttemptID := []\<rparr> = u'"
    using archived_lookup(2) [OF i l u(2)] by (simp add: u')
  have "fst r = Inr 1" using e(1) a by (simp add: q_replay_def)
  then obtain d2 where rr: "r = (Inr 1, d2)" by (cases r) simp
  have "ReplayDeadLetter call (\<lambda>_. direct) now q i d = (None, snd r)"
    using g(1) j rr [unfolded r_def] rr
    by (simp add: ReplayDeadLetter_def request_def direct_def u')
  moreover have "tasks (view (snd r)) q = (tasks (view d) q)(i \<mapsto> u')"
    using becomes_tasks(1) [OF e(2)] q_replay_lookup [OF a j] unfolding same by (simp add: tasks_def fun_eq_iff)
  ultimately show "fst (ReplayDeadLetter call (\<lambda>_. direct) now q i d) = None"
    and "tasks (view (snd (ReplayDeadLetter call (\<lambda>_. direct) now q i d))) q = (tasks (view d) q)(i \<mapsto> u')"
    by simp_all
qed

lemma delete_request_effect:
  assumes "queue_typed q (view d)" and "Q = queue_view q (view d)" and "qinv q Q"
    and r_def: "r = script_Run call ft (deleteArchivedScript (TaskKey q i) (ArchivedKey q) i) d"
  shows "fst r = reply_of ft (Inr (fst (q_delete_archived i Q)))"
    and "becomes q (view d) (view (snd r)) (left_by ft Q (snd (q_delete_archived i Q)))"
  using script_Run_executes [OF deleteArchivedScript_refines [OF assms(1-3)] assms(1)] assms(2)
  unfolding r_def by simp_all

lemma Delete_archived:
  assumes ok: "store_ok (view d)" "queue_name_ok q" and u: "tasks (view d) q i = Some u" "State u = ''archived''"
  shows "fst (DeleteDeadLetter call (\<lambda>_. direct) q i d) = None"
    and "tasks (view (snd (DeleteDeadLetter call (\<lambda>_. direct) q i d))) q = (tasks (view d) q)(i := None)"
proof -
  note t = store_okD [OF ok, THEN conjunct1] and i = store_okD [OF ok, THEN conjunct2]
  have l: "q_lookup (queue_view q (view d)) i = Some u" using u(1) by (simp add: tasks_def)
  define r where "r = script_Run call Delivered (deleteArchivedScript (TaskKey q i) (ArchivedKey q) i) d"
  have a: "q_archived_task (queue_view q (view d)) i" using archived_lookup(1) [OF i l] u(2) by simp
  note e = delete_request_effect [OF t refl i r_def]
  have "fst r = Inr 1" using e(1) a by (simp add: q_delete_archived_def)
  then obtain d2 where rr: "r = (Inr 1, d2)" by (cases r) simp
  have "DeleteDeadLetter call (\<lambda>_. direct) q i d = (None, snd r)"
    using rr [unfolded r_def] rr by (simp add: DeleteDeadLetter_def request_def direct_def)
  moreover have "tasks (view (snd r)) q = (tasks (view d) q)(i := None)"
    using becomes_tasks(1) [OF e(2)] a by (simp add: q_delete_archived_def tasks_def fun_eq_iff)
  ultimately show "fst (DeleteDeadLetter call (\<lambda>_. direct) q i d) = None"
    and "tasks (view (snd (DeleteDeadLetter call (\<lambda>_. direct) q i d))) q = (tasks (view d) q)(i := None)"
    by simp_all
qed

lemma Delete_refused:
  assumes ok: "store_ok (view d)" "queue_name_ok q"
    and no: "\<And>t. tasks (view d) q i = Some t \<Longrightarrow> State t \<noteq> ''archived''"
  shows "fst (DeleteDeadLetter call (\<lambda>_. direct) q i d) =
           Some (if tasks (view d) q i = None then ErrTaskNotFound else ErrInvalidTransition)"
    and "tasks (view (snd (DeleteDeadLetter call (\<lambda>_. direct) q i d))) q = tasks (view d) q"
proof -
  note t = store_okD [OF ok, THEN conjunct1] and i = store_okD [OF ok, THEN conjunct2]
  define r where "r = script_Run call Delivered (deleteArchivedScript (TaskKey q i) (ArchivedKey q) i) d"
  note e = delete_request_effect [OF t refl i r_def]
  have na: "\<not> q_archived_task (queue_view q (view d)) i"
  proof
    assume "q_archived_task (queue_view q (view d)) i"
    then have "i \<in> in_state (queue_view q (view d)) ''archived''" by (simp add: q_archived_task_def in_state_def)
    then show False using no unfolding in_state_lookup [OF i] by (auto simp: tasks_def)
  qed
  then obtain d1 where rr: "r = (Inr 0, d1)" using e(1) by (cases r) (simp add: q_delete_archived_def)
  have v: "queue_typed q (view d1)" "queue_view q (view d1) = queue_view q (view d)"
    using e(2) na rr by (simp_all add: q_delete_archived_def becomes_def)
  have i1: "qinv q (queue_view q (view d1))" using i v(2) by simp
  define e where "e = (if tasks (view d) q i = None then ErrTaskNotFound else ErrInvalidTransition)"
  obtain d2 where "GetDeadLetter call Delivered q i d1 = (Inl e, d2)" "view d2 = view d1"
    using GetDeadLetter_effect [OF v(1) refl i1, of Delivered i] no v(2)
    by (cases "GetDeadLetter call Delivered q i d1") (auto simp: e_def tasks_def split: option.splits)
  then show "fst (DeleteDeadLetter call (\<lambda>_. direct) q i d) =
           Some (if tasks (view d) q i = None then ErrTaskNotFound else ErrInvalidTransition)"
    and "tasks (view (snd (DeleteDeadLetter call (\<lambda>_. direct) q i d))) q = tasks (view d) q"
    using rr [unfolded r_def] v(2)
    by (simp_all add: DeleteDeadLetter_def request_def direct_def e_def tasks_fun)
qed

text \<open>Listing: every id of the archive is an archived task, so no read fails.\<close>

lemma List_loop_direct:
  assumes t: "queue_typed q (view d)" and i: "qinv q (queue_view q (view d))"
    and "\<And>i. i \<in> set ids \<Longrightarrow> \<exists>t. tasks (view d) q i = Some t \<and> State t = ''archived''"
  shows "\<exists>d'. ListDeadLetters_loop call (\<lambda>_. direct) q ids res d =
     (Inr (res @ map (\<lambda>i. the (tasks (view d) q i)) ids), d') \<and> view d' = view d"
  using assms
proof (induction ids arbitrary: res d)
  case (Cons i ids)
  obtain u where u: "tasks (view d) q i = Some u" "State u = ''archived''" using Cons.prems(3) [of i] by auto
  obtain d1 where g: "GetDeadLetter call Delivered q i d = (Inr u, d1)" "view d1 = view d"
    using GetDeadLetter_effect [OF Cons.prems(1) refl Cons.prems(2), of Delivered i] u
    by (cases "GetDeadLetter call Delivered q i d") (simp add: tasks_def)
  obtain d' where "ListDeadLetters_loop call (\<lambda>_. direct) q ids (res @ [u]) d1 =
     (Inr ((res @ [u]) @ map (\<lambda>i. the (tasks (view d1) q i)) ids), d') \<and> view d' = view d1"
    using Cons.IH [of d1 "res @ [u]"] Cons.prems g(2) by auto
  with g u(1) show ?case by (simp add: direct_def)
qed simp

lemma List_direct:
  assumes ok: "store_ok (view d)" "queue_name_ok q" and off: "0 \<le> offset"
    and small: "offset + default_limit limit \<le> 2 ^ 63"
  shows "fst (ListDeadLetters call (\<lambda>_. direct) q offset limit d) =
     Inr (map (\<lambda>i. the (tasks (view d) q i))
       (take (nat (default_limit limit)) (drop (nat offset) (zmembers (q_archived (queue_view q (view d)))))))"
    and "view (snd (ListDeadLetters call (\<lambda>_. direct) q offset limit d)) = view d"
proof -
  note t = store_okD [OF ok, THEN conjunct1] and i = store_okD [OF ok, THEN conjunct2]
  define lim where "lim = default_limit limit"
  have lim: "0 < lim" "lim = (if limit \<le> 0 then 100 else limit)" by (simp_all add: lim_def default_limit_def)
  define ids where "ids = take (nat lim) (drop (nat offset) (zmembers (q_archived (queue_view q (view d)))))"
  have w: "wrap64 (offset + lim - 1) = offset + lim - 1"
    using off lim small by (intro wrap64_id) (simp add: int64_range_def lim_def)
  have "zslice offset (offset + lim - 1) xs = take (nat lim) (drop (nat offset) xs)" for xs :: "string list"
    using off lim(1) by (simp add: zslice_def Let_def)
  then have "run redis_doc (call_strs (ZRANGE (ArchivedKey q) offset (wrap64 (offset + lim - 1))) Ret) (view d) =
     (Inr ids, view d)"
    using queue_typed_containers(6) [OF t] w by (simp add: call_strs_def ids_def)
  note rd = script_Run_read [OF this, of Delivered, simplified]
  then obtain d1 where d1: "script_Run call Delivered
      (call_strs (ZRANGE (ArchivedKey q) offset (wrap64 (offset + lim - 1))) Ret) d = (Inr ids, d1)" "view d1 = view d"
    by (metis prod.collapse)
  have arch: "\<exists>t. tasks (view d1) q k = Some t \<and> State t = ''archived''" if "k \<in> set ids" for k
  proof -
    have "k \<in> in_state (queue_view q (view d)) ''archived''"
      using that unfolding ids_def qinv_containers(14) [OF i, symmetric] by (meson in_set_dropD in_set_takeD)
    then show ?thesis unfolding in_state_lookup [OF i] by (simp add: d1(2) tasks_def)
  qed
  have t1: "queue_typed q (view d1)" "qinv q (queue_view q (view d1))" using t i d1(2) by simp_all
  obtain d' where "ListDeadLetters_loop call (\<lambda>_. direct) q ids [] d1 =
     (Inr ([] @ map (\<lambda>i. the (tasks (view d1) q i)) ids), d') \<and> view d' = view d1"
    using List_loop_direct [OF t1 arch] by blast
  then show "fst (ListDeadLetters call (\<lambda>_. direct) q offset limit d) =
     Inr (map (\<lambda>i. the (tasks (view d) q i))
       (take (nat (default_limit limit)) (drop (nat offset) (zmembers (q_archived (queue_view q (view d)))))))"
    and "view (snd (ListDeadLetters call (\<lambda>_. direct) q offset limit d)) = view d"
    using off d1 unfolding ListDeadLetters_def lim(2) [symmetric] ids_def lim_def [symmetric]
    by (simp_all add: request_def direct_def)
qed

end

end
