(* ===== verification/ClaimOrder.thy ===== *)
theory ClaimOrder
  imports QueueBatches
begin

text \<open>
  The order in which pending tasks are claimed: the rank that \<open>taskRank\<close> computes in doubles, and the
  zero-padded sequence number that breaks ties.
\<close>

text \<open>The sequence number of the last task submitted to a queue.\<close>

definition seq_of :: "keyspace \<Rightarrow> string \<Rightarrow> int" where
  "seq_of ks q = q_seq (queue_view q ks)"

text \<open>Priorities and creation times for which the rank separates priorities: a priority below
  \<open>2 ^ 31\<close> and a time between 1970 and the year 19800.\<close>

definition rank_sane :: "TaskMessage \<Rightarrow> bool" where
  "rank_sane m \<longleftrightarrow> 0 \<le> Priority m \<and> Priority m < 2 ^ 31
     \<and> 0 \<le> UnixMilli (CreatedAt m) \<and> UnixMilli (CreatedAt m) < 2 ^ 49"

lemma f64_of_int_error:
  assumes "\<bar>n\<bar> < 2 ^ 82"
  shows "\<bar>f64_of_int n - n\<bar> \<le> 2 ^ 28"
proof -
  have main: "\<bar>int (f64_round_nat m) - int m\<bar> \<le> 2 ^ 28" if "m < 2 ^ 82" for m
  proof -
    have "f64_shift m \<le> 29"
    proof (rule ccontr)
      assume "\<not> f64_shift m \<le> 29"
      then have "(2::nat) ^ 82 \<le> 2 ^ (52 + f64_shift m)" by (intro power_increasing) simp_all
      also have "\<dots> \<le> m" using \<open>\<not> f64_shift m \<le> 29\<close> by (intro f64_shift_lower) simp
      finally show False using that by simp
    qed
    then have "(2::nat) ^ f64_shift m \<le> 2 ^ 29" by (intro power_increasing) simp_all
    then have "2 * f64_round_nat m \<le> 2 * m + 2 ^ 29" "2 * m \<le> 2 * f64_round_nat m + 2 ^ 29"
      using f64_round_nat_error [of m] by linarith+
    then show ?thesis by (simp add: abs_le_iff)
  qed
  show ?thesis
  proof (cases "n < 0")
    case True
    with assms have "nat (- n) < 2 ^ 82" by (simp add: nat_less_iff)
    from main [OF this] True show ?thesis by (simp add: f64_of_int_def)
  next
    case False
    with assms have "nat n < 2 ^ 82" by (simp add: nat_less_iff)
    from main [OF this] False show ?thesis by (simp add: f64_of_int_def)
  qed
qed

lemma taskRank_bound:
  assumes "0 \<le> Priority m" and "Priority m < 2 ^ 31" and "0 \<le> UnixMilli (CreatedAt m)" and "UnixMilli (CreatedAt m) < 2 ^ 49"
  shows "\<bar>taskRank m - (UnixMilli (CreatedAt m) - Priority m * 10 ^ 15)\<bar> \<le> 2 ^ 29"
proof -
  let ?p = "Priority m" and ?t = "UnixMilli (CreatedAt m)"
  have p: "f64_of_int ?p = ?p" and t: "f64_of_int ?t = ?t"
    using assms by (intro f64_of_int_exact; simp)+
  have x: "\<bar>- ?p * 10 ^ 15\<bar> < 2 ^ 81"
  proof -
    have "?p * 10 ^ 15 \<le> (2 ^ 31 - 1) * 10 ^ 15" using assms by (intro mult_right_mono) simp_all
    also have "\<dots> < (2 ^ 81 :: int)" by simp
    finally show ?thesis using assms(1) by (simp add: abs_less_iff)
  qed
  define y where "y = f64_of_int (- ?p * 10 ^ 15)"
  have e1: "\<bar>y - (- ?p * 10 ^ 15)\<bar> \<le> 2 ^ 28" unfolding y_def using x by (intro f64_of_int_error) simp
  then have "\<bar>y + ?t\<bar> < 2 ^ 82" using x assms by (simp add: abs_le_iff abs_less_iff)
  then have e2: "\<bar>f64_of_int (y + ?t) - (y + ?t)\<bar> \<le> 2 ^ 28" by (rule f64_of_int_error)
  have "taskRank m = f64_of_int (y + ?t)" by (simp add: taskRank_def y_def p t)
  with e1 e2 show ?thesis by (simp add: abs_le_iff)
qed

lemma taskRank_priority:
  assumes "0 \<le> Priority m" and "Priority m' < 2 ^ 31" and "Priority m < Priority m'"
    and "0 \<le> UnixMilli (CreatedAt m)" and "UnixMilli (CreatedAt m) < 2 ^ 49"
    and "0 \<le> UnixMilli (CreatedAt m')" and "UnixMilli (CreatedAt m') < 2 ^ 49"
  shows "taskRank m' < taskRank m"
proof -
  have "\<bar>taskRank m - (UnixMilli (CreatedAt m) - Priority m * 10 ^ 15)\<bar> \<le> 2 ^ 29"
    "\<bar>taskRank m' - (UnixMilli (CreatedAt m') - Priority m' * 10 ^ 15)\<bar> \<le> 2 ^ 29"
    using assms by (intro taskRank_bound; simp)+
  moreover have "(Priority m + 1) * 10 ^ 15 \<le> Priority m' * 10 ^ 15" using assms by (intro mult_right_mono) simp_all
  moreover have "(2 ^ 49 + 4 * 2 ^ 29 :: int) < 10 ^ 15" by simp
  ultimately show ?thesis using assms(4,7) by (simp add: abs_le_iff algebra_simps)
qed

lemma taskRank_created:
  assumes "Priority m = Priority m'" and "CreatedAt m \<le> CreatedAt m'"
  shows "taskRank m \<le> taskRank m'"
proof -
  have "UnixMilli (CreatedAt m) \<le> UnixMilli (CreatedAt m')" unfolding UnixMilli_def using assms(2) by (rule zdiv_mono1) simp
  then show ?thesis unfolding taskRank_def assms(1) by (intro f64_of_int_mono add_left_mono)
qed

lemma taskRank_exact:
  assumes "0 \<le> Priority m" and "Priority m \<le> 9" and "0 \<le> UnixMilli (CreatedAt m)" and "UnixMilli (CreatedAt m) < 2 ^ 49"
  shows "taskRank m = UnixMilli (CreatedAt m) - Priority m * 10 ^ 15"
proof -
  let ?p = "Priority m" and ?t = "UnixMilli (CreatedAt m)"
  have "0 \<le> ?p * 10 ^ 15" "?p * 10 ^ 15 \<le> 9 * 10 ^ 15" using assms(1,2) by simp_all
  then have "f64_of_int (- ?p * 10 ^ 15) = - ?p * 10 ^ 15" "f64_of_int (- ?p * 10 ^ 15 + ?t) = - ?p * 10 ^ 15 + ?t"
    using assms(3,4) by (intro f64_of_int_exact; simp add: abs_less_iff)+
  moreover have "f64_of_int ?p = ?p" "f64_of_int ?t = ?t" using assms by (intro f64_of_int_exact; simp)+
  ultimately show ?thesis by (simp add: taskRank_def)
qed

lemma rank_member_less:
  assumes "0 \<le> n" and "n < n'" and "n' < 2 ^ 53"
  shows "rank_member n i < rank_member n' j"
proof -
  have e: "f64_of_int n = n" "f64_of_int n' = n'" using assms by (intro f64_of_int_exact; simp)+
  have "nat n < 10 ^ 20" "nat n' < 10 ^ 20" using assms by (simp_all add: nat_less_iff)
  then have "format_020d n < format_020d n'"
    unfolding format_020d_def e using assms by (subst pad_dec_less_iff) simp_all
  moreover have "length (format_020d n) = length (format_020d n')" by (simp add: format_020d_def)
  ultimately show ?thesis unfolding rank_member_def by (rule append_less_iff [rotated])
qed

lemma taskRank_rounded: "f64_of_int (taskRank m) = taskRank m"
  by (simp add: taskRank_def f64_of_int_idem)

lemma rank_at_becomes: "becomes q ks ks' Q' \<Longrightarrow> rank_at ks' q i = rank_entry (q_fields Q' i)"
  by (simp add: rank_at_def becomes_def)

context redis_server
begin

lemma Enqueue_rank:
  assumes ok: "store_ok (view d)" "queue_name_ok (Queue m)" and v: "Validate (Some m) = None" "Marshal m = Some j"
    and new: "tasks (view d) (Queue m) (ID m) = None" and room: "seq_room (view d) (Queue m)"
    and d': "d' = snd (Enqueue call Delivered m d)"
  shows "rank_at (view d') (Queue m) (ID m) = (taskRank m, rank_member (seq_of (view d) (Queue m) + 1) (ID m))"
    and "i \<noteq> ID m \<Longrightarrow> rank_at (view d') (Queue m) i = rank_at (view d) (Queue m) i"
    and "seq_of (view d') (Queue m) = seq_of (view d) (Queue m) + 1"
proof -
  let ?Q = "queue_view (Queue m) (view d)"
  note t = store_okD [OF ok, THEN conjunct1] and i = store_okD [OF ok, THEN conjunct2]
  note e = Enqueue_effect(2) [OF t v refl refl, of Delivered, folded d', simplified]
  have op: "q_task ?Q (ID m) = None" "q_seq ?Q + 1 < 2 ^ 63"
    using new room q_lookup_None [OF i] by (simp_all add: tasks_def seq_room_def)
  show "rank_at (view d') (Queue m) (ID m) = (taskRank m, rank_member (seq_of (view d) (Queue m) + 1) (ID m))"
    unfolding rank_at_becomes [OF e] using op
    by (simp add: q_enqueue_def Let_def rank_entry_def new_task_def rank_of_def member_of_def seq_of_def taskRank_rounded)
  show "i \<noteq> ID m \<Longrightarrow> rank_at (view d') (Queue m) i = rank_at (view d) (Queue m) i"
    unfolding rank_at_becomes [OF e] using op by (simp add: q_enqueue_def Let_def rank_at_def)
  show "seq_of (view d') (Queue m) = seq_of (view d) (Queue m) + 1"
    using e op by (simp add: q_enqueue_def Let_def seq_of_def becomes_def)
qed

end

text \<open>C28. For priorities up to 9 the rank tells creation times apart to the millisecond, as the comment on
  \<open>taskRank\<close> says; from priority 10 on the double is too coarse, and tasks created a millisecond apart
  get the same rank and fall back to submission order.\<close>

theorem rank_resolution:
  "(rank_sane m \<and> rank_sane m' \<and> Priority m = Priority m' \<and> Priority m \<le> 9 \<longrightarrow>
      (taskRank m < taskRank m' \<longleftrightarrow> UnixMilli (CreatedAt m) < UnixMilli (CreatedAt m')))
   \<and> taskRank ((sample_task i q)\<lparr>Priority := 10, CreatedAt := 1700000000000000000\<rparr>) =
     taskRank ((sample_task i q)\<lparr>Priority := 10, CreatedAt := 1700000000001000000\<rparr>)"
proof
  show "rank_sane m \<and> rank_sane m' \<and> Priority m = Priority m' \<and> Priority m \<le> 9 \<longrightarrow>
      (taskRank m < taskRank m' \<longleftrightarrow> UnixMilli (CreatedAt m) < UnixMilli (CreatedAt m'))"
    by (simp add: rank_sane_def taskRank_exact)
  have "f64_of_int (f64_of_int (- f64_of_int 10 * 10 ^ 15) + f64_of_int 1700000000000) =
      f64_of_int (f64_of_int (- f64_of_int 10 * 10 ^ 15) + f64_of_int 1700000000001)"
    by (simp add: f64_of_int_def f64_round_nat_def Let_def f64_shift.simps)
  then show "taskRank ((sample_task i q)\<lparr>Priority := 10, CreatedAt := 1700000000000000000\<rparr>) =
     taskRank ((sample_task i q)\<lparr>Priority := 10, CreatedAt := 1700000000001000000\<rparr>)"
    by (simp add: taskRank_def UnixMilli_def)
qed

theorem rank_resolution_witness:
  "taskRank (sample_task ''t1'' ''image'') < taskRank ((sample_task ''t2'' ''image'')\<lparr>CreatedAt := 1700000000001000000\<rparr>)"
  using rank_resolution [of "sample_task ''t1'' ''image''" "(sample_task ''t2'' ''image'')\<lparr>CreatedAt := 1700000000001000000\<rparr>"]
  by (simp add: rank_sane_def sample_task_def UnixMilli_def)

end
