(* ===== verification/StoreProperties.thy ===== *)
theory StoreProperties
  imports StoreMaintenance ClaimOrder
begin

text \<open>
  The properties of the Redis store, for every server that behaves as the command reference says. The
  concrete instances use the reference itself as the server and start from the empty database.
\<close>

section \<open>Sample databases\<close>

definition empty_db :: keyspace where
  "empty_db = (\<lambda>_. None)"

definition sample_now :: gotime where
  "sample_now = 1700000000000000000"

definition sample_entropy :: entropy where
  "sample_entropy = Inr (\<lambda>_. 7)"

definition sample_attempt :: string where
  "sample_attempt = projr (newAttemptID sample_entropy)"

definition sample_pending :: TaskMessage where
  "sample_pending = sample_task ''t1'' ''image''"

definition sample_active :: TaskMessage where
  "sample_active = sample_pending\<lparr>State := StateActive, AttemptID := sample_attempt\<rparr>"

text \<open>One pending task, and the same task claimed.\<close>

definition db_pending :: keyspace where
  "db_pending = snd (Enqueue redis_doc Delivered sample_pending empty_db)"

definition db_active :: keyspace where
  "db_active = snd (Claim redis_doc New_Store Delivered sample_entropy ''image'' sample_now 0 db_pending)"

definition sample_dead :: TaskMessage where
  "sample_dead = sample_active\<lparr>State := StateArchived, AttemptID := '''', LastError := ''boom''\<rparr>"

definition db_archived :: keyspace where
  "db_archived = snd (Archive redis_doc Delivered sample_now sample_active ''boom'' db_active)"

lemma sample_ok [simp]:
  "queue_name_ok ''image''" "Queue sample_pending = ''image''" "ID sample_pending = ''t1''"
  "Validate (Some sample_pending) = None" "State sample_pending = ''pending''" "AttemptID sample_pending = []"
  "Queue sample_active = ''image''" "ID sample_active = ''t1''" "State sample_active = ''active''"
  "AttemptID sample_active = sample_attempt"
  by (simp_all add: sample_pending_def sample_active_def sample_task_def queue_name_ok_def)

declare Validate.simps [simp del]

lemma sample_marshals:
  "Marshal sample_pending \<noteq> None"
  "time_marshals now \<Longrightarrow> Marshal (sample_active\<lparr>State := s, AttemptID := a, CompletedAt := now\<rparr>) \<noteq> None"
  "time_marshals now \<Longrightarrow> Marshal (sample_active\<lparr>State := s, AttemptID := a, LastError := r, LastFailedAt := now\<rparr>) \<noteq> None"
  "Marshal (sample_active\<lparr>State := s, AttemptID := a, LastError := r\<rparr>) \<noteq> None"
  by (simp_all add: Marshal_def sample_active_def sample_pending_def sample_task_def time_marshals_def zero_time_def)

lemma sample_attempt_id: "newAttemptID sample_entropy = Inr sample_attempt"
  by (simp add: sample_attempt_def sample_entropy_def newAttemptID_def)

lemma empty_tasks [simp]: "tasks empty_db q i = None" "seq_room empty_db q"
  by (simp_all add: empty_db_def tasks_def q_lookup_def queue_view_def task_view_def seq_room_def as_int_def)

text \<open>A single task enqueued in the empty database, and the only task of a queue claimed.\<close>

lemma enqueued_alone:
  assumes "queue_name_ok (Queue m)" "Validate (Some m) = None" "Marshal m \<noteq> None" "State m = ''pending''" "AttemptID m = []"
  shows "store_ok (snd (Enqueue redis_doc Delivered m empty_db))"
    and "tasks (snd (Enqueue redis_doc Delivered m empty_db)) (Queue m) = [ID m \<mapsto> m]"
    and "fst (Enqueue redis_doc Delivered m empty_db) = (None, m)"
proof -
  have e: "store_ok (id empty_db)" by (simp add: empty_db_def store_ok_empty)
  show "store_ok (snd (Enqueue redis_doc Delivered m empty_db))" using doc.Enqueue_keeps [OF e assms(1)] by simp
  obtain j where j: "Marshal m = Some j" using assms(3) by blast
  have same: "m\<lparr>State := ''pending''\<rparr> = m" "m\<lparr>AttemptID := []\<rparr> = m" using assms(4,5) by simp_all
  have "tasks empty_db (Queue m) = Map.empty" by (simp add: fun_eq_iff)
  with doc.Enqueue_new [OF e assms(1,2) j, of Delivered]
  show "tasks (snd (Enqueue redis_doc Delivered m empty_db)) (Queue m) = [ID m \<mapsto> m]"
    "fst (Enqueue redis_doc Delivered m empty_db) = (None, m)"
    by (simp_all add: same reported_def)
qed

lemma claimed_alone:
  assumes "store_ok D" "queue_name_ok q" "tasks D q = [i \<mapsto> m]" "State m = ''pending''"
  shows "store_ok (snd (Claim redis_doc New_Store Delivered sample_entropy q sample_now 0 D))"
    and "tasks (snd (Claim redis_doc New_Store Delivered sample_entropy q sample_now 0 D)) q =
      [i \<mapsto> m\<lparr>State := ''active'', AttemptID := sample_attempt\<rparr>]"
    and "fst (Claim redis_doc New_Store Delivered sample_entropy q sample_now 0 D) =
      Inr (m\<lparr>State := ''active'', AttemptID := sample_attempt\<rparr>)"
proof -
  let ?D = "snd (Claim redis_doc New_Store Delivered sample_entropy q sample_now 0 D)"
  show "store_ok ?D" using doc.Claim_keeps [of D q] assms(1,2) by simp
  have p: "store_ok (id D)" "tasks (id D) q i = Some m" by (simp_all add: assms)
  from doc.Claim_pending [OF p(1) assms(2) sample_attempt_id p(2) assms(4) refl,
        where s = New_Store and ft = Delivered and lease = 0 and now = sample_now]
  obtain k t where c: "best_pending (id D) q k t"
    "fst (Claim redis_doc New_Store Delivered sample_entropy q sample_now 0 D) =
       Inr (t\<lparr>State := ''active'', AttemptID := sample_attempt\<rparr>)"
    "tasks (id ?D) q = (tasks (id D) q)(k \<mapsto> t\<lparr>State := ''active'', AttemptID := sample_attempt\<rparr>)"
    unfolding fate.case left_by_simps by blast
  then have "k = i" "t = m" by (auto simp: best_pending_def assms(3) split: if_splits)
  with c show "tasks ?D q = [i \<mapsto> m\<lparr>State := ''active'', AttemptID := sample_attempt\<rparr>]"
    "fst (Claim redis_doc New_Store Delivered sample_entropy q sample_now 0 D) =
      Inr (m\<lparr>State := ''active'', AttemptID := sample_attempt\<rparr>)"
    by (simp_all add: assms(3))
qed

lemma db_pending_ok: "store_ok db_pending" "tasks db_pending ''image'' = [''t1'' \<mapsto> sample_pending]"
  using enqueued_alone [OF _ sample_ok(4) sample_marshals(1)] by (simp_all add: db_pending_def)

lemma db_active_ok: "store_ok db_active" "tasks db_active ''image'' = [''t1'' \<mapsto> sample_active]"
   "fst (Claim redis_doc New_Store Delivered sample_entropy ''image'' sample_now 0 db_pending) = Inr sample_active"
  using claimed_alone [OF db_pending_ok(1) sample_ok(1) db_pending_ok(2) sample_ok(5)]
  by (simp_all add: db_active_def sample_active_def)

lemma db_active_owner: "owner db_active ''image'' ''t1'' = Some sample_attempt"
  by (simp add: owner_def db_active_ok)

lemma db_archived_ok [simp]: "store_ok db_archived" "tasks db_archived ''image'' = [''t1'' \<mapsto> sample_dead]"
  "State sample_dead = ''archived''"
proof -
  have ok: "store_ok (id db_active)" "queue_name_ok (Queue sample_active)"
    "owner (id db_active) (Queue sample_active) (ID sample_active) = Some (AttemptID sample_active)"
    by (simp_all add: db_active_ok db_active_owner)
  show "store_ok db_archived" unfolding db_archived_def using doc.finish_keeps(3) [OF ok(1,2)] by simp
  have "tasks (id db_archived) ''image'' = (tasks (id db_active) ''image'')(''t1'' \<mapsto> sample_dead)"
    unfolding db_archived_def sample_dead_def
    using doc.finish_owner(3) [OF ok, of _ "''boom''" Delivered] sample_marshals(4) by simp
  then show "tasks db_archived ''image'' = [''t1'' \<mapsto> sample_dead]" by (simp add: db_active_ok)
  show "State sample_dead = ''archived''" by (simp add: sample_dead_def)
qed


section \<open>Properties\<close>

text \<open>C1. In every state that any number of clients can reach by calling the store's methods, whatever
  the fate of their requests and however their requests interleave, every queue whose name holds
  no closing brace is well-formed: each task hash decodes to a message of that queue and id and has
  one of the six states; pending tasks are exactly those of the pending list and of the ranking
  (once, under their stored rank and sequence member), scheduled, retry and archived tasks exactly
  those of their sorted set, active tasks exactly those of the active list and of the lease set,
  and only active tasks carry an attempt id.\<close>

theorem store_invariant:
  assumes "redis_server call view" and "store_ok (view d0)" and "(store_step call)\<^sup>*\<^sup>* d0 d"
  shows "store_ok (view d)"
  by (rule redis_server.run_keeps [OF assms(1,3,2)])

theorem store_invariant_witness: "store_ok (id db_active)"
proof -
  have "store_step redis_doc empty_db db_pending" unfolding db_pending_def by (rule store_step.enqueue) simp
  moreover have "store_step redis_doc db_pending db_active" unfolding db_active_def by (rule store_step.claim) simp
  ultimately have run: "(store_step redis_doc)\<^sup>*\<^sup>* empty_db db_active" by auto
  have "store_ok (id empty_db)" unfolding empty_db_def by (simp add: store_ok_empty)
  from store_invariant [OF doc.redis_server_axioms, OF this run] show ?thesis .
qed

text \<open>C3. A successful claim hands out a task that was pending, marks it active under the fresh attempt
  id, leases it until the claim time plus the lease, changes no other task, and the task it takes
  is the first of all pending tasks by rank and then by sequence.\<close>

theorem claim_takes_best_pending:
  assumes "redis_server call view" and "store_ok (view d)" and "queue_name_ok q"
    and "Claim call s ft rnd q now lease d = (Inr m, d')"
  shows "\<exists>t. tasks (view d) q (ID m) = Some t \<and> State t = StatePending
     \<and> m = t\<lparr>State := StateActive, AttemptID := AttemptID m\<rparr> \<and> newAttemptID rnd = Inr (AttemptID m)
     \<and> tasks (view d') q = (tasks (view d) q)(ID m \<mapsto> m)
     \<and> lease_of (view d') q (ID m) =
         Some (f64_of_int (UnixMilli (now + (if lease \<le> 0 then leaseDuration s else lease))))
     \<and> (\<forall>j u. tasks (view d) q j = Some u \<and> State u = StatePending \<longrightarrow>
           rank_at (view d) q (ID m) \<le> rank_at (view d) q j)"
proof -
  obtain a where a: "newAttemptID rnd = Inr a"
    using assms(4) by (cases "newAttemptID rnd") (simp_all add: Claim_def)
  have res: "fst (Claim call s ft rnd q now lease d) = Inr m" "d' = snd (Claim call s ft rnd q now lease d)"
    by (simp_all add: assms(4))
  obtain j u where ju: "tasks (view d) q j = Some u" "State u = ''pending''"
    using redis_server.Claim_empty(1) [OF assms(1-3) a, of s ft now lease] res(1)
    by (cases ft) fastforce+
  from redis_server.Claim_pending [OF assms(1-3) a ju refl, where s = s and ft = ft and lease = lease and now = now]
  obtain i t where c: "best_pending (view d) q i t"
    "fst (Claim call s ft rnd q now lease d) = (case ft of Delivered \<Rightarrow> Inr (t\<lparr>State := ''active'', AttemptID := a\<rparr>)
         | NotSent e \<Rightarrow> Inl (wrap_err ''claim task'' e) | ReplyLost e \<Rightarrow> Inl (wrap_err ''claim task'' e))"
    "tasks (view d') q = left_by ft (tasks (view d) q) ((tasks (view d) q)(i \<mapsto> t\<lparr>State := ''active'', AttemptID := a\<rparr>))"
    "lease_of (view d') q = left_by ft (lease_of (view d) q)
        ((lease_of (view d) q)(i \<mapsto> f64_of_int (UnixMilli (now + (if lease \<le> 0 then leaseDuration s else lease)))))"
    unfolding res(2) by blast
  have ft: "ft = Delivered" using res(1) c(2) by (cases ft) simp_all
  have m: "m = t\<lparr>State := ''active'', AttemptID := a\<rparr>" using res(1) c(2) ft by simp
  have "ID m = i" "AttemptID m = a" using m c(1) by (simp_all add: best_pending_def)
  with c ft m a show ?thesis unfolding best_pending_def by (intro exI [of _ t]) simp
qed

theorem claim_takes_best_pending_witness:
  "\<exists>t. tasks (id db_pending) ''image'' ''t1'' = Some t \<and> State t = StatePending
     \<and> tasks (id db_active) ''image'' = (tasks (id db_pending) ''image'')(''t1'' \<mapsto> sample_active)"
proof -
  have c: "Claim redis_doc New_Store Delivered sample_entropy ''image'' sample_now 0 db_pending = (Inr sample_active, db_active)"
    using db_active_ok(3) by (simp add: db_active_def prod_eq_iff)
  have ok: "store_ok (id db_pending)" by (simp add: db_pending_ok)
  from claim_takes_best_pending [OF doc.redis_server_axioms, OF ok sample_ok(1) c]
  show ?thesis by auto
qed

text \<open>C4. A claim whose request is answered finds work exactly when the queue has a pending task: it then
  returns a task, and otherwise reports the empty queue and changes nothing.\<close>

theorem claim_finds_pending_work:
  assumes "redis_server call view" and "store_ok (view d)" and "queue_name_ok q" and "newAttemptID rnd = Inr a"
  shows "(\<exists>m. fst (Claim call s Delivered rnd q now lease d) = Inr m)
           = (\<exists>i t. tasks (view d) q i = Some t \<and> State t = StatePending)
     \<and> ((\<exists>i t. tasks (view d) q i = Some t \<and> State t = StatePending)
        \<or> fst (Claim call s Delivered rnd q now lease d) = Inl ErrQueueEmpty
          \<and> untouched q (view d) (view (snd (Claim call s Delivered rnd q now lease d))))"
proof (cases "\<exists>i t. tasks (view d) q i = Some t \<and> State t = StatePending")
  case True
  then obtain i t where "tasks (view d) q i = Some t" "State t = ''pending''" by auto
  from redis_server.Claim_pending [OF assms this refl, where s = s and ft = Delivered and lease = lease and now = now]
  show ?thesis using True by auto
next
  case False
  then have none: "\<And>i t. tasks (view d) q i = Some t \<Longrightarrow> State t \<noteq> ''pending''" by auto
  from redis_server.Claim_empty [OF assms none, where s = s and ft = Delivered and now = now and lease = lease] False show ?thesis by simp
qed

theorem claim_finds_pending_work_witness:
  "(\<exists>m. fst (Claim redis_doc New_Store Delivered sample_entropy ''image'' sample_now 0 db_pending) = Inr m)
   \<and> fst (Claim redis_doc New_Store Delivered sample_entropy ''image'' sample_now 0 empty_db) = Inl ErrQueueEmpty"
proof -
  have ok: "store_ok (id db_pending)" "store_ok (id empty_db)"
    by (simp_all add: db_pending_ok empty_db_def store_ok_empty)
  from claim_finds_pending_work [OF doc.redis_server_axioms, OF ok(1) sample_ok(1) sample_attempt_id,
      of New_Store sample_now 0]
    claim_finds_pending_work [OF doc.redis_server_axioms, OF ok(2) sample_ok(1) sample_attempt_id,
      of New_Store sample_now 0]
  show ?thesis by (simp add: db_pending_ok)
qed



text \<open>C6. The owner of a task can end its attempt, each way once: acknowledging completes the task,
  scheduling a retry or archiving records the reason, requeueing makes it pending again. The call
  succeeds when its reply arrives, returns the caller's message as stored, and changes exactly this
  task; if the reply is lost the call reports the error although the transition has happened.\<close>

theorem owner_ends_attempt:
  assumes "redis_server call view" and "store_ok (view d)" and "queue_name_ok (Queue m)"
    and "owner (view d) (Queue m) (ID m) = Some (AttemptID m)"
    and "done = m\<lparr>State := StateCompleted, AttemptID := '''', CompletedAt := now\<rparr>" and "Marshal done \<noteq> None"
    and "again = m\<lparr>State := StateRetry, AttemptID := '''', LastError := reason, LastFailedAt := now\<rparr>"
    and "Marshal again \<noteq> None"
    and "dead = m\<lparr>State := StateArchived, AttemptID := '''', LastError := reason\<rparr>" and "Marshal dead \<noteq> None"
    and "T = tasks (view d) (Queue m)"
  shows "(case AckSuccess call ft now m d of (r, d') \<Rightarrow>
            r = reported ''ack task'' ft m (None, done)
            \<and> tasks (view d') (Queue m) = left_by ft T (T(ID m \<mapsto> done)))
     \<and> (case ScheduleRetry call ft now m at reason d of (r, d') \<Rightarrow>
            r = reported ''schedule retry'' ft m (None, again)
            \<and> tasks (view d') (Queue m) = left_by ft T (T(ID m \<mapsto> again)))
     \<and> (case Archive call ft now m reason d of (r, d') \<Rightarrow>
            r = reported ''archive task'' ft m (None, dead)
            \<and> tasks (view d') (Queue m) = left_by ft T (T(ID m \<mapsto> dead)))
     \<and> (case Requeue call ft m d of (r, d') \<Rightarrow>
            r = reported ''requeue task'' ft m (None, m\<lparr>State := StatePending, AttemptID := ''''\<rparr>)
            \<and> tasks (view d') (Queue m) =
                left_by ft T (T(ID m \<mapsto> (the (T (ID m)))\<lparr>State := StatePending, AttemptID := ''''\<rparr>)))"
proof -
  note f = redis_server.finish_owner [OF assms(1-4)]
  have "case AckSuccess call ft now m d of (r, d') \<Rightarrow> r = reported ''ack task'' ft m (None, done)
            \<and> tasks (view d') (Queue m) = left_by ft T (T(ID m \<mapsto> done))"
    using f(1) [OF assms(5) [unfolded StateCompleted_def] assms(6), of ft]
    by (cases "AckSuccess call ft now m d") (simp add: assms(11))
  moreover have "case ScheduleRetry call ft now m at reason d of (r, d') \<Rightarrow>
            r = reported ''schedule retry'' ft m (None, again)
            \<and> tasks (view d') (Queue m) = left_by ft T (T(ID m \<mapsto> again))"
    using f(2) [OF assms(7) [unfolded StateRetry_def] assms(8), of ft at]
    by (cases "ScheduleRetry call ft now m at reason d") (simp add: assms(11))
  moreover have "case Archive call ft now m reason d of (r, d') \<Rightarrow> r = reported ''archive task'' ft m (None, dead)
            \<and> tasks (view d') (Queue m) = left_by ft T (T(ID m \<mapsto> dead))"
    using f(3) [OF assms(9) [unfolded StateArchived_def] assms(10), of ft now]
    by (cases "Archive call ft now m reason d") (simp add: assms(11))
  moreover have "case Requeue call ft m d of (r, d') \<Rightarrow>
            r = reported ''requeue task'' ft m (None, m\<lparr>State := StatePending, AttemptID := ''''\<rparr>)
            \<and> tasks (view d') (Queue m) =
                left_by ft T (T(ID m \<mapsto> (the (T (ID m)))\<lparr>State := StatePending, AttemptID := ''''\<rparr>))"
    using f(4) [of ft] by (cases "Requeue call ft m d") (simp add: assms(11))
  ultimately show ?thesis by blast
qed

theorem owner_ends_attempt_witness:
  "fst (AckSuccess redis_doc Delivered sample_now sample_active db_active) =
     (None, sample_active\<lparr>State := StateCompleted, AttemptID := '''', CompletedAt := sample_now\<rparr>)"
proof -
  have ok: "store_ok (id db_active)" "queue_name_ok (Queue sample_active)"
    "owner (id db_active) (Queue sample_active) (ID sample_active) = Some (AttemptID sample_active)"
    "time_marshals sample_now"
    by (simp_all add: db_active_ok db_active_owner time_marshals_def sample_now_def)
  from owner_ends_attempt [OF doc.redis_server_axioms, OF ok(1-3) refl sample_marshals(2) [OF ok(4)]
      refl sample_marshals(3) [OF ok(4)] refl sample_marshals(4) refl, where ft = Delivered]
  show ?thesis by (simp add: reported_def case_prod_beta)
qed

text \<open>C7. Nobody else can: unless the caller's attempt id is the one the task is active under, each of the
  four calls is refused with the invalid-transition error and leaves the queue as it was. A worker
  whose lease was taken over can therefore never overwrite the result of the attempt that replaced
  it, and no attempt ends twice.\<close>

theorem stale_attempt_rejected:
  assumes "redis_server call view" and "store_ok (view d)" and "queue_name_ok (Queue m)"
    and "owner (view d) (Queue m) (ID m) \<noteq> Some (AttemptID m)"
    and "Marshal (m\<lparr>State := StateCompleted, AttemptID := '''', CompletedAt := now\<rparr>) \<noteq> None"
    and "Marshal (m\<lparr>State := StateRetry, AttemptID := '''', LastError := reason, LastFailedAt := now\<rparr>) \<noteq> None"
    and "Marshal (m\<lparr>State := StateArchived, AttemptID := '''', LastError := reason\<rparr>) \<noteq> None"
  shows "(case AckSuccess call ft now m d of (r, d') \<Rightarrow>
            r = reported ''ack task'' ft m (Some ErrInvalidTransition, m) \<and> untouched (Queue m) (view d) (view d'))
     \<and> (case ScheduleRetry call ft now m at reason d of (r, d') \<Rightarrow>
            r = reported ''schedule retry'' ft m (Some ErrInvalidTransition, m) \<and> untouched (Queue m) (view d) (view d'))
     \<and> (case Archive call ft now m reason d of (r, d') \<Rightarrow>
            r = reported ''archive task'' ft m (Some ErrInvalidTransition, m) \<and> untouched (Queue m) (view d) (view d'))
     \<and> (case Requeue call ft m d of (r, d') \<Rightarrow>
            r = reported ''requeue task'' ft m (Some ErrInvalidTransition, m) \<and> untouched (Queue m) (view d) (view d'))"
  using redis_server.finish_other [OF assms(1-4)] assms(5-7)
  by (simp add: case_prod_beta)

theorem stale_attempt_rejected_witness:
  "fst (AckSuccess redis_doc Delivered sample_now (sample_active\<lparr>AttemptID := ''stale''\<rparr>) db_active) =
     (Some ErrInvalidTransition, sample_active\<lparr>AttemptID := ''stale''\<rparr>)"
proof -
  let ?m = "sample_active\<lparr>AttemptID := ''stale''\<rparr>"
  have "length sample_attempt = 32" using hex_nonempty [OF sample_attempt_id] by blast
  moreover have "length ''stale'' \<noteq> 32" by simp
  ultimately have "sample_attempt \<noteq> ''stale''" by metis
  then have ok: "store_ok (id db_active)" "queue_name_ok (Queue ?m)"
    "owner (id db_active) (Queue ?m) (ID ?m) \<noteq> Some (AttemptID ?m)" "time_marshals sample_now"
    by (simp_all add: db_active_ok db_active_owner time_marshals_def sample_now_def)
  have "Marshal (?m\<lparr>State := StateCompleted, AttemptID := '''', CompletedAt := sample_now\<rparr>) \<noteq> None"
    "Marshal (?m\<lparr>State := StateRetry, AttemptID := '''', LastError := '''', LastFailedAt := sample_now\<rparr>) \<noteq> None"
    "Marshal (?m\<lparr>State := StateArchived, AttemptID := '''', LastError := ''''\<rparr>) \<noteq> None"
    using sample_marshals(2,3) [OF ok(4)] sample_marshals(4) by simp_all
  from stale_attempt_rejected [OF doc.redis_server_axioms, OF ok(1-3) this, of Delivered]
  show ?thesis by (simp add: reported_def case_prod_beta)
qed

text \<open>C20. Submitting a valid task creates it once. If no task of that queue has the id, the task is stored as
  pending as soon as the request reaches the server; if one does, the call reports the duplicate and
  changes nothing. So a client that lost the reply can submit again: the second call reports the
  duplicate and the store holds the one task of the first.\<close>

theorem enqueue_creates_once:
  assumes "redis_server call view" and "store_ok (view d)" and "queue_name_ok (Queue m)"
    and "Validate (Some m) = None" and "Marshal m \<noteq> None" and "seq_room (view d) (Queue m)"
    and "T = tasks (view d) (Queue m)" and "Enqueue call ft m d = (r, d')"
  shows "(if T (ID m) \<noteq> None
          then r = reported ''enqueue task'' ft m (Some ErrTaskExists, m) \<and> untouched (Queue m) (view d) (view d')
          else r = reported ''enqueue task'' ft m (None, m\<lparr>State := StatePending\<rparr>)
            \<and> tasks (view d') (Queue m) =
                left_by ft T (T(ID m \<mapsto> m\<lparr>State := StatePending, AttemptID := ''''\<rparr>)))
     \<and> (\<forall>e. ft = ReplyLost e \<longrightarrow> fst (Enqueue call Delivered m d') = (Some ErrTaskExists, m)
            \<and> untouched (Queue m) (view d') (view (snd (Enqueue call Delivered m d'))))"
proof -
  obtain j where j: "Marshal m = Some j" using assms(5) by blast
  have r: "r = fst (Enqueue call ft m d)" "d' = snd (Enqueue call ft m d)" using assms(8) by simp_all
  note old = redis_server.Enqueue_exists [OF assms(1-4) j, of ft]
  note new = redis_server.Enqueue_new [OF assms(1-4) j _ assms(6), of ft]
  have "tasks (view d') (Queue m) (ID m) \<noteq> None" if "ft = ReplyLost e" for e
  proof (cases "tasks (view d) (Queue m) (ID m)")
    case None
    with new(2) that show ?thesis by (simp add: r)
  next
    case (Some t)
    with becomes_tasks(1) [OF old(2) [unfolded untouched_def]] show ?thesis by (simp add: r tasks_def)
  qed
  moreover have "store_ok (view d')" unfolding r by (rule redis_server.Enqueue_keeps [OF assms(1-3)])
  ultimately have "fst (Enqueue call Delivered m d') = (Some ErrTaskExists, m)
      \<and> untouched (Queue m) (view d') (view (snd (Enqueue call Delivered m d')))" if "ft = ReplyLost e" for e
    using redis_server.Enqueue_exists [OF assms(1) _ assms(3,4) j, of d' Delivered] that by (simp add: reported_def)
  then show ?thesis using old new by (simp add: assms(7) r)
qed

theorem enqueue_creates_once_witness:
  "fst (Enqueue redis_doc Delivered sample_pending
     (snd (Enqueue redis_doc (ReplyLost ContextDeadlineExceeded) sample_pending empty_db))) =
   (Some ErrTaskExists, sample_pending)"
proof -
  let ?p = "Enqueue redis_doc (ReplyLost ContextDeadlineExceeded) sample_pending empty_db"
  have ok: "store_ok (id empty_db)" "queue_name_ok (Queue sample_pending)" "Validate (Some sample_pending) = None"
    "Marshal sample_pending \<noteq> None" "seq_room (id empty_db) (Queue sample_pending)"
    "?p = (fst ?p, snd ?p)"
    using sample_marshals(1) by (simp_all add: empty_db_def [symmetric] store_ok_empty [folded empty_db_def])
  from enqueue_creates_once [OF doc.redis_server_axioms, OF ok(1-5) refl ok(6)] show ?thesis by simp
qed

text \<open>Two tasks submitted one after the other: what is stored and how they are ranked.\<close>

lemma two_submissions:
  assumes "redis_server call view" and "store_ok (view d)" and "queue_name_ok q"
    and m1: "Queue m1 = q" "Validate (Some m1) = None" "Marshal m1 = Some j1"
    and m2: "Queue m2 = q" "Validate (Some m2) = None" "Marshal m2 = Some j2"
    and new: "tasks (view d) q (ID m1) = None" "tasks (view d) q (ID m2) = None" "ID m1 \<noteq> ID m2"
    and seq: "seq_of (view d) q + 2 < 2 ^ 53"
    and d: "d1 = snd (Enqueue call Delivered m1 d)" "d2 = snd (Enqueue call Delivered m2 d1)"
  shows "store_ok (view d2)"
    and "tasks (view d2) q = (tasks (view d) q)(ID m1 \<mapsto> m1\<lparr>State := ''pending'', AttemptID := []\<rparr>,
       ID m2 \<mapsto> m2\<lparr>State := ''pending'', AttemptID := []\<rparr>)"
    and "rank_at (view d2) q (ID m2) = (taskRank m2, rank_member (seq_of (view d) q + 2) (ID m2))"
    and "rank_at (view d2) q (ID m1) = (taskRank m1, rank_member (seq_of (view d) q + 1) (ID m1))"
proof -
  have room: "seq_room (view d) q" using seq by (simp add: seq_room_def seq_of_def)
  have ok1: "store_ok (view d1)" unfolding d(1)
    by (rule redis_server.Enqueue_keeps [OF assms(1,2)]) (simp add: m1 assms(3))
  have T1: "tasks (view d1) q = (tasks (view d) q)(ID m1 \<mapsto> m1\<lparr>State := ''pending'', AttemptID := []\<rparr>)"
    using redis_server.Enqueue_new(2) [OF assms(1,2) _ m1(2,3), of Delivered] m1(1) assms(3) new(1) d(1) room by simp
  have R1: "rank_at (view d1) q (ID m1) = (taskRank m1, rank_member (seq_of (view d) q + 1) (ID m1))"
    "seq_of (view d1) q = seq_of (view d) q + 1"
    using redis_server.Enqueue_rank(1,3) [OF assms(1,2) _ m1(2,3) _ _ d(1)] m1(1) assms(3) new(1) room by simp_all
  have room1: "seq_room (view d1) q" and n2: "tasks (view d1) q (ID m2) = None"
    using new seq R1(2) T1 by (simp_all add: seq_room_def seq_of_def)
  show "store_ok (view d2)" unfolding d(2)
    by (rule redis_server.Enqueue_keeps [OF assms(1) ok1]) (simp add: m2 assms(3))
  have "tasks (view d2) q = (tasks (view d1) q)(ID m2 \<mapsto> m2\<lparr>State := ''pending'', AttemptID := []\<rparr>)"
    using redis_server.Enqueue_new(2) [OF assms(1) ok1 _ m2(2,3), of Delivered] m2(1) assms(3) d(2) n2 room1 by simp
  then show "tasks (view d2) q = (tasks (view d) q)(ID m1 \<mapsto> m1\<lparr>State := ''pending'', AttemptID := []\<rparr>,
       ID m2 \<mapsto> m2\<lparr>State := ''pending'', AttemptID := []\<rparr>)" unfolding T1 .
  note er = redis_server.Enqueue_rank [OF assms(1) ok1 _ m2(2,3) _ _ d(2)]
  show "rank_at (view d2) q (ID m2) = (taskRank m2, rank_member (seq_of (view d) q + 2) (ID m2))"
    "rank_at (view d2) q (ID m1) = (taskRank m1, rank_member (seq_of (view d) q + 1) (ID m1))"
    using er(1) er(2) [of "ID m1"] m2(1) assms(3) new(3) n2 room1 R1 by (simp_all add: add.commute)
qed

text \<open>The ranks of two tasks, submitted in this order.\<close>

lemma two_ranks:
  assumes "rank_sane m1" and "rank_sane m2" and "0 \<le> n" and "n + 2 < 2 ^ 53"
    and r: "r1 = (taskRank m1, rank_member (n + 1) i1)" "r2 = (taskRank m2, rank_member (n + 2) i2)"
  shows "Priority m2 < Priority m1 \<Longrightarrow> r1 < r2" and "Priority m1 < Priority m2 \<Longrightarrow> r2 < r1"
    and "Priority m1 = Priority m2 \<Longrightarrow> CreatedAt m2 < CreatedAt m1 \<or> r1 < r2"
proof -
  have fifo: "rank_member (n + 1) i1 < rank_member (n + 2) i2" using assms(3,4) by (intro rank_member_less) simp_all
  have "Priority m2 < Priority m1 \<Longrightarrow> taskRank m1 < taskRank m2" "Priority m1 < Priority m2 \<Longrightarrow> taskRank m2 < taskRank m1"
    using assms(1,2) by (intro taskRank_priority; simp add: rank_sane_def)+
  then show "Priority m2 < Priority m1 \<Longrightarrow> r1 < r2" "Priority m1 < Priority m2 \<Longrightarrow> r2 < r1"
    by (simp_all add: r less_prod_def)
  show "CreatedAt m2 < CreatedAt m1 \<or> r1 < r2" if "Priority m1 = Priority m2"
  proof -
    have "CreatedAt m2 < CreatedAt m1 \<or> taskRank m1 \<le> taskRank m2" using taskRank_created [OF that] by linarith
    with fifo show ?thesis by (auto simp: r less_prod_def)
  qed
qed

text \<open>C21. Claims follow priority, then submission. Of two tasks submitted one after the other to a queue
  with nothing else pending, the next claim takes the one of higher priority; between equal
  priorities it takes the first submitted unless the second was created earlier. Priorities are below
  \<open>2 ^ 31\<close>, and the queue has counted fewer than \<open>2 ^ 53\<close> tasks.\<close>

theorem claims_by_priority_then_submission:
  assumes "redis_server call view" and "store_ok (view d)" and "queue_name_ok q" and "newAttemptID rnd = Inr a"
    and "\<forall>i t. tasks (view d) q i = Some t \<longrightarrow> State t \<noteq> StatePending"
    and "Queue m1 = q" and "Validate (Some m1) = None" and "Marshal m1 \<noteq> None" and "rank_sane m1"
    and "Queue m2 = q" and "Validate (Some m2) = None" and "Marshal m2 \<noteq> None" and "rank_sane m2"
    and "tasks (view d) q (ID m1) = None" and "tasks (view d) q (ID m2) = None" and "ID m1 \<noteq> ID m2"
    and "seq_of (view d) q + 2 < 2 ^ 53"
    and "d1 = snd (Enqueue call Delivered m1 d)" and "d2 = snd (Enqueue call Delivered m2 d1)"
  shows "\<exists>m. fst (Claim call s Delivered rnd q now lease d2) = Inr m
     \<and> (if Priority m1 > Priority m2 then ID m = ID m1
        else if Priority m1 < Priority m2 then ID m = ID m2
        else CreatedAt m2 < CreatedAt m1 \<or> ID m = ID m1)"
proof -
  obtain j1 j2 where j: "Marshal m1 = Some j1" "Marshal m2 = Some j2" using assms(8,12) by auto
  have seq0: "0 \<le> seq_of (view d) q"
    using qinv_containers(15) [OF store_okD [OF assms(2,3), THEN conjunct2]] by (simp add: seq_of_def)
  note two = two_submissions [OF assms(1-3) assms(6,7) j(1) assms(10,11) j(2) assms(14-19)]
  have "tasks (view d2) q (ID m2) = Some (m2\<lparr>State := ''pending'', AttemptID := []\<rparr>)" by (simp add: two(2))
  from redis_server.Claim_pending [OF assms(1) two(1) assms(3,4) this _ refl, where s = s and ft = Delivered
      and lease = lease and now = now]
  obtain i t where c: "best_pending (view d2) q i t"
    "fst (Claim call s Delivered rnd q now lease d2) = Inr (t\<lparr>State := ''active'', AttemptID := a\<rparr>)" by auto
  have it: "i = ID m1 \<or> i = ID m2" "ID t = i"
    using c(1) assms(5) by (auto simp: best_pending_def two(2) split: if_splits)
  have le: "rank_at (view d2) q i \<le> rank_at (view d2) q (ID m1)" "rank_at (view d2) q i \<le> rank_at (view d2) q (ID m2)"
    using c(1) assms(16) unfolding best_pending_def by (auto simp: two(2))
  note ranks = two_ranks [OF assms(9,13) seq0 assms(17) two(4,3)]
  have "if Priority m1 > Priority m2 then i = ID m1 else if Priority m1 < Priority m2 then i = ID m2
        else CreatedAt m2 < CreatedAt m1 \<or> i = ID m1"
    using it(1) le ranks by (cases "Priority m1" "Priority m2" rule: linorder_cases) auto
  with c(2) it(2) show ?thesis by auto
qed

theorem claims_by_priority_then_submission_witness:
  "\<exists>m. fst (Claim redis_doc New_Store Delivered sample_entropy ''image'' sample_now 0
       (snd (Enqueue redis_doc Delivered ((sample_task ''t2'' ''image'')\<lparr>Priority := 5\<rparr>) db_pending))) = Inr m
     \<and> ID m = ''t2''"
proof -
  let ?m = "(sample_task ''t2'' ''image'')\<lparr>Priority := 5\<rparr>"
  have ok: "store_ok (id empty_db)" "\<forall>i t. tasks (id empty_db) ''image'' i = Some t \<longrightarrow> State t \<noteq> StatePending"
    "rank_sane sample_pending" "rank_sane ?m" "Queue ?m = ''image''" "Validate (Some ?m) = None" "Marshal ?m \<noteq> None"
    "tasks (id empty_db) ''image'' (ID sample_pending) = None" "tasks (id empty_db) ''image'' (ID ?m) = None"
    "ID sample_pending \<noteq> ID ?m" "seq_of (id empty_db) ''image'' + 2 < 2 ^ 53"
    "db_pending = snd (Enqueue redis_doc Delivered sample_pending empty_db)"
    by (simp_all add: store_ok_empty [folded empty_db_def] rank_sane_def sample_pending_def sample_task_def
        UnixMilli_def Validate.simps Marshal_def time_marshals_def zero_time_def db_pending_def)
      (simp add: seq_of_def empty_db_def queue_view_def as_int_def)
  from claims_by_priority_then_submission [OF doc.redis_server_axioms, OF ok(1) sample_ok(1) sample_attempt_id ok(2)
      sample_ok(2,4) sample_marshals(1) ok(3) ok(5,6,7,4,8,9,10,11,12) refl, of New_Store sample_now 0]
  show ?thesis by (auto simp: sample_pending_def sample_task_def)
qed

lemma hex_digit_inj: "a < 16 \<Longrightarrow> b < 16 \<Longrightarrow> hex_digit a = hex_digit b \<longleftrightarrow> a = b"
proof -
  assume ab: "a < 16" "b < 16"
  have v: "(of_char (hex_digit n) :: nat) = (if n < 10 then 48 + n else 87 + n)" if "n < 16" for n
    using that by (simp add: hex_digit_def)
  show ?thesis
  proof
    assume "hex_digit a = hex_digit b"
    then have "(of_char (hex_digit a) :: nat) = of_char (hex_digit b)" by simp
    with v [OF ab(1)] v [OF ab(2)] ab show "a = b" by (simp split: if_splits)
  qed simp
qed

lemma hex_byte_inj:
  fixes a b :: "8 word"
  shows "hex_digit (unat a div 16) = hex_digit (unat b div 16) \<and> hex_digit (unat a mod 16) = hex_digit (unat b mod 16)
    \<longleftrightarrow> a = b"
proof -
  have "unat a < 256" "unat b < 256" using unsigned_less [where ?'a = nat, of a] unsigned_less [where ?'a = nat, of b] by simp_all
  then have lt: "unat a div 16 < 16" "unat b div 16 < 16" by (simp_all add: less_mult_imp_div_less)
  have "unat a div 16 = unat b div 16 \<and> unat a mod 16 = unat b mod 16 \<longleftrightarrow> unat a = unat b"
    by (metis div_mult_mod_eq)
  with lt show ?thesis by (simp add: hex_digit_inj word_unat_eq_iff)
qed

lemma hex_EncodeToString_inj: "length xs = length ys \<Longrightarrow> hex_EncodeToString xs = hex_EncodeToString ys \<longleftrightarrow> xs = ys"
  unfolding hex_EncodeToString_def
  by (induction xs ys rule: list_induct2) (simp_all add: hex_byte_inj [symmetric])

text \<open>An attempt id is the 32-digit hexadecimal text of sixteen random bytes: two claims get the same id
  exactly when they drew the same bytes, and a failing random source yields its error and no id.\<close>

theorem attempt_ids_identify_entropy:
  "(newAttemptID (Inr v) = newAttemptID (Inr w)) = (map v [0..<16] = map w [0..<16])
   \<and> (\<exists>a. newAttemptID (Inr v) = Inr a \<and> length a = 32) \<and> newAttemptID (Inl e) = Inl e"
proof -
  have "hex_EncodeToString (map v [0..<16]) = hex_EncodeToString (map w [0..<16]) \<longleftrightarrow> map v [0..<16] = map w [0..<16]"
    by (rule hex_EncodeToString_inj) simp
  moreover have "\<exists>a. newAttemptID (Inr v) = Inr a \<and> length a = 32"
    unfolding newAttemptID_def sum.case by (intro exI conjI, rule refl, simp add: length_hex)
  ultimately show ?thesis by (simp add: newAttemptID_def del: map_eq_conv upt_eq_Nil_conv)
qed

end
