(* ===== verification/MaintenanceProperties.thy ===== *)
theory MaintenanceProperties
  imports StoreProperties
begin

text \<open>
  The properties of the store's maintenance: due tasks, leases, dead letters and reads.
\<close>



text \<open>The lease set says who must be recovered: the expired ids are, earliest first and up to the limit,
  the tasks whose lease has ended, and a task has a lease exactly while an attempt owns it.\<close>

theorem expired_leases_are_active:
  assumes "redis_server call view" and "store_ok (view d)" and "queue_name_ok q"
  shows "(\<exists>ids. fst (ExpiredIDs call Delivered now q limit d) = Inr ids \<and> distinct ids
       \<and> earliest (default_limit limit) (lease_of (view d) q) (reached (lease_of (view d) q) now) (set ids))
     \<and> {i. lease_of (view d) q i \<noteq> None} = {i. owner (view d) q i \<noteq> None}"
  using redis_server.ExpiredIDs_earliest [OF assms] lease_active [OF store_okD [OF assms(2,3), THEN conjunct2]]
  by auto

theorem expired_leases_are_active_witness: "lease_of (id db_active) ''image'' ''t1'' \<noteq> None"
proof -
  have "store_ok (id db_active)" by (simp add: db_active_ok)
  from expired_leases_are_active [OF doc.redis_server_axioms, OF this sample_ok(1)] db_active_owner
  show ?thesis by (auto simp: set_eq_iff)
qed

text \<open>Extending leases renews exactly the leases of the listed tasks whose attempt still owns the task:
  a worker that lost its task cannot keep the new owner's lease alive, nor shorten it, and no task
  changes.\<close>

theorem extend_lease_needs_ownership:
  assumes "redis_server call view" and "store_ok (view d)" and "queue_name_ok q"
    and "ExtendLease call s ft q ts now lease d = (r, d')"
    and "expires = f64_of_int (UnixMilli (now + (if lease \<le> 0 then leaseDuration s else lease)))"
  shows "tasks (view d') q = tasks (view d) q
     \<and> (\<forall>i. lease_of (view d') q i = left_by ft (lease_of (view d) q i)
          (if \<exists>t. Some t \<in> set ts \<and> ID t = i \<and> owner (view d) q i = Some (AttemptID t)
           then Some expires else lease_of (view d) q i))"
proof (intro conjI allI)
  have d': "d' = snd (ExtendLease call s ft q ts now lease d)" by (simp add: assms(4))
  note e = redis_server.ExtendLease_lease [OF assms(1-3) refl, where s = s and ft = ft and ts = ts and now = now
      and lease = lease, folded assms(5) d']
  show "tasks (view d') q = tasks (view d) q" by (rule e(2))
  show "lease_of (view d') q i = left_by ft (lease_of (view d) q i)
          (if \<exists>t. Some t \<in> set ts \<and> ID t = i \<and> owner (view d) q i = Some (AttemptID t)
           then Some expires else lease_of (view d) q i)" for i by (rule e(1))
qed

theorem extend_lease_needs_ownership_witness:
  "lease_of (snd (ExtendLease redis_doc New_Store Delivered ''image'' [Some sample_active, None] sample_now second db_active))
     ''image'' ''t1'' = Some (f64_of_int (UnixMilli (sample_now + second)))"
proof -
  let ?p = "ExtendLease redis_doc New_Store Delivered ''image'' [Some sample_active, None] sample_now second db_active"
  have ok: "store_ok (id db_active)" "?p = (fst ?p, snd ?p)" by (simp_all add: db_active_ok)
  have "\<not> second \<le> 0" by (simp add: second_def)
  with extend_lease_needs_ownership [OF doc.redis_server_axioms, OF ok(1) sample_ok(1) ok(2) refl] db_active_owner
  show ?thesis by auto
qed

text \<open>C23. Replaying a dead letter returns an archived task to pending with its retry history cleared and the
  replay time as its run time; any other task, or none, is refused with the matching error and
  nothing changes.\<close>

theorem replay_dead_letter:
  assumes "redis_server call view" and "store_ok (view d)" and "queue_name_ok q"
    and "T = tasks (view d) q" and "ReplayDeadLetter call (\<lambda>_. direct) now q i d = (r, d')"
  shows "case T i of
       None \<Rightarrow> r = Some ErrTaskNotFound \<and> tasks (view d') q = T
     | Some t \<Rightarrow>
         let t' = t\<lparr>State := StatePending, RetryCount := 0, LastError := '''', LastFailedAt := zero_time,
                    CompletedAt := zero_time, RunAt := now\<rparr>
         in if State t \<noteq> StateArchived then r = Some ErrInvalidTransition \<and> tasks (view d') q = T
            else Marshal t' = None \<or> r = None \<and> tasks (view d') q = T(i \<mapsto> t')"
proof (cases "T i")
  case None
  then show ?thesis using redis_server.Replay_refused [OF assms(1-3), of i now] assms(4,5)
    by (simp add: tasks_fun)
next
  case (Some t)
  show ?thesis
  proof (cases "State t = ''archived''")
    case False
    then show ?thesis using Some redis_server.Replay_refused [OF assms(1-3), of i now] assms(4,5)
      by (simp add: tasks_fun)
  next
    case True
    have t: "tasks (view d) q i = Some t" using Some assms(4) by simp
    show ?thesis using True Some redis_server.Replay_archived [OF assms(1-3) t True refl, where now = now] assms(4,5)
      by (cases "Marshal (t\<lparr>State := ''pending'', RetryCount := 0, LastError := [], LastFailedAt := zero_time,
                    CompletedAt := zero_time, RunAt := now\<rparr>)") (auto simp: Let_def)
  qed
qed

theorem replay_dead_letter_witness:
  "fst (ReplayDeadLetter redis_doc (\<lambda>_. direct) sample_now ''image'' ''t1'' db_active) = Some ErrInvalidTransition
   \<and> fst (ReplayDeadLetter redis_doc (\<lambda>_. direct) sample_now ''image'' ''t1'' db_archived) = None"
proof -
  let ?p = "\<lambda>d. ReplayDeadLetter redis_doc (\<lambda>_. direct) sample_now ''image'' ''t1'' d"
  have ok: "store_ok (id db_active)" "store_ok (id db_archived)" "?p d = (fst (?p d), snd (?p d))" for d
    by (simp_all add: db_active_ok db_archived_ok)
  note th = replay_dead_letter [OF doc.redis_server_axioms, OF _ sample_ok(1) refl ok(3)]
  have "Marshal (sample_dead\<lparr>State := StatePending, RetryCount := 0, LastError := '''', LastFailedAt := zero_time,
                    CompletedAt := zero_time, RunAt := sample_now\<rparr>) \<noteq> None"
    by (simp add: sample_dead_def Marshal_def sample_active_def sample_pending_def sample_task_def time_marshals_def
        zero_time_def sample_now_def)
  then show ?thesis using th [OF ok(1)] th [OF ok(2)]
    by (auto simp: db_active_ok db_archived_ok Let_def)
qed

text \<open>Deleting a dead letter removes an archived task and refuses every other one with the matching error.\<close>

theorem delete_dead_letter:
  assumes "redis_server call view" and "store_ok (view d)" and "queue_name_ok q"
    and "T = tasks (view d) q" and "DeleteDeadLetter call (\<lambda>_. direct) q i d = (r, d')"
  shows "case T i of
       None \<Rightarrow> r = Some ErrTaskNotFound \<and> tasks (view d') q = T
     | Some t \<Rightarrow> if State t = StateArchived then r = None \<and> tasks (view d') q = T(i := None)
                 else r = Some ErrInvalidTransition \<and> tasks (view d') q = T"
proof (cases "T i")
  case None
  then show ?thesis using redis_server.Delete_refused [OF assms(1-3), of i] assms(4,5) by simp
next
  case (Some t)
  have t: "tasks (view d) q i = Some t" using Some assms(4) by simp
  show ?thesis
    using Some redis_server.Delete_refused [OF assms(1-3), of i] redis_server.Delete_archived [OF assms(1-3) t] assms(4,5)
    by (cases "State t = ''archived''") simp_all
qed

theorem delete_dead_letter_witness:
  "fst (DeleteDeadLetter redis_doc (\<lambda>_. direct) ''image'' ''t1'' db_archived) = None
   \<and> tasks (snd (DeleteDeadLetter redis_doc (\<lambda>_. direct) ''image'' ''t1'' db_archived)) ''image'' = Map.empty"
proof -
  let ?p = "DeleteDeadLetter redis_doc (\<lambda>_. direct) ''image'' ''t1'' db_archived"
  have ok: "store_ok (id db_archived)" "?p = (fst ?p, snd ?p)" by (simp_all add: db_archived_ok)
  from delete_dead_letter [OF doc.redis_server_axioms, OF ok(1) sample_ok(1) refl ok(2)]
  show ?thesis by (simp add: db_archived_ok)
qed

text \<open>Cleaning up removes the longest-archived tasks whose archive time is not after the given time, up to
  the limit, returns their number, and leaves every other task.\<close>

theorem cleanup_dead_letters:
  assumes "redis_server call view" and "store_ok (view d)" and "queue_name_ok q"
  shows "\<exists>A d'. CleanupDeadLetters call Delivered q before limit d = ((int (card A), None), d')
     \<and> earliest (default_limit limit) (archived_at (view d) q) (reached (archived_at (view d) q) before) A
     \<and> tasks (view d') q = (\<lambda>i. if i \<in> A then None else tasks (view d) q i)"
  by (rule redis_server.CleanupDeadLetters_earliest [OF assms])

theorem cleanup_dead_letters_witness:
  "\<exists>A d'. CleanupDeadLetters redis_doc Delivered ''image'' sample_now 0 db_archived = ((int (card A), None), d')
     \<and> A \<subseteq> {i. archived_at db_archived ''image'' i \<noteq> None}"
  using cleanup_dead_letters [OF doc.redis_server_axioms, of db_archived "''image''" sample_now 0] db_archived_ok(1)
  by (fastforce simp: earliest_def reached_def)

text \<open>Listing dead letters returns one page of the archived tasks in archive order: each entry is the stored
  task, is archived, and none is missing or repeated; a negative offset is an error.\<close>

theorem list_dead_letters:
  assumes "redis_server call view" and "store_ok (view d)" and "queue_name_ok q"
    and "offset + default_limit limit \<le> 2 ^ 63"
  shows "if offset < 0
     then fst (ListDeadLetters call (\<lambda>_. direct) q offset limit d) =
            Inl (ErrorsNew ''dead-letter offset cannot be negative'')
     else \<exists>ids. fst (ListDeadLetters call (\<lambda>_. direct) q offset limit d) =
            Inr (map (\<lambda>i. the (tasks (view d) q i)) (take (nat (default_limit limit)) (drop (nat offset) ids)))
          \<and> distinct ids \<and> sorted (map (\<lambda>i. the (archived_at (view d) q i)) ids)
          \<and> set ids = {i. \<exists>t. tasks (view d) q i = Some t \<and> State t = StateArchived}"
proof (cases "offset < 0")
  case True
  then show ?thesis by (simp add: ListDeadLetters_def)
next
  case False
  note t = store_okD [OF assms(2,3), THEN conjunct1] and i = store_okD [OF assms(2,3), THEN conjunct2]
  let ?z = "q_archived (queue_view q (view d))"
  note z = qinv_containers(13) [OF i]
  have "sorted_wrt (\<lambda>x y. fst x \<le> fst y) ?z"
    by (rule sorted_wrt_mono_rel [of _ "(\<le>)"]) (use z in \<open>auto simp: zset_ok_def less_eq_prod_def\<close>)
  then have "sorted (map fst ?z)" by (simp add: sorted_map)
  moreover have "map (\<lambda>i. the (archived_at (view d) q i)) (zmembers ?z) = map fst ?z"
    using zscore_in [OF z] by (auto simp: zmembers_def archived_at_def)
  ultimately have "sorted (map (\<lambda>i. the (archived_at (view d) q i)) (zmembers ?z))" by simp
  moreover have "distinct (zmembers ?z)" using z by (simp add: zset_ok_def)
  moreover have "set (zmembers ?z) = {i. \<exists>t. tasks (view d) q i = Some t \<and> State t = StateArchived}"
    unfolding qinv_containers(14) [OF i] using in_state_lookup [OF i] by (auto simp: tasks_def)
  ultimately show ?thesis
    using False redis_server.List_direct(1) [OF assms(1-3) _ assms(4)] by (auto simp: not_less)
qed

theorem list_dead_letters_witness:
  "\<exists>ids. fst (ListDeadLetters redis_doc (\<lambda>_. direct) ''image'' 0 0 db_archived) =
     Inr (map (\<lambda>i. the (tasks (id db_archived) ''image'' i)) (take 100 ids)) \<and> set ids = {''t1''}"
proof -
  have ok: "store_ok (id db_archived)" "(0::int) + default_limit 0 \<le> 2 ^ 63"
    by (simp_all add: db_archived_ok default_limit_def)
  have "default_limit 0 = 100" by (simp add: default_limit_def)
  with list_dead_letters [OF doc.redis_server_axioms, OF ok(1) sample_ok(1) ok(2)]
  obtain ids where ids: "fst (ListDeadLetters redis_doc (\<lambda>_. direct) ''image'' 0 0 db_archived) =
     Inr (map (\<lambda>i. the (tasks (id db_archived) ''image'' i)) (take 100 ids))"
     "set ids = {i. \<exists>t. tasks (id db_archived) ''image'' i = Some t \<and> State t = StateArchived}"
    by (simp del: db_archived_ok) metis
  from ids(2) have "set ids = {''t1''}" by (auto split: if_splits)
  with ids(1) show ?thesis by blast
qed

text \<open>C24. Replay reads the task and rewrites it in two requests, and the second only checks that the task is
  still archived: if in between the task was deleted, submitted anew and archived again, or archived
  with a newer message, the replay succeeds and puts back the message it had read, so the newer one
  is lost.\<close>

theorem replay_overwrites_newer_message:
  assumes "redis_server call view" and "store_ok (view d)" and "store_ok (view newer)" and "queue_name_ok q"
    and "tasks (view d) q i = Some u" and "State u = StateArchived"
    and "tasks (view newer) q i = Some v" and "State v = StateArchived"
    and "u' = u\<lparr>State := StatePending, RetryCount := 0, LastError := '''', LastFailedAt := zero_time,
                 CompletedAt := zero_time, RunAt := now\<rparr>" and "Marshal u' \<noteq> None"
    and "ReplayDeadLetter call (\<lambda>n. if n = 0 then direct else (\<lambda>_. newer, Delivered)) now q i d = (r, d')"
  shows "r = None \<and> tasks (view d') q = (tasks (view newer) q)(i \<mapsto> u')"
proof -
  note t = store_okD [OF assms(2,4), THEN conjunct1] and i = store_okD [OF assms(2,4), THEN conjunct2]
  note t2 = store_okD [OF assms(3,4), THEN conjunct1] and i2 = store_okD [OF assms(3,4), THEN conjunct2]
  obtain j where j: "Marshal u' = Some j" using assms(10) by blast
  have l: "q_lookup (queue_view q (view d)) i = Some u" "q_lookup (queue_view q (view newer)) i = Some v"
    using assms(5,7) by (simp_all add: tasks_def)
  obtain d1 where g: "GetDeadLetter call Delivered q i d = (Inr u, d1)"
    using redis_server.GetDeadLetter_effect(1) [OF assms(1) t refl i, of Delivered i] l(1) assms(6)
    by (cases "GetDeadLetter call Delivered q i d") simp
  define x where "x = script_Run call Delivered (replayArchivedScript (TaskKey q i) (ArchivedKey q) (PendingKey q)
                    (PendingRankKey q) i (Doc j)) newer"
  have a: "q_archived_task (queue_view q (view newer)) i" using archived_lookup(1) [OF i2 l(2)] assms(8) by simp
  note e = redis_server.replay_request_effect [OF assms(1) t2 refl i2 x_def]
  have "fst x = Inr 1" using e(1) a by (simp add: q_replay_def)
  then obtain d2 where x: "x = (Inr 1, d2)" by (cases x) simp
  have same: "u'\<lparr>State := ''pending'', AttemptID := []\<rparr> = u'"
    using archived_lookup(2) [OF i l(1)] assms(6,9) by simp
  have "(r, d') = (None, snd x)"
    using g j x [unfolded x_def] x unfolding assms(11) [symmetric]
    by (simp add: ReplayDeadLetter_def request_def direct_def assms(9))
  moreover have "tasks (view (snd x)) q = (tasks (view newer) q)(i \<mapsto> u')"
    using becomes_tasks(1) [OF e(2)] q_replay_lookup [OF a j] unfolding same by (simp add: tasks_fun)
  ultimately show ?thesis by simp
qed

text \<open>The task of \<open>db_archived\<close>, archived again after it was submitted with another payload.\<close>

lemma sample_newer:
  obtains newer v where "store_ok newer" and "tasks newer ''image'' ''t1'' = Some v" and "State v = ''archived''"
    and "Payload v = Some ''new''"
proof -
  let ?m = "sample_active\<lparr>Payload := Some ''new''\<rparr>"
  let ?d = "snd (Archive redis_doc Delivered sample_now ?m ''boom'' db_active)"
  have ok: "store_ok (id db_active)" "queue_name_ok (Queue ?m)"
    "owner (id db_active) (Queue ?m) (ID ?m) = Some (AttemptID ?m)"
    by (simp_all add: db_active_ok db_active_owner)
  have "Marshal (?m\<lparr>State := ''archived'', AttemptID := [], LastError := ''boom''\<rparr>) \<noteq> None"
    by (simp add: Marshal_def sample_active_def sample_pending_def sample_task_def time_marshals_def zero_time_def)
  with doc.finish_owner(3) [OF ok refl, of "''boom''" Delivered sample_now]
  have "tasks ?d ''image'' ''t1'' = Some (?m\<lparr>State := ''archived'', AttemptID := [], LastError := ''boom''\<rparr>)" by simp
  moreover have "store_ok ?d" using doc.finish_keeps(3) [OF ok(1,2)] by simp
  ultimately show thesis using that by simp
qed

theorem replay_overwrites_newer_message_witness:
  "\<exists>newer v. tasks newer ''image'' ''t1'' = Some v \<and> Payload v = Some ''new''
     \<and> (case ReplayDeadLetter redis_doc (\<lambda>n. if n = 0 then direct else (\<lambda>_. newer, Delivered)) sample_now
              ''image'' ''t1'' db_archived of (r, d') \<Rightarrow>
          r = None \<and> map_option Payload (tasks d' ''image'' ''t1'') = Some (Some ''p''))"
proof -
  obtain newer v where n: "store_ok (id newer)" "tasks (id newer) ''image'' ''t1'' = Some v" "State v = StateArchived"
    "Payload v = Some ''new''" using sample_newer by auto
  have ok: "store_ok (id db_archived)" "tasks (id db_archived) ''image'' ''t1'' = Some sample_dead"
    "State sample_dead = StateArchived" by simp_all
  have "Marshal (sample_dead\<lparr>State := StatePending, RetryCount := 0, LastError := '''', LastFailedAt := zero_time,
                    CompletedAt := zero_time, RunAt := sample_now\<rparr>) \<noteq> None"
    by (simp add: sample_dead_def Marshal_def sample_active_def sample_pending_def sample_task_def time_marshals_def
        zero_time_def sample_now_def)
  note th = replay_overwrites_newer_message [OF doc.redis_server_axioms, OF ok(1) n(1) sample_ok(1) ok(2,3) n(2,3) refl this]
  let ?p = "ReplayDeadLetter redis_doc (\<lambda>n. if n = 0 then direct else (\<lambda>_. newer, Delivered)) sample_now
              ''image'' ''t1'' db_archived"
  from th [of "fst ?p" "snd ?p"] have "fst ?p = None" "tasks (snd ?p) ''image'' ''t1'' =
     Some (sample_dead\<lparr>State := StatePending, RetryCount := 0, LastError := '''', LastFailedAt := zero_time,
                    CompletedAt := zero_time, RunAt := sample_now\<rparr>)" by simp_all
  then have "fst ?p = None" "map_option Payload (tasks (snd ?p) ''image'' ''t1'') = Some (Some ''p'')"
    by (simp_all add: sample_dead_def sample_active_def sample_pending_def sample_task_def)
  with n(2,4) show ?thesis unfolding case_prod_beta by (intro exI [of _ newer] exI [of _ v]) simp
qed

text \<open>Reading a task returns it as stored, with its current state and, while it is active, its attempt id,
  or the not-found error; the counters return the numbers of pending, retrying and archived tasks.
  None of them changes the database.\<close>

theorem reads_are_exact:
  assumes "redis_server call view" and "store_ok (view d)" and "queue_name_ok q"
    and "num = (\<lambda>s. int (card {i. \<exists>t. tasks (view d) q i = Some t \<and> State t = s}))"
  shows "fst (Get call Delivered q i d) = (case tasks (view d) q i of None \<Rightarrow> Inl ErrTaskNotFound | Some t \<Rightarrow> Inr t)
     \<and> fst (PendingCount call Delivered q d) = Inr (num StatePending)
     \<and> fst (RetryCount_store call Delivered q d) = Inr (num StateRetry)
     \<and> fst (ArchivedCount call Delivered q d) = Inr (num StateArchived)
     \<and> view (snd (Get call ft q i d)) = view d \<and> view (snd (PendingCount call ft q d)) = view d
     \<and> view (snd (RetryCount_store call ft q d)) = view d \<and> view (snd (ArchivedCount call ft q d)) = view d"
proof -
  note t = store_okD [OF assms(2,3), THEN conjunct1] and i = store_okD [OF assms(2,3), THEN conjunct2]
  let ?Q = "queue_view q (view d)"
  have card: "int (card (in_state ?Q s)) = num s" for s
  proof -
    have "in_state ?Q s = {i. \<exists>t. tasks (view d) q i = Some t \<and> State t = s}"
      using in_state_lookup [OF i] by (auto simp: tasks_def)
    then show ?thesis by (simp add: assms(4))
  qed
  have len: "length z = card (set (zmembers z))" if "zset_ok z" for z
    using that distinct_card [of "zmembers z"] by (simp add: zset_ok_def zmembers_def)
  have inj: "inj_on (\<lambda>i. rank_entry (q_fields ?Q i)) (in_state ?Q ''pending'')"
    using rank_entry_task [OF i] by (intro inj_onI) (metis rank_entry_def prod.inject)
  have "length (q_rank ?Q) = card (in_state ?Q ''pending'')"
    using qinv_containers(5,6) [OF i] card_image [OF inj] distinct_card [of "q_rank ?Q"]
    by (metis distinct_map zmembers_def zset_ok_def)
  moreover have "length (q_retry ?Q) = card (in_state ?Q ''retry'')"
    "length (q_archived ?Q) = card (in_state ?Q ''archived'')"
    using len qinv_containers(9,10,13,14) [OF i] by simp_all
  ultimately show ?thesis
    using redis_server.counts_effect [OF assms(1) t refl] redis_server.Get_effect [OF assms(1) t refl i]
    by (simp add: tasks_def card)
qed

theorem reads_are_exact_witness:
  "fst (Get redis_doc Delivered ''image'' ''t1'' db_active) = Inr sample_active
   \<and> fst (PendingCount redis_doc Delivered ''image'' db_active) = Inr 0"
proof -
  have "store_ok (id db_active)" by (simp add: db_active_ok)
  from reads_are_exact [OF doc.redis_server_axioms, OF this sample_ok(1) refl, of "''t1''"]
  show ?thesis by (simp add: db_active_ok)
qed

end
