(* ===== verification/StateMachine.thy ===== *)
theory StateMachine
  imports StoreProperties
begin

text \<open>
  The state machine of \<^verbatim>\<open>docs/redis-state-machine.md\<close>, with the transitions out of the archive that the
  dead-letter methods add, as a specification of the whole store: every method, on every fate of its requests and under any
  interference by other clients, changes each task only along the edges of the machine.
\<close>

definition machine :: "(string \<times> string) set" where
  "machine = {(''scheduled'', ''pending''), (''retry'', ''pending''), (''pending'', ''active''), (''active'', ''completed''),
     (''active'', ''retry''), (''active'', ''archived''), (''active'', ''pending''), (''archived'', ''pending'')}"

text \<open>One step of one task. Until an attempt ends, only its state and its attempt id change.\<close>

inductive task_edge :: "string \<Rightarrow> string \<Rightarrow> TaskMessage option \<Rightarrow> TaskMessage option \<Rightarrow> bool" for q i where
  created: "Queue t = q \<Longrightarrow> ID t = i \<Longrightarrow> State t \<in> {''pending'', ''scheduled''} \<Longrightarrow> task_edge q i None (Some t)"
| moved: "(State t, State t') \<in> machine \<Longrightarrow> Queue t' = q \<Longrightarrow> ID t' = i \<Longrightarrow>
    State t \<in> {''scheduled'', ''retry'', ''pending''} \<Longrightarrow> t' = t\<lparr>State := State t', AttemptID := AttemptID t'\<rparr> \<Longrightarrow>
    task_edge q i (Some t) (Some t')"
| ended: "(State t, State t') \<in> machine \<Longrightarrow> Queue t' = q \<Longrightarrow> ID t' = i \<Longrightarrow>
    State t \<in> {''active'', ''archived''} \<Longrightarrow> task_edge q i (Some t) (Some t')"
| removed: "State t = ''archived'' \<Longrightarrow> task_edge q i (Some t) None"

definition evolves :: "keyspace \<Rightarrow> keyspace \<Rightarrow> bool" where
  "evolves ks ks' \<longleftrightarrow> (\<forall>q i. queue_name_ok q \<longrightarrow> (task_edge q i)\<^sup>*\<^sup>* (tasks ks q i) (tasks ks' q i))"

definition q_evolves :: "string \<Rightarrow> qstate \<Rightarrow> qstate \<Rightarrow> bool" where
  "q_evolves q Q Q' \<longleftrightarrow> (\<forall>i. q_lookup Q' i = q_lookup Q i \<or> task_edge q i (q_lookup Q i) (q_lookup Q' i))"


section \<open>Lemmas: the abstract operations\<close>

lemma evolves_refl [simp]: "evolves ks ks"
  by (simp add: evolves_def)

lemma evolves_trans: "evolves ks ks' \<Longrightarrow> evolves ks' ks'' \<Longrightarrow> evolves ks ks''"
  unfolding evolves_def by (blast intro: rtranclp_trans)

lemma q_evolves_refl [simp]: "q_evolves q Q Q"
  by (simp add: q_evolves_def)

lemma q_evolves_upd: "q_lookup Q' = (q_lookup Q)(i := t) \<Longrightarrow> task_edge q i (q_lookup Q i) t \<Longrightarrow> q_evolves q Q Q'"
  by (simp add: q_evolves_def)

lemma lookup_sel: "qinv q Q \<Longrightarrow> q_lookup Q i = Some t \<Longrightarrow> Queue t = q \<and> ID t = i"
  by (erule q_lookup_reads) (auto simp: reads_def)

lemma new_evolves:
  assumes "qinv q Q" and "Marshal m = Some j" and "Queue m = q" and "ID m = i"
  shows "q_evolves q Q (snd (q_enqueue j i p r Q))" and "q_evolves q Q (snd (q_schedule j i p r at Q))"
proof -
  have "q_evolves q Q (snd (q_enqueue j i p r Q))" if n: "q_task Q i = None" "q_seq Q + 1 < 2 ^ 63"
    by (rule q_evolves_upd [OF q_enqueue_lookup [OF assms(2) n]])
      (use n(1) q_lookup_None [OF assms(1), of i] assms(3,4) in \<open>simp add: task_edge.created\<close>)
  then show "q_evolves q Q (snd (q_enqueue j i p r Q))"
    by (cases "q_task Q i"; cases "q_seq Q + 1 < 2 ^ 63") (simp_all add: q_enqueue_def)
  have "q_evolves q Q (snd (q_schedule j i p r at Q))" if n: "q_task Q i = None" "q_seq Q + 1 < 2 ^ 63"
    by (rule q_evolves_upd [OF q_schedule_lookup [OF assms(2) n]])
      (use n(1) q_lookup_None [OF assms(1), of i] assms(3,4) in \<open>simp add: task_edge.created\<close>)
  then show "q_evolves q Q (snd (q_schedule j i p r at Q))"
    by (cases "q_task Q i"; cases "q_seq Q + 1 < 2 ^ 63") (simp_all add: q_schedule_def)
qed

lemma claim_evolves:
  assumes "qinv q Q" and "a \<noteq> []"
  shows "q_evolves q Q (snd (q_claim now expires a Q))"
proof (cases "q_rank Q")
  case Nil
  then show ?thesis by (simp add: q_claim_def)
next
  case (Cons e zs)
  obtain s rm where e: "e = (s, rm)" by fastforce
  from q_claim_lookup [OF assms(1) Cons [unfolded e] assms(2)] obtain t where
    t: "q_lookup Q (drop 21 rm) = Some t" "State t = ''pending''"
    "q_lookup (snd (q_claim now expires a Q)) = (q_lookup Q)(drop 21 rm \<mapsto> t\<lparr>State := ''active'', AttemptID := a\<rparr>)" by metis
  show ?thesis by (rule q_evolves_upd [OF t(3)]) (use t lookup_sel [OF assms(1) t(1)] in \<open>simp add: task_edge.moved machine_def\<close>)
qed

lemma end_evolves:
  assumes "qinv q Q" and m: "Queue m = q" "ID m = i"
  shows "Marshal m = Some j \<Longrightarrow> q_evolves q Q (snd (q_ack i j at a Q))"
    and "Marshal m = Some j \<Longrightarrow> q_evolves q Q (snd (q_schedule_retry i j at reason a Q))"
    and "Marshal m = Some j \<Longrightarrow> q_evolves q Q (snd (q_archive i j reason at a Q))"
    and "q_evolves q Q (snd (q_requeue i a Q))"
proof -
  have edge: "task_edge q i (q_lookup Q i) (Some (x\<lparr>State := s, AttemptID := b\<rparr>))"
    if "q_owned Q i a" "(''active'', s) \<in> machine" "Queue x = q" "ID x = i" for x s b
    using that q_owned_lookup [OF assms(1)] by (auto intro!: task_edge.ended)
  have mc: "(''active'', ''completed'') \<in> machine" "(''active'', ''retry'') \<in> machine" "(''active'', ''archived'') \<in> machine"
    "(''active'', ''pending'') \<in> machine" by (simp_all add: machine_def)
  note own = q_finish_lookup
  show "Marshal m = Some j \<Longrightarrow> q_evolves q Q (snd (q_ack i j at a Q))"
    by (cases "q_owned Q i a", rule q_evolves_upd [OF own(1)], auto intro: edge mc m simp: q_ack_def)
  show "Marshal m = Some j \<Longrightarrow> q_evolves q Q (snd (q_schedule_retry i j at reason a Q))"
    by (cases "q_owned Q i a", rule q_evolves_upd [OF own(2)], auto intro: edge mc m simp: q_schedule_retry_def)
  show "Marshal m = Some j \<Longrightarrow> q_evolves q Q (snd (q_archive i j reason at a Q))"
    by (cases "q_owned Q i a", rule q_evolves_upd [OF own(3)], auto intro: edge mc m simp: q_archive_def)
  show "q_evolves q Q (snd (q_requeue i a Q))"
  proof (cases "q_owned Q i a")
    case True
    then obtain t where t: "q_lookup Q i = Some t" using q_owned_lookup [OF assms(1)] by blast
    show ?thesis by (rule q_evolves_upd [OF q_requeue_lookup [OF True t]], rule edge [OF True mc(4)])
        (use lookup_sel [OF assms(1) t] in simp_all)
  qed (simp add: q_requeue_def)
qed

lemma archived_evolves:
  assumes "qinv q Q"
  shows "Marshal m = Some j \<Longrightarrow> Queue m = q \<Longrightarrow> ID m = i \<Longrightarrow> q_evolves q Q (snd (q_replay i j Q))"
    and "q_evolves q Q (snd (q_delete_archived i Q))"
proof -
  have a: "\<exists>t. q_lookup Q i = Some t \<and> State t = ''archived''" if "q_archived_task Q i"
    using that in_state_lookup [OF assms, of i "''archived''"] by (simp add: in_state_def q_archived_task_def)
  show "q_evolves q Q (snd (q_replay i j Q))" if "Marshal m = Some j" "Queue m = q" "ID m = i"
  proof (cases "q_archived_task Q i")
    case True
    then show ?thesis using a that by (intro q_evolves_upd [OF q_replay_lookup]) (auto intro!: task_edge.ended simp: machine_def)
  qed (simp add: q_replay_def)
  show "q_evolves q Q (snd (q_delete_archived i Q))"
  proof (cases "q_archived_task Q i")
    case True
    then show ?thesis using a by (auto simp: q_delete_archived_def q_evolves_def intro: task_edge.removed)
  qed (simp add: q_delete_archived_def)
qed

lemma batch_evolves:
  assumes "qinv q Q" and "0 \<le> lim"
  shows "q_evolves q Q (snd (q_move_ready src now lim Q))" and "q_evolves q Q (snd (q_cleanup before lim Q))"
proof -
  define ids where "ids = take (nat lim) (due now (source_zset src Q))"
  define old where "old = take (nat lim) (due before (q_archived Q))"
  have src: "\<exists>t. q_lookup Q i = Some t \<and> State t = source_state src" if "i \<in> set ids" for i
    using that due_subset source_members [OF assms(1)] in_state_lookup [OF assms(1)] unfolding ids_def
    by (metis in_set_takeD subsetD)
  have arch: "\<exists>t. q_lookup Q i = Some t \<and> State t = ''archived''" if "i \<in> set old" for i
  proof -
    have "i \<in> set (zmembers (q_archived Q))" using that due_subset unfolding old_def by (metis in_set_takeD subsetD)
    then show ?thesis using qinv_containers(14) [OF assms(1)] in_state_lookup [OF assms(1), of i "''archived''"] by simp
  qed
  show "q_evolves q Q (snd (q_move_ready src now lim Q))"
    unfolding q_evolves_def q_move_ready_spec(2) [OF assms ids_def]
  proof
    fix i
    show "(if i \<in> set ids then map_option make_ready (q_lookup Q i) else q_lookup Q i) = q_lookup Q i \<or>
        task_edge q i (q_lookup Q i) (if i \<in> set ids then map_option make_ready (q_lookup Q i) else q_lookup Q i)"
    proof (cases "i \<in> set ids")
      case True
      then obtain t where t: "q_lookup Q i = Some t" "State t = source_state src" using src by blast
      then show ?thesis using True lookup_sel [OF assms(1) t(1)]
        by (cases src) (simp_all add: make_ready_def task_edge.moved machine_def)
    qed simp
  qed
  show "q_evolves q Q (snd (q_cleanup before lim Q))"
    unfolding q_evolves_def q_cleanup_spec(2) [OF assms old_def]
  proof
    fix i
    show "(if i \<in> set old then None else q_lookup Q i) = q_lookup Q i \<or>
        task_edge q i (q_lookup Q i) (if i \<in> set old then None else q_lookup Q i)"
      using arch [of i] task_edge.removed by (cases "i \<in> set old") auto
  qed
qed


section \<open>Lemmas: the methods\<close>

context redis_server
begin

lemma left_by_evolves:
  assumes "queue_name_ok q" and "becomes q (view d) (view d') (left_by ft (queue_view q (view d)) Q')"
    and "q_evolves q (queue_view q (view d)) Q'"
  shows "evolves (view d) (view d')"
  unfolding evolves_def
proof (intro allI impI)
  fix q' i assume q': "queue_name_ok q'"
  show "(task_edge q' i)\<^sup>*\<^sup>* (tasks (view d) q' i) (tasks (view d') q' i)"
  proof (cases "q' = q")
    case False
    then show ?thesis using becomes_tasks(2) [OF assms(2,1) q'] by simp
  next
    case True
    have "q_evolves q (queue_view q (view d)) (left_by ft (queue_view q (view d)) Q')"
      using assms(3) left_by_cases [of ft "queue_view q (view d)" Q'] by (metis q_evolves_refl)
    then show ?thesis
      unfolding True becomes_tasks(1) [OF assms(2)] q_evolves_def by (metis r_into_rtranclp rtranclp.rtrancl_refl tasks_def)
  qed
qed

lemma single_evolves:
  assumes ok: "store_ok (view d)" and q: "queue_name_ok q"
  shows "evolves (view d) (view (snd (Claim call s ft rnd q now lease d)))"
    and "evolves (view d) (view (snd (CleanupDeadLetters call ft q before limit d)))"
    and "evolves (view d) (view (snd (ExtendLease call s ft q ts now lease d)))"
proof -
  note t = store_okD [OF ok q, THEN conjunct1] and i = store_okD [OF ok q, THEN conjunct2]
  show "evolves (view d) (view (snd (Claim call s ft rnd q now lease d)))"
  proof (cases "newAttemptID rnd")
    case (Inl e)
    then show ?thesis by (simp add: Claim_def)
  next
    case (Inr a)
    show ?thesis by (rule left_by_evolves [OF q Claim_effect(2) [OF t refl i Inr refl refl]])
        (use hex_nonempty [OF Inr] in \<open>simp add: claim_evolves [OF i]\<close>)
  qed
  have lim: "0 \<le> (if limit \<le> 0 then 100 else limit)" by simp
  show "evolves (view d) (view (snd (CleanupDeadLetters call ft q before limit d)))"
    by (rule left_by_evolves [OF q CleanupDeadLetters_effect(2) [OF t refl i refl refl] batch_evolves(2) [OF i lim]])
  show "evolves (view d) (view (snd (ExtendLease call s ft q ts now lease d)))"
    by (rule left_by_evolves [OF q ExtendLease_effect(2) [OF t refl refl refl]]) (simp add: q_evolves_def)
qed

lemma message_evolves:
  assumes ok: "store_ok (view d)" and q: "queue_name_ok (Queue m)"
  shows "evolves (view d) (view (snd (Enqueue call ft m d)))" and "evolves (view d) (view (snd (Schedule call ft m d)))"
    and "evolves (view d) (view (snd (AckSuccess call ft now m d)))"
    and "evolves (view d) (view (snd (ScheduleRetry call ft now m at reason d)))"
    and "evolves (view d) (view (snd (Archive call ft now m reason d)))"
    and "evolves (view d) (view (snd (Requeue call ft m d)))"
proof -
  note t = store_okD [OF ok q, THEN conjunct1] and i = store_okD [OF ok q, THEN conjunct2]
  note new = new_evolves [OF i _ refl refl]
  show "evolves (view d) (view (snd (Enqueue call ft m d)))"
  proof (cases "Validate (Some m) = None \<and> (\<exists>j. Marshal m = Some j)")
    case True
    then obtain j where v: "Validate (Some m) = None" "Marshal m = Some j" by blast
    show ?thesis by (rule left_by_evolves [OF q Enqueue_effect(2) [OF t v refl refl] new(1) [OF v(2)]])
  qed (auto simp: Enqueue_def split: option.splits)
  show "evolves (view d) (view (snd (Schedule call ft m d)))"
  proof (cases "Validate (Some m) = None \<and> (\<exists>j. Marshal m = Some j) \<and> \<not> IsZero (RunAt m)")
    case True
    then obtain j where v: "Validate (Some m) = None" "Marshal m = Some j" "\<not> IsZero (RunAt m)" by blast
    show ?thesis by (rule left_by_evolves [OF q Schedule_effect(2) [OF t v refl refl] new(2) [OF v(2)]])
  qed (auto simp: Schedule_def split: option.splits)
  show "evolves (view d) (view (snd (AckSuccess call ft now m d)))"
  proof (cases "Marshal (m\<lparr>State := ''completed'', AttemptID := [], CompletedAt := now\<rparr>)")
    case (Some j)
    show ?thesis by (rule left_by_evolves [OF q AckSuccess_effect(2) [OF t refl refl Some refl] end_evolves(1) [OF i _ _ Some]]) simp_all
  qed (simp add: AckSuccess_def)
  show "evolves (view d) (view (snd (ScheduleRetry call ft now m at reason d)))"
  proof (cases "Marshal (m\<lparr>State := ''retry'', AttemptID := [], LastError := reason, LastFailedAt := now\<rparr>)")
    case (Some j)
    show ?thesis by (rule left_by_evolves [OF q ScheduleRetry_effect(2) [OF t refl refl Some refl] end_evolves(2) [OF i _ _ Some]]) simp_all
  qed (simp add: ScheduleRetry_def)
  show "evolves (view d) (view (snd (Archive call ft now m reason d)))"
  proof (cases "Marshal (m\<lparr>State := ''archived'', AttemptID := [], LastError := reason\<rparr>)")
    case (Some j)
    show ?thesis by (rule left_by_evolves [OF q Archive_effect(2) [OF t refl refl Some refl] end_evolves(3) [OF i _ _ Some]]) simp_all
  qed (simp add: Archive_def)
  show "evolves (view d) (view (snd (Requeue call ft m d)))"
    by (rule left_by_evolves [OF q Requeue_effect(2) [OF t refl i refl] end_evolves(4) [OF i refl refl]])
qed

text \<open>The methods of several requests, under interference that evolves.\<close>

definition good :: "'db \<Rightarrow> 'db \<Rightarrow> bool" where
  "good d d' \<longleftrightarrow> (store_ok (view d) \<longrightarrow> store_ok (view d') \<and> evolves (view d) (view d'))"

lemma good_refl [simp]: "good d d"
  by (simp add: good_def)

lemma good_trans: "good d d' \<Longrightarrow> good d' d'' \<Longrightarrow> good d d''"
  unfolding good_def by (blast intro: evolves_trans)

lemma good_same: "view d' = view d \<Longrightarrow> good d d'"
  by (simp add: good_def)

lemma good_request:
  assumes "\<And>d. good d (fst w d)" and "queue_name_ok q"
    and "\<And>ks. queue_typed q ks \<Longrightarrow> qinv q (queue_view q ks) \<Longrightarrow>
      \<exists>r Q'. executes q s ks r Q' \<and> qinv q Q' \<and> q_evolves q (queue_view q ks) Q'"
  shows "good d (snd (request call w s d))"
proof -
  have "good (fst w d) (snd (request call w s d))"
    unfolding good_def
  proof
    assume ok: "store_ok (view (fst w d))"
    note t = store_okD [OF ok assms(2), THEN conjunct1] and i = store_okD [OF ok assms(2), THEN conjunct2]
    obtain r Q' where e: "executes q s (view (fst w d)) r Q'" "qinv q Q'" "q_evolves q (queue_view q (view (fst w d))) Q'"
      using assms(3) [OF t i] by blast
    note b = script_Run_executes(2) [OF e(1) t, of "snd w"]
    show "store_ok (view (snd (request call w s d))) \<and> evolves (view (fst w d)) (view (snd (request call w s d)))"
      unfolding request_def using left_by_keeps [OF ok assms(2) b e(2)] left_by_evolves [OF assms(2) b e(3)] by blast
  qed
  then show ?thesis using good_trans assms(1) by blast
qed

lemma good_read: "queue_name_ok q \<Longrightarrow> (\<And>d. good d (w d)) \<Longrightarrow> good d (snd (GetDeadLetter call ft q i (w d)))"
  using reads_keep(2) good_trans unfolding good_def by (metis evolves_refl)

lemma MoveReady_loop_good:
  assumes "\<And>n d. good d (fst (w n) d)" and "0 \<le> lim"
    and "\<And>q k. (q, k) \<in> set qs \<Longrightarrow> queue_name_ok q \<and> (\<exists>src. k = source_key src q)"
  shows "good d (snd (MoveReady_loop call w now lim qs moved d))"
  using assms(1,3)
proof (induction qs arbitrary: w moved d)
  case (Cons e qs)
  obtain q k where e: "e = (q, k)" by fastforce
  with Cons.prems(2) obtain src where q: "queue_name_ok q" and k: "k = source_key src q" by auto
  define r where "r = request call (w 0) (moveReadyScript k (PendingKey q) (PendingRankKey q)
      (Num (UnixMilli now)) lim (queuePrefix q @ ''task:'')) d"
  have pre: "queuePrefix q @ ''task:'' = TaskKey q []" by (simp add: TaskKey_def)
  have "good d (snd r)" unfolding r_def k pre
    by (rule good_request [OF Cons.prems(1) q], intro exI conjI, rule moveReadyScript_refines(1) [OF _ refl],
        simp_all add: moveReadyScript_refines(2) [OF _ refl] batch_evolves(1) assms(2))
  moreover from Cons.prems have "good (snd r) (snd (MoveReady_loop call (\<lambda>n. w (Suc n)) now lim qs n (snd r)))" for n
    by (intro Cons.IH) auto
  ultimately show ?case using good_trans
    by (auto simp: e r_def [symmetric] split: prod.splits sum.splits)
qed simp

lemma MoveReady_good:
  assumes "\<And>n d. good d (fst (w n) d)" and "\<And>q. q \<in> set qs \<Longrightarrow> queue_name_ok q"
  shows "good d (snd (MoveReady call w now limit qs d))"
  unfolding MoveReady_def
proof (rule MoveReady_loop_good [OF assms(1)])
  fix q k assume "(q, k) \<in> set (concat (map (\<lambda>q. [(q, ScheduledKey q), (q, RetryKey q)]) qs))"
  then have q: "q \<in> set qs" and "k = source_key Scheduled q \<or> k = source_key Retry q" by auto
  then show "queue_name_ok q \<and> (\<exists>src. k = source_key src q)" using assms(2) by blast
qed simp

lemma ListDeadLetters_good:
  assumes "\<And>n d. good d (fst (w n) d)" and "queue_name_ok q"
  shows "good d (snd (ListDeadLetters call w q offset limit d))"
proof -
  have loop: "good d (snd (ListDeadLetters_loop call w q ids res d))" if "\<And>n d. good d (fst (w n) d)" for w ids res d
    using that
  proof (induction ids arbitrary: w res d)
    case (Cons i ids)
    let ?r = "GetDeadLetter call (snd (w 0)) q i (fst (w 0) d)"
    have "good d (snd ?r)" by (rule good_read [OF assms(2) Cons.prems])
    moreover have "good (snd ?r) (snd (ListDeadLetters_loop call (\<lambda>n. w (Suc n)) q ids res' (snd ?r)))" for res'
      using Cons.prems by (intro Cons.IH) auto
    ultimately show ?case using good_trans by (auto split: prod.splits sum.splits)
  qed simp
  define z where "z = (if limit \<le> 0 then 100 else limit)"
  define r where "r = request call (w 0) (call_strs (ZRANGE (ArchivedKey q) offset (wrap64 (offset + z - 1))) Ret) d"
  have "good d (snd r)" unfolding r_def
  proof (rule good_request [OF assms(1,2)], intro exI conjI)
    fix ks assume k: "queue_typed q ks" "qinv q (queue_view q ks)"
    show "executes q (call_strs (ZRANGE (ArchivedKey q) offset (wrap64 (offset + z - 1))) Ret) ks
        (Inr (zslice offset (wrap64 (offset + z - 1)) (zmembers (q_archived (queue_view q ks))))) (queue_view q ks)"
      using queue_typed_containers(6) [OF k(1)] k(1) by (simp add: executes_def call_strs_def)
    show "qinv q (queue_view q ks)" "q_evolves q (queue_view q ks) (queue_view q ks)" by (simp_all add: k)
  qed
  moreover have "good (snd r) (snd (ListDeadLetters_loop call (\<lambda>n. w (Suc n)) q ids [] (snd r)))" for ids
    using assms(1) by (intro loop)
  ultimately show ?thesis using good_trans
    by (auto simp: ListDeadLetters_def Let_def z_def [symmetric] r_def [symmetric] split: prod.splits sum.splits)
qed

lemma DeleteDeadLetter_good:
  assumes "\<And>n d. good d (fst (w n) d)" and "queue_name_ok q"
  shows "good d (snd (DeleteDeadLetter call w q i d))"
proof -
  define r where "r = request call (w 0) (deleteArchivedScript (TaskKey q i) (ArchivedKey q) i) d"
  have "good d (snd r)" unfolding r_def
    by (rule good_request [OF assms], intro exI conjI, rule deleteArchivedScript_refines [OF _ refl],
        simp_all add: q_delete_archived_qinv archived_evolves(2))
  moreover have "good (snd r) (snd (GetDeadLetter call (snd (w 1)) q i (fst (w 1) (snd r))))"
    by (rule good_read [OF assms(2,1)])
  ultimately show ?thesis using good_trans unfolding DeleteDeadLetter_def r_def [symmetric]
    by (auto split: prod.splits sum.splits)
qed

lemma ReplayDeadLetter_good:
  assumes "\<And>n d. good d (fst (w n) d)" and q: "queue_name_ok q"
  shows "good d (snd (ReplayDeadLetter call w now q i d))"
proof (cases "store_ok (view d)")
  case True
  define g where "g = GetDeadLetter call (snd (w 0)) q i (fst (w 0) d)"
  have d0: "store_ok (view (fst (w 0) d))" using assms(1) True unfolding good_def by blast
  note t0 = store_okD [OF d0 q, THEN conjunct1] and i0 = store_okD [OF d0 q, THEN conjunct2]
  have g: "good d (snd g)" unfolding g_def by (rule good_read [OF q assms(1)])
  have replay: "good d (snd (request call (w 1) (replayArchivedScript (TaskKey q i) (ArchivedKey q)
      (PendingKey q) (PendingRankKey q) i (Doc j)) (snd g)))" if "Marshal x = Some j" "Queue x = q" "ID x = i" for x j
    by (rule good_trans [OF g], rule good_request [OF assms], intro exI conjI, rule replayArchivedScript_refines [OF _ refl],
        simp_all add: q_replay_qinv doc_ok_Marshal [OF that(1,3,2)] archived_evolves(1) [OF _ that])
  show ?thesis
  proof (cases "fst g")
    case (Inl e)
    with g show ?thesis by (auto simp: ReplayDeadLetter_def g_def [symmetric] split: prod.splits sum.splits)
  next
    case (Inr m)
    then have "q_lookup (queue_view q (view (fst (w 0) d))) i = Some m"
      using GetDeadLetter_effect(1) [OF t0 refl i0, of "snd (w 0)" i]
      by (simp add: g_def split: fate.splits option.splits if_splits)
    then have "Queue m = q" "ID m = i" using lookup_sel [OF i0] by blast+
    note rp = replay [where x = "m\<lparr>State := StatePending, RetryCount := 0, LastError := [],
        LastFailedAt := zero_time, CompletedAt := zero_time, RunAt := now\<rparr>", simplified, OF _ this]
    have "g = (Inr m, snd g)" using Inr by (cases g) simp
    with g rp show ?thesis unfolding ReplayDeadLetter_def g_def [symmetric]
      by (auto split: prod.splits sum.splits option.splits)
  qed
qed (simp add: good_def)

lemma steps_good: "(\<lambda>d d'. store_step call d d' \<and> good d d')\<^sup>*\<^sup>* d d' \<Longrightarrow> good d d'"
  by (induction rule: rtranclp_induct) (auto intro: good_trans)

lemma step_good: "store_step call d d' \<Longrightarrow> good d d'"
proof (induction rule: store_step.induct)
  case (move_ready qs w d now limit)
  then show ?case by (intro MoveReady_good) (auto intro: steps_good)
next
  case (list q w d offset limit)
  then show ?case by (intro ListDeadLetters_good) (auto intro: steps_good)
next
  case (replay q w d now i)
  then show ?case by (intro ReplayDeadLetter_good) (auto intro: steps_good)
next
  case (delete q w d i)
  then show ?case by (intro DeleteDeadLetter_good) (auto intro: steps_good)
qed (simp_all add: good_def Enqueue_keeps Schedule_keeps Claim_keeps finish_keeps reads_keep ExtendLease_keeps
      CleanupDeadLetters_keeps single_evolves message_evolves)

lemma run_good: "(store_step call)\<^sup>*\<^sup>* d d' \<Longrightarrow> good d d'"
  by (induction rule: rtranclp_induct) (auto intro: good_trans step_good)

end

lemma completed_stays: "(task_edge q i)\<^sup>*\<^sup>* x y \<Longrightarrow> x = Some t \<Longrightarrow> State t = ''completed'' \<Longrightarrow> y = Some t"
  by (induction rule: rtranclp_induct) (auto elim!: task_edge.cases simp: machine_def)


section \<open>Properties\<close>



end
