(* ===== verification/Client.thy ===== *)
theory Client
  imports RedisStore
begin

text \<open>
  \<^verbatim>\<open>client/client.go\<close>: tasks, their options and the three ways to submit them. The store the client
  writes to is its interface \<open>Store\<close>, a record of the two operations on a state \<open>'w\<close>; nil pointers and nil
  options are \<open>None\<close>. The clock reading, the outcome of \<open>newID\<close> and the state of the context are
  arguments.
\<close>

definition DefaultQueue :: string where
  "DefaultQueue = ''default''"

definition DefaultMaxRetry :: int where
  "DefaultMaxRetry = 3"

record 'w ClientStore =
  cs_Enqueue :: "TaskMessage \<Rightarrow> 'w \<Rightarrow> (gerr option \<times> TaskMessage) \<times> 'w"
  cs_Schedule :: "TaskMessage \<Rightarrow> 'w \<Rightarrow> (gerr option \<times> TaskMessage) \<times> 'w"

record taskOptions =
  o_id :: string
  o_queue :: string
  o_priority :: int
  o_maxRetry :: int
  o_timeout :: duration
  o_deadline :: gotime
  o_runAt :: gotime
  o_runAtSet :: bool
  o_runIn :: duration
  o_runInSet :: bool

type_synonym Option = "taskOptions \<Rightarrow> gerr option \<times> taskOptions"

record Task =
  typeName :: string
  payload :: "string option"
  opts :: "Option option list"

text \<open>\<open>append([]byte(nil), p...)\<close>: a fresh copy, nil when there is nothing to copy.\<close>

definition copy_bytes :: "string option \<Rightarrow> string option" where
  "copy_bytes p = (case p of None \<Rightarrow> None | Some b \<Rightarrow> if b = '''' then None else Some b)"

definition NewTask :: "string \<Rightarrow> string option \<Rightarrow> Option option list \<Rightarrow> Task" where
  "NewTask tn p os = \<lparr>typeName = tn, payload = copy_bytes p, opts = os\<rparr>"

definition Task_Type :: "Task \<Rightarrow> string" where
  "Task_Type t = typeName t"

definition Task_Payload :: "Task \<Rightarrow> string option" where
  "Task_Payload t = copy_bytes (payload t)"


section \<open>Options\<close>

definition WithTaskID :: "string \<Rightarrow> Option" where
  "WithTaskID i o' = (if i = '''' then (Some (ErrorsNew ''task id cannot be empty''), o')
     else (None, o'\<lparr>o_id := i\<rparr>))"

definition WithQueue :: "string \<Rightarrow> Option" where
  "WithQueue queue o' = (if queue = '''' then (Some (ErrorsNew ''queue cannot be empty''), o')
     else (None, o'\<lparr>o_queue := queue\<rparr>))"

definition WithPriority :: "int \<Rightarrow> Option" where
  "WithPriority priority o' =
     (if priority < 0 then (Some (ErrorsNew (''priority must be non-negative: '' @ dec_int priority)), o')
      else (None, o'\<lparr>o_priority := priority\<rparr>))"

definition WithMaxRetry :: "int \<Rightarrow> Option" where
  "WithMaxRetry maxRetry o' =
     (if maxRetry < 0 then (Some (ErrorsNew (''max retry must be non-negative: '' @ dec_int maxRetry)), o')
      else (None, o'\<lparr>o_maxRetry := maxRetry\<rparr>))"

definition WithTimeout :: "duration \<Rightarrow> Option" where
  "WithTimeout timeout o' = (if timeout < 0 then (Some (ErrorsNew ''timeout cannot be negative''), o')
     else (None, o'\<lparr>o_timeout := timeout\<rparr>))"

definition WithDeadlineOption :: "gotime \<Rightarrow> Option" where
  "WithDeadlineOption deadline o' = (None, o'\<lparr>o_deadline := deadline\<rparr>)"

definition ProcessAt :: "gotime \<Rightarrow> Option" where
  "ProcessAt at o' = (if IsZero at then (Some (ErrorsNew ''process time cannot be zero''), o')
     else (None, o'\<lparr>o_runAt := at, o_runAtSet := True, o_runInSet := False\<rparr>))"

definition ProcessIn :: "duration \<Rightarrow> Option" where
  "ProcessIn delay o' = (if delay < 0 then (Some (ErrorsNew ''process delay cannot be negative''), o')
     else (None, o'\<lparr>o_runIn := delay, o_runInSet := True, o_runAtSet := False\<rparr>))"

text \<open>The loop of \<open>Enqueue\<close> over the options: nil ones are skipped, the first error ends it.\<close>

fun apply_options :: "Option option list \<Rightarrow> taskOptions \<Rightarrow> gerr option \<times> taskOptions" where
  "apply_options [] o' = (None, o')"
| "apply_options (None # rest) o' = apply_options rest o'"
| "apply_options (Some option # rest) o' = (case option o' of
     (Some e, o'') \<Rightarrow> (Some e, o'')
   | (None, o'') \<Rightarrow> apply_options rest o'')"


section \<open>Submitting\<close>

definition randomID :: "entropy \<Rightarrow> gerr + string" where
  "randomID rnd = (case rnd of Inl e \<Rightarrow> Inl e | Inr buf \<Rightarrow> Inr (hex_EncodeToString (map buf [0..<16])))"

record 'w Client =
  client_store :: "'w ClientStore option"

definition NewClient :: "'w ClientStore option \<Rightarrow> 'w Client" where
  "NewClient store = \<lparr>client_store = store\<rparr>"

text \<open>The options before any is applied, and the message made of the final ones.\<close>

definition initial_options :: "string \<Rightarrow> gotime \<Rightarrow> taskOptions" where
  "initial_options i now = \<lparr>o_id = i, o_queue = DefaultQueue, o_priority = 0, o_maxRetry = DefaultMaxRetry,
     o_timeout = 0, o_deadline = zero_time, o_runAt = now, o_runAtSet = False, o_runIn = 0, o_runInSet = False\<rparr>"

definition message_of :: "Task \<Rightarrow> gotime \<Rightarrow> taskOptions \<Rightarrow> TaskMessage" where
  "message_of task now options =
     (let runAt = (if o_runInSet options then now + o_runIn options else o_runAt options) in
      \<lparr>ID = o_id options, Type = typeName task, Payload = Task_Payload task, Queue = o_queue options,
       Priority = o_priority options, MaxRetry = o_maxRetry options, RetryCount = 0,
       Timeout = o_timeout options, Deadline = o_deadline options, RunAt = runAt, State = StatePending,
       AttemptID = '''', LastError = '''', LastFailedAt = zero_time, CompletedAt = zero_time, CreatedAt = now\<rparr>)"

definition Client_Enqueue ::
  "'w Client option \<Rightarrow> gerr option \<Rightarrow> gotime \<Rightarrow> (gerr + string) \<Rightarrow> Task option \<Rightarrow> Option option list \<Rightarrow> 'w
    \<Rightarrow> (gerr + TaskMessage) \<times> 'w" where
  "Client_Enqueue c ctxErr now newID task opts' w =
     (case (case c of None \<Rightarrow> None | Some c \<Rightarrow> client_store c) of
        None \<Rightarrow> (Inl (ErrorsNew ''client store is nil''), w)
      | Some store \<Rightarrow> (case task of
          None \<Rightarrow> (Inl (ErrorsNew ''task is nil''), w)
        | Some task \<Rightarrow>
            if typeName task = '''' then (Inl (ErrorsNew ''task type cannot be empty''), w)
            else (case ctxErr of
              Some e \<Rightarrow> (Inl (wrap_err ''enqueue context'' e), w)
            | None \<Rightarrow> (case newID of
                Inl e \<Rightarrow> (Inl (wrap_err ''create task id'' e), w)
              | Inr i \<Rightarrow> (case apply_options (opts task @ opts') (initial_options i now) of
                  (Some e, _) \<Rightarrow> (Inl e, w)
                | (None, options) \<Rightarrow>
                    let msg = message_of task now options in
                    if RunAt msg > now then
                      (case cs_Schedule store (msg\<lparr>State := StateScheduled\<rparr>) w of
                         ((Some e, _), w') \<Rightarrow> (Inl e, w')
                       | ((None, msg'), w') \<Rightarrow> (Inr msg', w'))
                    else
                      (case cs_Enqueue store msg w of
                         ((Some e, _), w') \<Rightarrow> (Inl e, w')
                       | ((None, msg'), w') \<Rightarrow> (Inr msg', w')))))))"

definition EnqueueAt ::
  "'w Client option \<Rightarrow> gerr option \<Rightarrow> gotime \<Rightarrow> (gerr + string) \<Rightarrow> Task option \<Rightarrow> gotime \<Rightarrow> Option option list \<Rightarrow> 'w
    \<Rightarrow> (gerr + TaskMessage) \<times> 'w" where
  "EnqueueAt c ctxErr now newID task at opts' = Client_Enqueue c ctxErr now newID task (Some (ProcessAt at) # opts')"

definition EnqueueIn ::
  "'w Client option \<Rightarrow> gerr option \<Rightarrow> gotime \<Rightarrow> (gerr + string) \<Rightarrow> Task option \<Rightarrow> duration \<Rightarrow> Option option list \<Rightarrow> 'w
    \<Rightarrow> (gerr + TaskMessage) \<times> 'w" where
  "EnqueueIn c ctxErr now newID task delay opts' = Client_Enqueue c ctxErr now newID task (Some (ProcessIn delay) # opts')"

end
