(* ===== verification/ClientProperties.thy ===== *)
theory ClientProperties
  imports Client StoreProperties
begin

text \<open>
  What a submission through the client guarantees: the options it is built from, the message it hands
  to the store, and, on the Redis store, the task it leaves there.
\<close>

text \<open>The options a caller can make: \<open>taskOptions\<close> is not exported, so these eight constructors are all.\<close>

inductive offered :: "Option \<Rightarrow> bool" where
  "offered (WithTaskID i)"
| "offered (WithQueue q)"
| "offered (WithPriority p)"
| "offered (WithMaxRetry n)"
| "offered (WithTimeout t)"
| "offered (WithDeadlineOption d)"
| "offered (ProcessAt at)"
| "offered (ProcessIn delay)"

text \<open>Those that do not choose the processing time.\<close>

inductive untimed :: "Option \<Rightarrow> bool" where
  "untimed (WithTaskID i)"
| "untimed (WithQueue q)"
| "untimed (WithPriority p)"
| "untimed (WithMaxRetry n)"
| "untimed (WithTimeout t)"
| "untimed (WithDeadlineOption d)"

definition options_ok :: "taskOptions \<Rightarrow> bool" where
  "options_ok o' \<longleftrightarrow> o_id o' \<noteq> '''' \<and> o_queue o' \<noteq> '''' \<and> 0 \<le> o_priority o' \<and> 0 \<le> o_maxRetry o' \<and> 0 \<le> o_timeout o'
     \<and> 0 \<le> o_runIn o' \<and> \<not> (o_runAtSet o' \<and> o_runInSet o')"

definition run_time :: "gotime \<Rightarrow> taskOptions \<Rightarrow> gotime" where
  "run_time now o' = (if o_runInSet o' then now + o_runIn o' else o_runAt o')"

text \<open>A sample task, the message it becomes and a client for the documented server.\<close>

definition sample_job :: Task where
  "sample_job = NewTask ''resize'' (Some ''cat.png'') [Some (WithQueue ''image''), None, Some (ProcessIn 5)]"

definition redis_client_store :: "'db redis \<Rightarrow> fate \<Rightarrow> 'db ClientStore" where
  "redis_client_store call ft = \<lparr>cs_Enqueue = Enqueue call ft, cs_Schedule = Schedule call ft\<rparr>"


definition sample_client :: "keyspace Client" where
  "sample_client = NewClient (Some (redis_client_store redis_doc Delivered))"

definition sample_sent :: TaskMessage where
  "sample_sent = message_of sample_job sample_now
     \<lparr>o_id = ''t9'', o_queue = ''image'', o_priority = 0, o_maxRetry = 3, o_timeout = 0, o_deadline = zero_time,
      o_runAt = sample_now, o_runAtSet = True, o_runIn = 5, o_runInSet = False\<rparr>"


section \<open>Lemmas\<close>

declare Validate.simps [simp del]

lemmas option_defs = WithTaskID_def WithQueue_def WithPriority_def WithMaxRetry_def WithTimeout_def
  WithDeadlineOption_def ProcessAt_def ProcessIn_def

lemma offered_keeps: "offered f \<Longrightarrow> fst (f o') = None \<Longrightarrow> options_ok o' \<Longrightarrow> options_ok (snd (f o'))"
proof (induction rule: offered.induct)
  case (1 i)
  then show ?case by (cases "i = []") (simp_all add: WithTaskID_def options_ok_def)
next
  case (2 q)
  then show ?case by (cases "q = []") (simp_all add: WithQueue_def options_ok_def)
next
  case (3 p)
  then show ?case by (cases "p < 0") (simp_all add: WithPriority_def options_ok_def)
next
  case (4 n)
  then show ?case by (cases "n < 0") (simp_all add: WithMaxRetry_def options_ok_def)
next
  case (5 t)
  then show ?case by (cases "t < 0") (simp_all add: WithTimeout_def options_ok_def)
next
  case (6 d)
  then show ?case by (simp_all add: WithDeadlineOption_def options_ok_def)
next
  case (7 at)
  then show ?case by (cases "IsZero at") (simp_all add: ProcessAt_def options_ok_def)
next
  case (8 delay)
  then show ?case by (cases "delay < 0") (simp_all add: ProcessIn_def options_ok_def)
qed

lemma untimed_keeps: "untimed f \<Longrightarrow> fst (f o') = None \<Longrightarrow> run_time now (snd (f o')) = run_time now o'"
  by (induction rule: untimed.induct) (simp_all add: option_defs run_time_def split: if_splits)

lemma apply_options_keep:
  assumes "\<And>f. Some f \<in> set os \<Longrightarrow> P f"
    and "\<And>f o'. P f \<Longrightarrow> fst (f o') = None \<Longrightarrow> I o' \<Longrightarrow> I (snd (f o'))"
    and "apply_options os o' = (None, o'')" and "I o'"
  shows "I o''"
  using assms(1,3,4)
proof (induction os o' rule: apply_options.induct)
  case (3 f rest o')
  from 3 assms(2) [of f o'] show ?case by (cases "f o'"; cases "fst (f o')") auto
qed auto

lemma apply_options_append:
  "apply_options (os @ os') o' = (case apply_options os o' of (Some e, o'') \<Rightarrow> (Some e, o'')
     | (None, o'') \<Rightarrow> apply_options os' o'')"
proof (induction os o' rule: apply_options.induct)
  case (3 f rest o')
  then show ?case by (cases "f o'"; cases "fst (f o')") auto
qed auto

lemma initial_ok: "i \<noteq> '''' \<Longrightarrow> options_ok (initial_options i now)"
  by (simp add: options_ok_def initial_options_def DefaultQueue_def DefaultMaxRetry_def)

lemma randomID_nonempty: "randomID rnd = Inr i \<Longrightarrow> i \<noteq> ''''"
  using hex_nonempty [of rnd i] by (simp add: randomID_def newAttemptID_def)

lemma message_valid:
  "options_ok options \<Longrightarrow> typeName task \<noteq> '''' \<Longrightarrow> Validate (Some (message_of task now options)) = None"
  by (simp add: Validate.simps options_ok_def message_of_def Let_def)

lemma Validate_State [simp]: "Validate (Some (m\<lparr>State := s\<rparr>)) = Validate (Some m)"
  by (simp add: Validate.simps)

lemma reported_success:
  "reported what ft m r = (None, m') \<Longrightarrow> ft = Delivered \<and> r = (None, m')"
  by (cases ft) (simp_all add: reported_def)

context redis_server
begin

text \<open>A submission that reports success has stored a new task.\<close>

lemma Enqueue_success:
  assumes ok: "store_ok (view d)" "queue_name_ok (Queue m)" and r: "fst (Enqueue call ft m d) = (None, m')"
  shows "tasks (view d) (Queue m) (ID m) = None \<and> m' = m\<lparr>State := ''pending''\<rparr>
     \<and> tasks (view (snd (Enqueue call ft m d))) (Queue m) =
         (tasks (view d) (Queue m))(ID m \<mapsto> m\<lparr>State := ''pending'', AttemptID := []\<rparr>)"
proof -
  obtain j where v: "Validate (Some m) = None" "Marshal m = Some j"
    using r by (auto simp: Enqueue_def split: option.splits)
  have new: "tasks (view d) (Queue m) (ID m) = None"
  proof (rule ccontr)
    assume "tasks (view d) (Queue m) (ID m) \<noteq> None"
    with Enqueue_exists(1) [OF ok v] r reported_success show False by fastforce
  qed
  note e = Enqueue_effect [OF store_okD [OF ok, THEN conjunct1] v refl refl, of ft]
  have "seq_room (view d) (Queue m)"
    using e(1) r new q_lookup_None [OF store_okD [OF ok, THEN conjunct2]]
    by (cases ft) (auto simp: q_enqueue_def seq_room_def tasks_def split: if_splits)
  note n = Enqueue_new [OF ok v new this, of ft]
  have "reported ''enqueue task'' ft m (None, m\<lparr>State := ''pending''\<rparr>) = (None, m')" using n(1) r by simp
  from reported_success [OF this] have "ft = Delivered" and "m' = m\<lparr>State := ''pending''\<rparr>" by simp_all
  with n(2) new show ?thesis by simp
qed

lemma Schedule_success:
  assumes ok: "store_ok (view d)" "queue_name_ok (Queue m)" and r: "fst (Schedule call ft m d) = (None, m')"
  shows "tasks (view d) (Queue m) (ID m) = None \<and> m' = m\<lparr>State := ''scheduled''\<rparr>
     \<and> tasks (view (snd (Schedule call ft m d))) (Queue m) =
         (tasks (view d) (Queue m))(ID m \<mapsto> m\<lparr>State := ''scheduled'', AttemptID := []\<rparr>)"
proof -
  obtain j where v: "Validate (Some m) = None" "Marshal m = Some j" "\<not> IsZero (RunAt m)"
    using r by (auto simp: Schedule_def split: option.splits if_splits)
  note i = store_okD [OF ok, THEN conjunct2]
  note e = Schedule_effect [OF store_okD [OF ok, THEN conjunct1] v refl refl, of ft]
  have new: "tasks (view d) (Queue m) (ID m) = None" and room: "seq_room (view d) (Queue m)"
    using e(1) r q_lookup_None [OF i]
    by (cases ft, auto simp: q_schedule_def seq_room_def tasks_def split: if_splits)+
  note n = Schedule_new [OF ok v new room, of ft]
  have "reported ''schedule task'' ft m (None, m\<lparr>State := ''scheduled''\<rparr>) = (None, m')" using n(1) r by simp
  from reported_success [OF this] have "ft = Delivered" and "m' = m\<lparr>State := ''scheduled''\<rparr>" by simp_all
  with n(2) new show ?thesis by simp
qed

end

lemma Client_Enqueue_success:
  assumes "Client_Enqueue (Some (NewClient (Some S))) ctxErr now newID (Some task) os w = (Inr m, w')"
  shows "\<exists>i options. newID = Inr i \<and> typeName task \<noteq> '''' \<and> apply_options (opts task @ os) (initial_options i now) = (None, options)
    \<and> (if RunAt (message_of task now options) > now
       then cs_Schedule S ((message_of task now options)\<lparr>State := StateScheduled\<rparr>) w = ((None, m), w')
       else cs_Enqueue S (message_of task now options) w = ((None, m), w'))"
proof -
  note c = assms [unfolded Client_Enqueue_def NewClient_def, simplified]
  have t: "typeName task \<noteq> ''''" and e: "ctxErr = None" and "\<exists>i. newID = Inr i"
    using c by (auto split: if_splits option.splits sum.splits)
  then obtain i where i: "newID = Inr i" by blast
  obtain options where o: "apply_options (opts task @ os) (initial_options i now) = (None, options)"
    using c t e i by (cases "apply_options (opts task @ os) (initial_options i now)")
      (auto split: option.splits)
  let ?msg = "message_of task now options"
  have r: "(if RunAt ?msg > now then
        (case cs_Schedule S (?msg\<lparr>State := StateScheduled\<rparr>) w of ((Some e, _), w') \<Rightarrow> (Inl e, w') | ((None, msg'), w') \<Rightarrow> (Inr msg', w'))
      else (case cs_Enqueue S ?msg w of ((Some e, _), w') \<Rightarrow> (Inl e, w') | ((None, msg'), w') \<Rightarrow> (Inr msg', w'))) = (Inr m, w')"
    using c t e i o by (simp add: Let_def)
  have "if RunAt ?msg > now then cs_Schedule S (?msg\<lparr>State := StateScheduled\<rparr>) w = ((None, m), w')
      else cs_Enqueue S ?msg w = ((None, m), w')"
    using r by (cases "RunAt ?msg > now") (auto split: prod.splits option.splits)
  with t i o show ?thesis by blast
qed

lemma message_sel [simp]:
  "Type (message_of task now options) = typeName task" "Payload (message_of task now options) = Task_Payload task"
  "RetryCount (message_of task now options) = 0" "CreatedAt (message_of task now options) = now"
  "AttemptID (message_of task now options) = ''''" "State (message_of task now options) = ''pending''"
  "RunAt (message_of task now options) = run_time now options" "Queue (message_of task now options) = o_queue options"
  "ID (message_of task now options) = o_id options"
  by (simp_all add: message_of_def run_time_def Let_def)

text \<open>The stored message of a successful submission.\<close>

lemma client_on_redis:
  assumes "redis_server call view" and "store_ok (view d)"
    and "Client_Enqueue (Some (NewClient (Some (redis_client_store call ft)))) ctxErr now newID (Some task) os d = (Inr m, d')"
    and "queue_name_ok (Queue m)"
  obtains i options where "newID = Inr i" and "typeName task \<noteq> ''''"
    and "apply_options (opts task @ os) (initial_options i now) = (None, options)"
    and "m = (message_of task now options)\<lparr>State := (if run_time now options > now then ''scheduled'' else ''pending'')\<rparr>"
    and "tasks (view d) (Queue m) (ID m) = None"
    and "tasks (view d') (Queue m) = (tasks (view d) (Queue m))(ID m \<mapsto> m)" and "store_ok (view d')"
proof -
  let ?S = "redis_client_store call ft"
  obtain i options where c: "newID = Inr i" "typeName task \<noteq> ''''"
    "apply_options (opts task @ os) (initial_options i now) = (None, options)"
    "if RunAt (message_of task now options) > now
       then cs_Schedule ?S ((message_of task now options)\<lparr>State := StateScheduled\<rparr>) d = ((None, m), d')
       else cs_Enqueue ?S (message_of task now options) d = ((None, m), d')"
    using Client_Enqueue_success [OF assms(3)] by blast
  define m0 where "m0 = message_of task now options"
  have att: "AttemptID m0 = []" by (simp add: m0_def)
  have r: "m = m0\<lparr>State := (if run_time now options > now then ''scheduled'' else ''pending'')\<rparr>
    \<and> tasks (view d) (Queue m) (ID m) = None
    \<and> tasks (view d') (Queue m) = (tasks (view d) (Queue m))(ID m \<mapsto> m) \<and> store_ok (view d')"
  proof (cases "run_time now options > now")
    case True
    let ?m = "m0\<lparr>State := ''scheduled''\<rparr>"
    have s: "Schedule call ft ?m d = ((None, m), d')"
      using c(4) True by (simp add: m0_def redis_client_store_def)
    have q: "Queue ?m = Queue m" using s by (auto simp: Schedule_def settle_def split: option.splits if_splits prod.splits sum.splits)
    with assms(4) have qn: "queue_name_ok (Queue ?m)" by simp
    have "?m\<lparr>State := ''scheduled'', AttemptID := []\<rparr> = ?m" using att by simp
    with redis_server.Schedule_success [OF assms(1,2) qn, of ft m] redis_server.Schedule_keeps [OF assms(1,2) qn, of ft] s True
    show ?thesis by simp
  next
    case False
    have s: "Enqueue call ft m0 d = ((None, m), d')"
      using c(4) False by (simp add: m0_def redis_client_store_def)
    have q: "Queue m0 = Queue m" using s by (auto simp: Enqueue_def settle_def split: option.splits if_splits prod.splits sum.splits)
    with assms(4) have qn: "queue_name_ok (Queue m0)" by simp
    have "m0\<lparr>State := ''pending'', AttemptID := []\<rparr> = m0\<lparr>State := ''pending''\<rparr>" using att by simp
    with redis_server.Enqueue_success [OF assms(1,2) qn, of ft m] redis_server.Enqueue_keeps [OF assms(1,2) qn, of ft] s False
    show ?thesis by simp
  qed
  from r [unfolded m0_def] show thesis by (elim conjE) (rule that [OF c(1-3)])
qed

lemma options_of_submission:
  assumes "apply_options os (initial_options i now) = (None, options)" and "randomID rnd = Inr i"
    and "\<And>f. Some f \<in> set os \<Longrightarrow> offered f"
  shows "options_ok options"
  using apply_options_keep [of os offered options_ok, OF assms(3) _ assms(1) initial_ok] randomID_nonempty [OF assms(2)]
  by (simp add: offered_keeps)

text \<open>A later option that sets the time decides it, whatever came before.\<close>

lemma timed_submission:
  assumes "apply_options (os @ Some f # os') (initial_options i now) = (None, options)"
    and "\<And>g. Some g \<in> set os' \<Longrightarrow> untimed g" and "\<And>o'. fst (f o') = None \<Longrightarrow> run_time now (snd (f o')) = t"
  shows "run_time now options = t"
proof -
  from assms(1) obtain o1 where "fst (f o1) = None" "apply_options os' (snd (f o1)) = (None, options)"
    by (auto simp: apply_options_append split: prod.splits option.splits) (metis fst_conv snd_conv)
  with assms(3) apply_options_keep [of os' untimed "\<lambda>o'. run_time now o' = t", OF assms(2)]
  show ?thesis by (simp add: untimed_keeps)
qed


lemma sample_sent_sel:
  "Queue sample_sent = ''image''" "ID sample_sent = ''t9''" "RunAt sample_sent = sample_now" "State sample_sent = ''pending''"
  "Validate (Some sample_sent) = None" "Marshal sample_sent \<noteq> None"
  by (simp_all add: sample_sent_def run_time_def Validate.simps Marshal_def)
    (simp_all add: message_of_def sample_job_def NewTask_def time_marshals_def sample_now_def zero_time_def)

lemma sample_submission:
  "Client_Enqueue (Some sample_client) None sample_now (randomID sample_entropy) (Some sample_job)
     [Some (WithTaskID ''t9''), Some (ProcessAt sample_now)] empty_db
   = (Inr sample_sent, snd (Enqueue redis_doc Delivered sample_sent empty_db))"
proof -
  have e: "store_ok (id empty_db)" by (simp add: empty_db_def store_ok_empty)
  obtain j where j: "Marshal sample_sent = Some j" using sample_sent_sel(6) by blast
  have f: "fst (Enqueue redis_doc Delivered sample_sent empty_db) = (None, sample_sent)"
    using doc.Enqueue_new(1) [OF e _ sample_sent_sel(5) j, of Delivered] sample_sent_sel(4)
    by (simp add: sample_sent_sel reported_def)
  have o: "apply_options (opts sample_job @ [Some (WithTaskID ''t9''), Some (ProcessAt sample_now)])
      (initial_options (hex_EncodeToString (map (\<lambda>_. 7) [0..<16])) sample_now) =
    (None, \<lparr>o_id = ''t9'', o_queue = ''image'', o_priority = 0, o_maxRetry = 3, o_timeout = 0, o_deadline = zero_time,
      o_runAt = sample_now, o_runAtSet = True, o_runIn = 5, o_runInSet = False\<rparr>)"
    by (simp add: sample_job_def NewTask_def option_defs initial_options_def IsZero_def DefaultMaxRetry_def
        sample_now_def zero_time_def)
  obtain D where E: "Enqueue redis_doc Delivered sample_sent empty_db = ((None, sample_sent), D)"
    using f by (metis prod.collapse)
  have "Client_Enqueue (Some sample_client) None sample_now (randomID sample_entropy) (Some sample_job)
     [Some (WithTaskID ''t9''), Some (ProcessAt sample_now)] empty_db =
    (case Enqueue redis_doc Delivered sample_sent empty_db of
       ((Some e, _), w') \<Rightarrow> (Inl e, w') | ((None, msg'), w') \<Rightarrow> (Inr msg', w'))"
    by (simp add: Client_Enqueue_def sample_client_def NewClient_def randomID_def sample_entropy_def o
      redis_client_store_def Let_def run_time_def flip: sample_sent_def) (simp add: sample_job_def NewTask_def)
  with E show ?thesis by simp
qed


lemma sample_submission_at:
  "\<exists>d'. EnqueueAt (Some sample_client) None sample_now (randomID sample_entropy) (Some sample_job) sample_now
        [Some (WithTaskID ''t9'')] empty_db = (Inr sample_sent, d')"
proof -
  have "apply_options (opts sample_job @ [Some (ProcessAt sample_now), Some (WithTaskID ''t9'')]) o' =
      apply_options (opts sample_job @ [Some (WithTaskID ''t9''), Some (ProcessAt sample_now)]) o'" for o'
    by (simp add: sample_job_def NewTask_def option_defs IsZero_def sample_now_def zero_time_def)
  then have "EnqueueAt (Some sample_client) None sample_now (randomID sample_entropy) (Some sample_job) sample_now
        [Some (WithTaskID ''t9'')] empty_db =
      Client_Enqueue (Some sample_client) None sample_now (randomID sample_entropy) (Some sample_job)
     [Some (WithTaskID ''t9''), Some (ProcessAt sample_now)] empty_db"
    by (simp add: EnqueueAt_def Client_Enqueue_def sample_client_def NewClient_def randomID_def sample_entropy_def)
  then show ?thesis using sample_submission by simp
qed


section \<open>Properties\<close>

text \<open>C29. A task the client reports as submitted is durable, well-formed and new: for any options a caller
  can make, its id was free in its queue and the store now holds exactly the returned message under that id and
  nothing else has changed in the queue; it passes validation, carries the type and the payload of the
  task, no retries and the submission time, and is scheduled if its run time lies in the future and
  pending otherwise.\<close>

theorem submitted_task_is_durable:
  assumes "redis_server call view" and "store_ok (view d)"
    and "list_all (\<lambda>x. case x of None \<Rightarrow> True | Some f \<Rightarrow> offered f) (opts task @ os)"
    and "Client_Enqueue (Some (NewClient (Some (redis_client_store call ft)))) ctxErr now (randomID rnd) (Some task) os d
         = (Inr m, d')"
    and "queue_name_ok (Queue m)"
  shows "tasks (view d) (Queue m) (ID m) = None
    \<and> tasks (view d') (Queue m) = (tasks (view d) (Queue m))(ID m \<mapsto> m) \<and> store_ok (view d')
    \<and> Validate (Some m) = None \<and> Type m = typeName task \<and> Payload m = Task_Payload task
    \<and> RetryCount m = 0 \<and> AttemptID m = '''' \<and> CreatedAt m = now
    \<and> State m = (if RunAt m > now then StateScheduled else StatePending)"
proof -
  obtain i options where c: "randomID rnd = Inr i" "typeName task \<noteq> ''''"
    "apply_options (opts task @ os) (initial_options i now) = (None, options)"
    "m = (message_of task now options)\<lparr>State := (if run_time now options > now then ''scheduled'' else ''pending'')\<rparr>"
    "tasks (view d) (Queue m) (ID m) = None"
    "tasks (view d') (Queue m) = (tasks (view d) (Queue m))(ID m \<mapsto> m)" "store_ok (view d')"
    using client_on_redis [OF assms(1,2,4,5)] by metis
  have "offered f" if "Some f \<in> set (opts task @ os)" for f
    using assms(3) that unfolding list_all_iff by (metis option.simps(5))
  from options_of_submission [OF c(3,1) this] have "Validate (Some m) = None"
    unfolding c(4) using message_valid [OF _ c(2)] by simp
  with c(5-7) show ?thesis by (simp add: c(4))
qed

theorem submitted_task_is_durable_witness:
  "\<exists>d'. Client_Enqueue (Some sample_client) None sample_now (randomID sample_entropy) (Some sample_job)
          [Some (WithTaskID ''t9''), Some (ProcessAt sample_now)] empty_db = (Inr sample_sent, d')
     \<and> tasks (id d') ''image'' ''t9'' = Some sample_sent \<and> State sample_sent = StatePending"
proof -
  have e: "store_ok (id empty_db)" by (simp add: empty_db_def store_ok_empty)
  have o: "list_all (\<lambda>x. case x of None \<Rightarrow> True | Some f \<Rightarrow> offered f)
      (opts sample_job @ [Some (WithTaskID ''t9''), Some (ProcessAt sample_now)])"
    by (simp add: sample_job_def NewTask_def offered.intros)
  from submitted_task_is_durable [OF doc.redis_server_axioms, OF e o sample_submission [unfolded sample_client_def]]
  show ?thesis using sample_submission by (auto simp: sample_sent_sel)
qed

text \<open>The time given to \<open>EnqueueAt\<close> and \<open>EnqueueIn\<close> overrides the task's own options: unless a call-site option
  sets another, the stored task runs at the given time, respectively at the submission time plus
  the delay.\<close>

theorem call_site_time_overrides_task:
  assumes "redis_server call view" and "store_ok (view d)"
    and "list_all (\<lambda>x. case x of None \<Rightarrow> True | Some f \<Rightarrow> untimed f) os"
    and "C = Some (NewClient (Some (redis_client_store call ft)))" and "queue_name_ok (Queue m)"
  shows "(EnqueueAt C ctxErr now newID (Some task) at os d = (Inr m, d') \<longrightarrow> RunAt m = at)
    \<and> (EnqueueIn C ctxErr now newID (Some task) delay os d = (Inr m, d') \<longrightarrow> RunAt m = now + delay)"
proof -
  have u: "untimed g" if "Some g \<in> set os" for g using assms(3) that unfolding list_all_iff by (metis option.simps(5))
  have run: "RunAt m = t"
    if c: "Client_Enqueue C ctxErr now newID (Some task) (Some f # os) d = (Inr m, d')"
      and t: "\<And>o'. fst (f o') = None \<Longrightarrow> run_time now (snd (f o')) = t" for f t
  proof -
    obtain i options where o: "apply_options (opts task @ Some f # os) (initial_options i now) = (None, options)"
      "m = (message_of task now options)\<lparr>State := (if run_time now options > now then ''scheduled'' else ''pending'')\<rparr>"
      using client_on_redis [OF assms(1,2) c [unfolded assms(4)] assms(5)] by metis
    with timed_submission [OF o(1) u t] show ?thesis by simp
  qed
  have "RunAt m = at" if "EnqueueAt C ctxErr now newID (Some task) at os d = (Inr m, d')"
    using that unfolding EnqueueAt_def by (rule run) (simp add: ProcessAt_def run_time_def split: if_splits)
  moreover have "RunAt m = now + delay" if "EnqueueIn C ctxErr now newID (Some task) delay os d = (Inr m, d')"
    using that unfolding EnqueueIn_def by (rule run) (simp add: ProcessIn_def run_time_def split: if_splits)
  ultimately show ?thesis by blast
qed

theorem call_site_time_overrides_task_witness:
  "\<exists>m d'. EnqueueAt (Some sample_client) None sample_now (randomID sample_entropy) (Some sample_job) sample_now
        [Some (WithTaskID ''t9'')] empty_db = (Inr m, d') \<and> RunAt m = sample_now"
proof -
  have e: "store_ok (id empty_db)" by (simp add: empty_db_def store_ok_empty)
  have o: "list_all (\<lambda>x. case x of None \<Rightarrow> True | Some f \<Rightarrow> untimed f) [Some (WithTaskID ''t9'')]"
    by (simp add: untimed.intros)
  obtain d' where s: "EnqueueAt (Some sample_client) None sample_now (randomID sample_entropy) (Some sample_job) sample_now
        [Some (WithTaskID ''t9'')] empty_db = (Inr sample_sent, d')" using sample_submission_at by blast
  from call_site_time_overrides_task [OF doc.redis_server_axioms, OF e o _ _, of "Some sample_client" Delivered sample_sent
      None sample_now "randomID sample_entropy" sample_job sample_now d'] s
  show ?thesis by (auto simp: sample_client_def sample_sent_sel)
qed

end
