(* ===== verification/TimerHeap.thy ===== *)
theory TimerHeap
  imports TaskModel "HOL-Library.Word" "HOL-Library.Multiset"
begin

text \<open>
  The event heap of \<^verbatim>\<open>internal/timer/timer.go\<close>: the methods of \<open>eventHeap\<close> and the operations of
  \<open>container/heap\<close> that the timer calls on it. The Go slice of pointers is the list of the events it
  points to; each event records its position. Indices are valid wherever the code reads them, and every
  theorem below has the bounds it needs among its facts.
\<close>

record 'cb event =
  ev_at :: gotime
  ev_callback :: "'cb option"
  ev_cancelled :: bool
  ev_index :: int
  ev_sequence :: "64 word"

type_synonym 'cb eventHeap = "'cb event list"

definition Less :: "'cb eventHeap \<Rightarrow> nat \<Rightarrow> nat \<Rightarrow> bool" where
  "Less h i j =
     (if ev_at (h ! i) = ev_at (h ! j) then ev_sequence (h ! i) < ev_sequence (h ! j)
      else ev_at (h ! i) < ev_at (h ! j))"

definition Swap :: "'cb eventHeap \<Rightarrow> nat \<Rightarrow> nat \<Rightarrow> 'cb eventHeap" where
  "Swap h i j =
     (let h = h[i := h ! j, j := h ! i];
          h = h[i := (h ! i)\<lparr>ev_index := int i\<rparr>]
      in h[j := (h ! j)\<lparr>ev_index := int j\<rparr>])"

definition Push :: "'cb event \<Rightarrow> 'cb eventHeap \<Rightarrow> 'cb eventHeap" where
  "Push e h = h @ [e\<lparr>ev_index := int (length h)\<rparr>]"

definition Pop :: "'cb eventHeap \<Rightarrow> 'cb event \<times> 'cb eventHeap" where
  "Pop h = ((h ! (length h - 1))\<lparr>ev_index := - 1\<rparr>, take (length h - 1) h)"


section \<open>The heap algorithms\<close>

text \<open>\<open>up\<close>: Go's \<open>(0 - 1) / 2\<close> is 0, so the loop ends at the root.\<close>

function heap_up :: "'cb eventHeap \<Rightarrow> nat \<Rightarrow> 'cb eventHeap" where
  "heap_up h j =
     (let i = (j - 1) div 2 in
      if i = j \<or> \<not> Less h j i then h else heap_up (Swap h i j) i)"
  by pat_completeness auto
termination
  by (relation "measure snd") auto

declare heap_up.simps [simp del]

text \<open>The child \<open>down\<close> compares with, when there is one below \<open>n\<close>.\<close>

definition down_child :: "'cb eventHeap \<Rightarrow> nat \<Rightarrow> nat \<Rightarrow> nat" where
  "down_child h i n = (if 2 * i + 2 < n \<and> Less h (2 * i + 2) (2 * i + 1) then 2 * i + 2 else 2 * i + 1)"

function heap_down :: "'cb eventHeap \<Rightarrow> nat \<Rightarrow> nat \<Rightarrow> 'cb eventHeap" where
  "heap_down h i n =
     (if 2 * i + 1 \<ge> n then h else
      let j = down_child h i n in
      if \<not> Less h j i then h else heap_down (Swap h i j) j n)"
  by pat_completeness auto
termination
  by (relation "measure (\<lambda>(h, i, n). n - i)") (auto simp: down_child_def split: if_splits)

declare heap_down.simps [simp del]

definition heap_Push :: "'cb event \<Rightarrow> 'cb eventHeap \<Rightarrow> 'cb eventHeap" where
  "heap_Push e h = (let h = Push e h in heap_up h (length h - 1))"

definition heap_Pop :: "'cb eventHeap \<Rightarrow> 'cb event \<times> 'cb eventHeap" where
  "heap_Pop h = (let n = length h - 1 in Pop (heap_down (Swap h 0 n) 0 n))"


section \<open>Order, contents and positions\<close>

definition ev_key :: "'cb event \<Rightarrow> gotime \<times> 64 word" where
  "ev_key e = (ev_at e, ev_sequence e)"

definition strip :: "'cb event \<Rightarrow> 'cb event" where
  "strip e = e\<lparr>ev_index := 0\<rparr>"

text \<open>The events of a heap, without their positions.\<close>

definition contents :: "'cb eventHeap \<Rightarrow> 'cb event multiset" where
  "contents h = mset (map strip h)"

definition is_heap :: "'cb eventHeap \<Rightarrow> bool" where
  "is_heap h \<longleftrightarrow> (\<forall>j < length h. 0 < j \<longrightarrow> ev_key (h ! ((j - 1) div 2)) \<le> ev_key (h ! j))"

definition indexed :: "'cb eventHeap \<Rightarrow> bool" where
  "indexed h \<longleftrightarrow> (\<forall>j < length h. ev_index (h ! j) = int j)"

text \<open>
  The heap order as a property of the keys by position. \<open>up_order\<close> holds while the entry at \<open>k\<close> may still be
  too small for its parent, \<open>down_order\<close> while it may be too large for its children.
\<close>

definition parent :: "nat \<Rightarrow> nat" where
  "parent j = (j - 1) div 2"

definition up_order :: "(nat \<Rightarrow> 'k :: linorder) \<Rightarrow> nat \<Rightarrow> nat \<Rightarrow> bool" where
  "up_order K n k \<longleftrightarrow> (\<forall>j < n. 0 < j \<longrightarrow> (j \<noteq> k \<longrightarrow> K (parent j) \<le> K j) \<and> (parent j = k \<longrightarrow> 0 < k \<longrightarrow> K (parent k) \<le> K j))"

definition down_order :: "(nat \<Rightarrow> 'k :: linorder) \<Rightarrow> nat \<Rightarrow> nat \<Rightarrow> bool" where
  "down_order K n k \<longleftrightarrow> (\<forall>j < n. 0 < j \<longrightarrow> (parent j \<noteq> k \<longrightarrow> K (parent j) \<le> K j) \<and> (parent j = k \<longrightarrow> 0 < k \<longrightarrow> K (parent k) \<le> K j))"

definition heap_order :: "(nat \<Rightarrow> 'k :: linorder) \<Rightarrow> nat \<Rightarrow> bool" where
  "heap_order K n \<longleftrightarrow> (\<forall>j < n. 0 < j \<longrightarrow> K (parent j) \<le> K j)"

definition swapped :: "(nat \<Rightarrow> 'k) \<Rightarrow> nat \<Rightarrow> nat \<Rightarrow> nat \<Rightarrow> 'k" where
  "swapped K i j k = K (if k = i then j else if k = j then i else k)"


section \<open>Lemmas\<close>

lemma Less_key: "Less h i j \<longleftrightarrow> ev_key (h ! i) < ev_key (h ! j)"
  by (auto simp: Less_def ev_key_def)

lemma ev_key_index [simp]: "ev_key (e\<lparr>ev_index := i\<rparr>) = ev_key e" "ev_key (strip e) = ev_key e"
  by (simp_all add: ev_key_def strip_def)

lemma strip_index [simp]: "strip (e\<lparr>ev_index := i\<rparr>) = strip e" "strip (strip e) = strip e"
  by (simp_all add: strip_def)

lemma length_Swap [simp]: "length (Swap h i j) = length h"
  by (simp add: Swap_def Let_def)

lemma key_Swap:
  assumes "i < length h" and "j < length h" and "k < length h"
  shows "ev_key (Swap h i j ! k) = ev_key (h ! (if k = i then j else if k = j then i else k))"
  using assms by (simp add: Swap_def Let_def nth_list_update)

lemma contents_Swap: "i < length h \<Longrightarrow> j < length h \<Longrightarrow> contents (Swap h i j) = contents h"
proof -
  assume b: "i < length h" "j < length h"
  have "map strip (Swap h i j) = (map strip h)[j := map strip h ! i, i := map strip h ! j]"
    using b by (intro nth_equalityI) (simp_all add: Swap_def Let_def nth_list_update)
  then show ?thesis using b mset_swap [of i "map strip h" j] by (simp add: contents_def)
qed

lemma indexed_Swap: "i < length h \<Longrightarrow> j < length h \<Longrightarrow> indexed h \<Longrightarrow> indexed (Swap h i j)"
  by (auto simp: indexed_def Swap_def Let_def nth_list_update)

lemma heap_up_root [simp]: "heap_up h 0 = h"
  by (subst heap_up.simps) simp

lemma heap_down_leaf: "n \<le> 2 * i + 1 \<Longrightarrow> heap_down h i n = h"
  by (subst heap_down.simps) simp

lemma length_heap_up [simp]: "length (heap_up h j) = length h"
  by (induction h j rule: heap_up.induct) (simp add: heap_up.simps Let_def)

lemma heap_up_keeps:
  "j < length h \<Longrightarrow> contents (heap_up h j) = contents h \<and> (indexed h \<longrightarrow> indexed (heap_up h j))"
proof (induction h j rule: heap_up.induct)
  case (1 h j)
  let ?i = "(j - 1) div 2"
  show ?case
  proof (cases "?i = j \<or> \<not> Less h j ?i")
    case True
    then show ?thesis by (simp add: heap_up.simps [of h j] Let_def)
  next
    case False
    have i: "?i < length h" using "1.prems" by linarith
    with 1 False contents_Swap [OF i "1.prems"] indexed_Swap [OF i "1.prems"]
    show ?thesis by (simp add: heap_up.simps [of h j] Let_def)
  qed
qed

lemma length_heap_down [simp]: "length (heap_down h i n) = length h"
  by (induction h i n rule: heap_down.induct) (simp add: heap_down.simps Let_def)

lemma heap_down_keeps:
  "n \<le> length h \<Longrightarrow> i < length h \<Longrightarrow>
   contents (heap_down h i n) = contents h \<and> (indexed h \<longrightarrow> indexed (heap_down h i n))"
proof (induction h i n rule: heap_down.induct)
  case (1 h i n)
  let ?j = "down_child h i n"
  show ?case
  proof (cases "2 * i + 1 \<ge> n \<or> \<not> Less h ?j i")
    case True
    then show ?thesis by (auto simp: heap_down.simps [of h i n] Let_def)
  next
    case False
    then have j: "?j < length h" using "1.prems" by (auto simp: down_child_def)
    with 1 False contents_Swap [OF "1.prems"(2) j] indexed_Swap [OF "1.prems"(2) j]
    show ?thesis by (simp add: heap_down.simps [of h i n] Let_def)
  qed
qed

lemma parent_less: "0 < j \<Longrightarrow> parent j < j"
  by (simp add: parent_def)

lemma up_order_stop: "up_order K n k \<Longrightarrow> k = 0 \<or> K (parent k) \<le> K k \<Longrightarrow> heap_order K n"
  unfolding up_order_def heap_order_def by (metis less_irrefl)

lemma up_order_step:
  assumes up: "up_order K n k" and k: "0 < k" "k < n" and lt: "K k < K (parent k)"
  shows "up_order (swapped K (parent k) k) n (parent k)"
  unfolding up_order_def
proof (intro allI impI conjI)
  fix j assume j: "j < n" "0 < j"
  note u = up [unfolded up_order_def, rule_format]
  have pk: "parent k < k" using k(1) by (rule parent_less)
  have pj: "parent j < j" using j(2) by (rule parent_less)
  {
    assume "j \<noteq> parent k"
    consider "j = k" | "j \<noteq> k" "parent j = parent k" | "j \<noteq> k" "parent j = k" | "j \<noteq> k" "parent j \<noteq> parent k" "parent j \<noteq> k"
      by blast
    then show "swapped K (parent k) k (parent j) \<le> swapped K (parent k) k j"
    proof cases
      case 1
      with lt pk show ?thesis by (simp add: swapped_def)
    next
      case 2
      have "K (parent k) \<le> K j" using u [OF j] 2 by metis
      with 2 lt \<open>j \<noteq> parent k\<close> show ?thesis by (simp add: swapped_def)
    next
      case 3
      have "K (parent k) \<le> K j" using u [OF j] 3 k(1) by metis
      with 3 pk \<open>j \<noteq> parent k\<close> show ?thesis by (simp add: swapped_def)
    next
      case 4
      with u [OF j] \<open>j \<noteq> parent k\<close> show ?thesis by (simp add: swapped_def)
    qed
  next
    assume p: "parent j = parent k" "0 < parent k"
    have pp: "parent (parent k) < parent k" using p(2) by (rule parent_less)
    have up1: "K (parent (parent k)) \<le> K (parent k)" using u [of "parent k"] p(2) pk k(2) by simp
    moreover have "K (parent k) \<le> K j" if "j \<noteq> k" using u [OF j] p(1) that by metis
    ultimately have "K (parent (parent k)) \<le> swapped K (parent k) k j"
      using pj p(1) by (auto simp: swapped_def)
    with pp pk show "swapped K (parent k) k (parent (parent k)) \<le> swapped K (parent k) k j"
      by (simp add: swapped_def)
  }
qed

lemma down_order_stop:
  "down_order K n k \<Longrightarrow> (\<And>j. j < n \<Longrightarrow> 0 < j \<Longrightarrow> parent j = k \<Longrightarrow> K k \<le> K j) \<Longrightarrow> heap_order K n"
  unfolding down_order_def heap_order_def by metis

lemma down_order_step:
  assumes dn: "down_order K n k" and c: "c < n" "0 < c" "parent c = k" and lt: "K c < K k"
    and least: "\<And>j. j < n \<Longrightarrow> 0 < j \<Longrightarrow> parent j = k \<Longrightarrow> K c \<le> K j"
  shows "down_order (swapped K k c) n c"
  unfolding down_order_def
proof (intro allI impI conjI)
  fix j assume j: "j < n" "0 < j"
  note d = dn [unfolded down_order_def, rule_format]
  have pc: "k < c" using c parent_less by metis
  have pj: "parent j < j" using j(2) by (rule parent_less)
  {
    assume "parent j \<noteq> c"
    consider "j = k" | "j = c" | "j \<noteq> k" "j \<noteq> c" "parent j = k" | "j \<noteq> k" "j \<noteq> c" "parent j \<noteq> k" by blast
    then show "swapped K k c (parent j) \<le> swapped K k c j"
    proof cases
      case 1
      then have "K (parent k) \<le> K c" using d [OF c(1,2)] c(3) j(2) by metis
      with 1 pj pc \<open>parent j \<noteq> c\<close> show ?thesis by (simp add: swapped_def)
    next
      case 2
      with c lt pc show ?thesis by (simp add: swapped_def)
    next
      case 3
      with least [OF j] pc show ?thesis by (simp add: swapped_def)
    next
      case 4
      with d [OF j] \<open>parent j \<noteq> c\<close> show ?thesis by (simp add: swapped_def)
    qed
  next
    assume p: "parent j = c" "0 < c"
    then have "j \<noteq> k" "j \<noteq> c" using pj pc by auto
    moreover have "K c \<le> K j" using d [OF j] p pc by auto
    ultimately show "swapped K k c (parent c) \<le> swapped K k c j"
      using c(3) pc by (simp add: swapped_def)
  }
qed

lemma is_heap_order: "is_heap h \<longleftrightarrow> heap_order (\<lambda>j. ev_key (h ! j)) (length h)"
  by (simp add: is_heap_def heap_order_def parent_def)

lemma up_order_cong:
  assumes "\<And>j. j < n \<Longrightarrow> K j = L j" and "k < n" and "up_order K n k"
  shows "up_order L n k"
  unfolding up_order_def
proof (intro allI impI)
  fix j assume j: "j < n" "0 < j"
  have "L (parent j) = K (parent j)" "L j = K j" using assms(1) j parent_less [OF j(2)] by simp_all
  moreover have "0 < k \<Longrightarrow> L (parent k) = K (parent k)" using assms(1,2) parent_less [of k] by simp
  ultimately show "(j \<noteq> k \<longrightarrow> L (parent j) \<le> L j) \<and> (parent j = k \<longrightarrow> 0 < k \<longrightarrow> L (parent k) \<le> L j)"
    using assms(3) j by (simp add: up_order_def)
qed

lemma down_order_cong:
  assumes "\<And>j. j < n \<Longrightarrow> K j = L j" and "k < n" and "down_order K n k"
  shows "down_order L n k"
  unfolding down_order_def
proof (intro allI impI)
  fix j assume j: "j < n" "0 < j"
  have "L (parent j) = K (parent j)" "L j = K j" using assms(1) j parent_less [OF j(2)] by simp_all
  moreover have "0 < k \<Longrightarrow> L (parent k) = K (parent k)" using assms(1,2) parent_less [of k] by simp
  ultimately show "(parent j \<noteq> k \<longrightarrow> L (parent j) \<le> L j) \<and> (parent j = k \<longrightarrow> 0 < k \<longrightarrow> L (parent k) \<le> L j)"
    using assms(3) j by (simp add: down_order_def)
qed

lemma heap_up_step:
  "heap_up h j = (if parent j = j \<or> \<not> Less h j (parent j) then h else heap_up (Swap h (parent j) j) (parent j))"
  by (subst heap_up.simps) (simp add: Let_def parent_def)

lemma keys_Swap:
  assumes "i < length h" and "j < length h" and "k < length h"
  shows "ev_key (Swap h i j ! k) = swapped (\<lambda>j. ev_key (h ! j)) i j k"
  using key_Swap [OF assms] by (simp add: swapped_def)

lemma heap_up_heap:
  "j < length h \<Longrightarrow> up_order (\<lambda>k. ev_key (h ! k)) (length h) j \<Longrightarrow> is_heap (heap_up h j)"
proof (induction h j rule: heap_up.induct)
  case (1 h j)
  let ?K = "\<lambda>k. ev_key (h ! k)"
  show ?case
  proof (cases "parent j = j \<or> \<not> Less h j (parent j)")
    case True
    then have "j = 0 \<or> ?K (parent j) \<le> ?K j" using parent_less [of j] by (auto simp: Less_key)
    with up_order_stop [OF "1.prems"(2)] True show ?thesis
      by (simp add: heap_up_step [of h j] is_heap_order)
  next
    case False
    then have j0: "0 < j" and lt: "?K j < ?K (parent j)" by (auto simp: Less_key parent_def)
    have i: "parent j < length h" using parent_less [OF j0] "1.prems"(1) by simp
    have "up_order (swapped ?K (parent j) j) (length h) (parent j)"
      using up_order_step [OF "1.prems"(2) j0 "1.prems"(1) lt] .
    then have "up_order (\<lambda>k. ev_key (Swap h (parent j) j ! k)) (length h) (parent j)"
      by (rule up_order_cong [rotated 2]) (simp_all add: i keys_Swap [OF i "1.prems"(1)])
    with "1.IH" [OF parent_def False] i False show ?thesis by (simp add: heap_up_step [of h j])
  qed
qed

lemma down_child_least:
  assumes "2 * i + 1 < n"
  shows "down_child h i n < n" "0 < down_child h i n" "parent (down_child h i n) = i"
    and "j < n \<Longrightarrow> 0 < j \<Longrightarrow> parent j = i \<Longrightarrow> ev_key (h ! down_child h i n) \<le> ev_key (h ! j)"
proof -
  show "down_child h i n < n" "0 < down_child h i n" "parent (down_child h i n) = i"
    using assms by (auto simp: down_child_def parent_def)
  show "ev_key (h ! down_child h i n) \<le> ev_key (h ! j)" if "j < n" "0 < j" "parent j = i"
  proof -
    have "j = 2 * i + 1 \<or> j = 2 * i + 2" using that(2,3) by (simp add: parent_def) linarith
    with that(1) show ?thesis by (auto simp: down_child_def Less_key not_less)
  qed
qed

lemma heap_down_step:
  "heap_down h i n = (if 2 * i + 1 \<ge> n \<or> \<not> Less h (down_child h i n) i then h
     else heap_down (Swap h i (down_child h i n)) (down_child h i n) n)"
  by (subst heap_down.simps) (simp add: Let_def)

lemma heap_down_heap:
  "n \<le> length h \<Longrightarrow> i < n \<Longrightarrow> down_order (\<lambda>k. ev_key (h ! k)) n i \<Longrightarrow>
   heap_order (\<lambda>k. ev_key (heap_down h i n ! k)) n"
proof (induction h i n rule: heap_down.induct)
  case (1 h i n)
  let ?K = "\<lambda>k. ev_key (h ! k)" and ?c = "down_child h i n"
  show ?case
  proof (cases "2 * i + 1 \<ge> n")
    case True
    then have "\<And>j. j < n \<Longrightarrow> 0 < j \<Longrightarrow> parent j \<noteq> i" by (auto simp: parent_def)
    with down_order_stop [OF "1.prems"(3)] True show ?thesis by (simp add: heap_down_step [of h i n])
  next
    case False
    then have lt: "2 * i + 1 < n" by simp
    note c = down_child_least [OF lt, where h = h]
    show ?thesis
    proof (cases "Less h ?c i")
      case False
      have "?K i \<le> ?K j" if "j < n" "0 < j" "parent j = i" for j
        using c(4) [OF that] False by (simp add: Less_key)
      with down_order_stop [OF "1.prems"(3)] lt False show ?thesis
        by (simp add: heap_down_step [of h i n])
    next
      case True
      have len: "i < length h" "?c < length h" using "1.prems" c(1) by simp_all
      have "?K ?c < ?K i" using True by (simp add: Less_key)
      with "1.prems"(3) c(1-3) have "down_order (swapped ?K i ?c) n ?c"
        by (rule down_order_step) (rule c(4))
      then have "down_order (\<lambda>k. ev_key (Swap h i ?c ! k)) n ?c"
        by (rule down_order_cong [rotated 2]) (use "1.prems"(1) in \<open>simp_all add: c(1) keys_Swap [OF len]\<close>)
      then have "heap_order (\<lambda>k. ev_key (heap_down (Swap h i ?c) ?c n ! k)) n"
        using lt True "1.prems"(1) c(1) by (intro "1.IH" [OF _ refl]) simp_all
      with lt True show ?thesis by (simp add: heap_down_step [of h i n])
    qed
  qed
qed

lemma heap_down_beyond: "i < n \<Longrightarrow> n \<le> m \<Longrightarrow> heap_down h i n ! m = h ! m"
proof (induction h i n rule: heap_down.induct)
  case (1 h i n)
  show ?case
  proof (cases "2 * i + 1 \<ge> n \<or> \<not> Less h (down_child h i n) i")
    case True
    then show ?thesis by (auto simp: heap_down_step [of h i n])
  next
    case False
    note c = down_child_least [where i = i and n = n and h = h]
    have "Swap h i (down_child h i n) ! m = h ! m"
      using "1.prems" c(1) False by (simp add: Swap_def Let_def)
    with 1 False c(1) show ?thesis by (simp add: heap_down_step [of h i n])
  qed
qed

lemma up_order_append:
  assumes "is_heap h"
  shows "up_order (\<lambda>k. ev_key ((h @ [e]) ! k)) (Suc (length h)) (length h)"
  unfolding up_order_def
proof (intro allI impI)
  fix j assume j: "j < Suc (length h)" "0 < j"
  have p: "parent j < length h" using parent_less [OF j(2)] j(1) by simp
  show "(j \<noteq> length h \<longrightarrow> ev_key ((h @ [e]) ! parent j) \<le> ev_key ((h @ [e]) ! j)) \<and>
     (parent j = length h \<longrightarrow> 0 < length h \<longrightarrow> ev_key ((h @ [e]) ! parent (length h)) \<le> ev_key ((h @ [e]) ! j))"
    using assms j p by (simp add: is_heap_order heap_order_def nth_append)
qed

lemma heap_Push_ok:
  assumes "is_heap h" and "indexed h"
  shows "is_heap (heap_Push e h)" "indexed (heap_Push e h)" "contents (heap_Push e h) = add_mset (strip e) (contents h)"
proof -
  let ?h = "h @ [e\<lparr>ev_index := int (length h)\<rparr>]"
  have i: "indexed ?h" using assms(2) by (auto simp: indexed_def nth_append less_Suc_eq)
  have n: "length h < length ?h" by simp
  note k = heap_up_keeps [OF n]
  show "is_heap (heap_Push e h)"
    using heap_up_heap [OF n] up_order_append [OF assms(1)] by (simp add: heap_Push_def Push_def)
  show "indexed (heap_Push e h)" using k i by (simp add: heap_Push_def Push_def)
  show "contents (heap_Push e h) = add_mset (strip e) (contents h)"
    using k by (simp add: heap_Push_def Push_def contents_def)
qed

text \<open>The root is least.\<close>

lemma heap_root_least: "is_heap h \<Longrightarrow> j < length h \<Longrightarrow> ev_key (h ! 0) \<le> ev_key (h ! j)"
proof (induction j rule: less_induct)
  case (less j)
  show ?case
  proof (cases "j = 0")
    case False
    then have p: "parent j < j" using parent_less by simp
    then have "ev_key (h ! 0) \<le> ev_key (h ! parent j)" using less by simp
    also have "\<dots> \<le> ev_key (h ! j)" using less.prems False by (simp add: is_heap_def parent_def)
    finally show ?thesis .
  qed simp
qed

lemma down_order_root:
  assumes "is_heap h" and "0 < n" and "n < length h"
  shows "down_order (\<lambda>k. ev_key (Swap h 0 n ! k)) n 0"
proof -
  have h0: "0 < length h" using assms(3) by linarith
  have "ev_key (Swap h 0 n ! parent j) \<le> ev_key (Swap h 0 n ! j)" if j: "j < n" "0 < j" "parent j \<noteq> 0" for j
  proof -
    have p: "parent j < n" using parent_less [OF j(2)] j(1) by simp
    have "ev_key (h ! parent j) \<le> ev_key (h ! j)" using assms(1,3) j by (simp add: is_heap_order heap_order_def)
    moreover have "ev_key (Swap h 0 n ! parent j) = ev_key (h ! parent j)"
      using key_Swap [OF h0 assms(3), of "parent j"] assms(3) j p by simp
    moreover have "ev_key (Swap h 0 n ! j) = ev_key (h ! j)" using key_Swap [OF h0 assms(3), of j] assms(3) j by simp
    ultimately show ?thesis by simp
  qed
  then show ?thesis by (simp add: down_order_def)
qed

lemma heap_Pop_ok:
  assumes "is_heap h" and "indexed h" and "h \<noteq> []" and "heap_Pop h = (e, h')"
  shows "is_heap h'" "indexed h'" "contents h = add_mset (strip e) (contents h')" "strip e = strip (h ! 0)"
    and "ev_index e = - 1" "\<And>x. x \<in># contents h \<Longrightarrow> ev_key e \<le> ev_key x"
proof -
  define n where "n = length h - 1"
  define g where "g = heap_down (Swap h 0 n) 0 n"
  have len: "length h = Suc n" using assms(3) by (simp add: n_def)
  have zn: "0 < length h" "n < length h" using len by simp_all
  have lg: "length g = Suc n" by (simp add: g_def len)
  have e: "e = (g ! n)\<lparr>ev_index := - 1\<rparr>" and h': "h' = take n g"
    using assms(4) lg by (simp_all add: heap_Pop_def Pop_def Let_def g_def n_def)
  have keep: "contents g = contents h" "indexed g"
    using heap_down_keeps [of n "Swap h 0 n" 0] contents_Swap [OF zn] indexed_Swap [OF zn assms(2)] len
    by (simp_all add: g_def)
  have last: "strip (g ! n) = strip (h ! 0)"
  proof (cases "n = 0")
    case True
    then have "g = Swap h 0 0" by (simp add: g_def heap_down.simps)
    with True zn show ?thesis by (simp add: Swap_def Let_def)
  next
    case False
    then have "g ! n = Swap h 0 n ! n" unfolding g_def by (intro heap_down_beyond) simp_all
    with False zn show ?thesis by (simp add: Swap_def Let_def)
  qed
  then show se: "strip e = strip (h ! 0)" by (simp add: e)
  have "g = take n g @ [g ! n]" using lg take_Suc_conv_app_nth [of n g] by simp
  then have "map strip g = map strip (take n g) @ [strip (g ! n)]" by (metis list.map(1,2) map_append)
  then show "contents h = add_mset (strip e) (contents h')"
    unfolding keep(1) [symmetric] by (simp add: contents_def h' e)
  show "indexed h'" using keep(2) lg by (simp add: indexed_def h')
  show "ev_index e = - 1" by (simp add: e)
  show "is_heap h'"
  proof (cases "n = 0")
    case False
    have "heap_order (\<lambda>k. ev_key (g ! k)) n" unfolding g_def
      using down_order_root [OF assms(1)] False zn by (intro heap_down_heap) simp_all
    then have "ev_key (take n g ! parent j) \<le> ev_key (take n g ! j)" if "j < n" "0 < j" for j
      using that parent_less [OF that(2)] by (simp add: heap_order_def)
    then have "heap_order (\<lambda>k. ev_key (take n g ! k)) n" by (simp add: heap_order_def)
    then show ?thesis using lg by (simp add: is_heap_order h')
  qed (simp add: h' is_heap_def)
  show "ev_key e \<le> ev_key x" if x: "x \<in># contents h" for x
  proof -
    obtain j where j: "j < length h" "x = strip (h ! j)" using x by (auto simp: contents_def in_set_conv_nth)
    have "ev_key e = ev_key (h ! 0)" using se ev_key_index(2) by metis
    with heap_root_least [OF assms(1) j(1)] j(2) show ?thesis by simp
  qed
qed

lemma length_heap_Pop [termination_simp]: "h \<noteq> [] \<Longrightarrow> length (snd (heap_Pop h)) < length h"
  by (simp add: heap_Pop_def Pop_def Let_def)

end
