(* ===== verification/EventQueue.thy ===== *)
theory EventQueue
  imports TimerHeap
begin

text \<open>
  The contract the timer relies on: a priority queue holds a bag of entries and hands out one with a least
  key. The locale states it; its client lemma is that taking everything out yields the entries in
  order of their keys. The event heap is interpreted as such a queue, with due time and then
  submission order as the key.
\<close>

text \<open>Pushing a list of entries, and popping up to a number of them.\<close>

primrec push_all :: "('e \<Rightarrow> 'q \<Rightarrow> 'q) \<Rightarrow> 'e list \<Rightarrow> 'q \<Rightarrow> 'q" where
  "push_all push [] q = q"
| "push_all push (e # es) q = push_all push es (push e q)"

primrec pop_many :: "('q \<Rightarrow> bool) \<Rightarrow> ('q \<Rightarrow> 'e \<times> 'q) \<Rightarrow> nat \<Rightarrow> 'q \<Rightarrow> 'e list" where
  "pop_many is_empty pop 0 q = []"
| "pop_many is_empty pop (Suc n) q = (if is_empty q then [] else fst (pop q) # pop_many is_empty pop n (snd (pop q)))"

definition heap_ok :: "'cb eventHeap \<Rightarrow> bool" where
  "heap_ok h \<longleftrightarrow> is_heap h \<and> indexed h"

text \<open>\<open>clean\<close> forgets what the queue keeps in its entries for its own use.\<close>

locale priority_queue =
  fixes empty :: 'q
    and is_empty :: "'q \<Rightarrow> bool"
    and push :: "'e \<Rightarrow> 'q \<Rightarrow> 'q"
    and pop :: "'q \<Rightarrow> 'e \<times> 'q"
    and key :: "'e \<Rightarrow> 'k :: linorder"
    and clean :: "'e \<Rightarrow> 'e"
    and invar :: "'q \<Rightarrow> bool"
    and bag :: "'q \<Rightarrow> 'e multiset"
  assumes empty_ok: "invar empty" "bag empty = {#}"
    and is_empty: "invar q \<Longrightarrow> is_empty q \<longleftrightarrow> bag q = {#}"
    and push_ok: "invar q \<Longrightarrow> invar (push e q)" "invar q \<Longrightarrow> bag (push e q) = add_mset (clean e) (bag q)"
    and pop_ok: "invar q \<Longrightarrow> bag q \<noteq> {#} \<Longrightarrow> invar (snd (pop q))"
      "invar q \<Longrightarrow> bag q \<noteq> {#} \<Longrightarrow> bag q = add_mset (clean (fst (pop q))) (bag (snd (pop q)))"
      "invar q \<Longrightarrow> bag q \<noteq> {#} \<Longrightarrow> x \<in># bag q \<Longrightarrow> key (fst (pop q)) \<le> key x"
    and key_clean: "key (clean e) = key e"
begin

lemma push_all_ok:
  "invar q \<Longrightarrow> invar (push_all push es q) \<and> bag (push_all push es q) = image_mset clean (mset es) + bag q"
  by (induction es arbitrary: q) (simp_all add: push_ok)

lemma pop_many_set: "invar q \<Longrightarrow> clean ` set (pop_many is_empty pop n q) \<subseteq> set_mset (bag q)"
proof (induction n arbitrary: q)
  case (Suc n)
  show ?case
  proof (cases "is_empty q")
    case False
    then have ne: "bag q \<noteq> {#}" using is_empty [OF Suc.prems] by simp
    note p = pop_ok(1,2) [OF Suc.prems ne]
    have "clean ` set (pop_many is_empty pop n (snd (pop q))) \<subseteq> set_mset (bag q)" using Suc.IH [OF p(1)] p(2) by auto
    moreover have "clean (fst (pop q)) \<in># bag q" using p(2) by simp
    ultimately show ?thesis using False by simp
  qed simp
qed simp

lemma pop_many_sorted: "invar q \<Longrightarrow> sorted (map key (pop_many is_empty pop n q))"
proof (induction n arbitrary: q)
  case (Suc n)
  show ?case
  proof (cases "is_empty q")
    case False
    then have ne: "bag q \<noteq> {#}" using is_empty [OF Suc.prems] by simp
    note p = pop_ok [OF Suc.prems ne]
    have "key (fst (pop q)) \<le> key x" if "x \<in> set (pop_many is_empty pop n (snd (pop q)))" for x
    proof -
      have "clean x \<in># bag (snd (pop q))" using that pop_many_set [OF p(1)] by blast
      then have "clean x \<in># bag q" using p(2) by simp
      from p(3) [OF this] show ?thesis by (simp add: key_clean)
    qed
    then show ?thesis using False Suc.IH [OF p(1)] by auto
  qed simp
qed simp

lemma pop_many_all:
  "invar q \<Longrightarrow> size (bag q) \<le> n \<Longrightarrow> image_mset clean (mset (pop_many is_empty pop n q)) = bag q"
proof (induction n arbitrary: q)
  case (Suc n)
  show ?case
  proof (cases "bag q = {#}")
    case False
    note p = pop_ok(1,2) [OF Suc.prems(1) False]
    have "size (bag (snd (pop q))) \<le> n" using p(2) Suc.prems(2) by simp
    then show ?thesis using Suc.IH [OF p(1)] p(2) False is_empty [OF Suc.prems(1)] by simp
  qed (use Suc.prems(1) is_empty in simp)
qed simp

text \<open>What goes in comes out, sorted by key.\<close>

lemma drain_sorted:
  assumes "length es \<le> n"
  shows "image_mset clean (mset (pop_many is_empty pop n (push_all push es empty))) = image_mset clean (mset es)"
    and "sorted (map key (pop_many is_empty pop n (push_all push es empty)))"
  using push_all_ok [OF empty_ok(1), of es] empty_ok(2) assms
  by (simp_all add: pop_many_all pop_many_sorted)

end

interpretation eq: priority_queue "[]" "\<lambda>h. h = []" heap_Push heap_Pop ev_key strip heap_ok contents
proof unfold_locales
  fix h :: "'a event list" and e x :: "'a event"
  show "heap_ok ([] :: 'a event list)" "contents ([] :: 'a event list) = {#}"
    by (simp_all add: heap_ok_def is_heap_def indexed_def contents_def)
  show "heap_ok h \<Longrightarrow> (h = []) = (contents h = {#})" by (simp add: contents_def)
  show "heap_ok h \<Longrightarrow> heap_ok (heap_Push e h)" "heap_ok h \<Longrightarrow> contents (heap_Push e h) = add_mset (strip e) (contents h)"
    using heap_Push_ok by (auto simp: heap_ok_def)
  show "ev_key (strip e) = ev_key e" by simp
  assume ok: "heap_ok h" "contents h \<noteq> {#}"
  then have ne: "h \<noteq> []" by (auto simp: contents_def)
  note p = heap_Pop_ok [OF _ _ ne prod.collapse [symmetric]]
  show "heap_ok (snd (heap_Pop h))" "contents h = add_mset (strip (fst (heap_Pop h))) (contents (snd (heap_Pop h)))"
    using ok(1) p(1-3) by (auto simp: heap_ok_def)
  show "x \<in># contents h \<Longrightarrow> ev_key (fst (heap_Pop h)) \<le> ev_key x"
    using ok(1) p(6) by (auto simp: heap_ok_def)
qed

section \<open>Properties\<close>

lemma filter_key_unique: "distinct (map f xs) \<Longrightarrow> x \<in> set xs \<Longrightarrow> filter (\<lambda>y. f x = f y) xs = [x]"
  by (induction xs) (auto simp: filter_empty_conv image_iff)

lemma insort_key_strip: "insort_key ev_key (strip e) (map strip es) = map strip (insort_key ev_key e es)"
  by (induction es) (simp_all)

text \<open>C36. The event heap is equivalent to sorting: events with different keys that are pushed in any order and
  all popped again come out exactly as a sort by due time, and by submission order among equal times,
  arranges them.\<close>

theorem event_heap_sorts:
  assumes "distinct (map ev_key es)"
  shows "map strip (pop_many (\<lambda>h. h = []) heap_Pop (length es) (push_all heap_Push es [])) = map strip (sort_key ev_key es)"
proof -
  let ?out = "map strip (pop_many (\<lambda>h. h = []) heap_Pop (length es) (push_all heap_Push es []))"
  have m: "mset ?out = mset (map strip es)" using eq.drain_sorted(1) [of es "length es"] by simp
  have s: "sorted (map ev_key ?out)" using eq.drain_sorted(2) [of es "length es"] by (simp add: comp_def)
  have d: "distinct (map ev_key (map strip es))" using assms by (simp add: comp_def)
  then have d': "distinct (map ev_key ?out)" by (metis m mset_map mset_eq_imp_distinct_iff)
  have "filter (\<lambda>x. ev_key k = ev_key x) ?out = filter (\<lambda>x. ev_key k = ev_key x) (map strip es)" if "k \<in> set ?out" for k
  proof -
    have "k \<in> set (map strip es)" using that m by (metis mset_eq_setD)
    then show ?thesis using that filter_key_unique [OF d] filter_key_unique [OF d'] by simp
  qed
  from properties_for_sort_key [OF m this s] have "sort_key ev_key (map strip es) = ?out" .
  moreover have "sort_key ev_key (map strip es) = map strip (sort_key ev_key es)"
    by (induction es) (simp_all add: insort_key_strip)
  ultimately show ?thesis by simp
qed

theorem event_heap_sorts_witness:
  "map ev_sequence (map strip (pop_many (\<lambda>h. h = []) heap_Pop 3 (push_all heap_Push
     [\<lparr>ev_at = 9, ev_callback = Some (), ev_cancelled = False, ev_index = - 1, ev_sequence = 1\<rparr>,
      \<lparr>ev_at = 4, ev_callback = Some (), ev_cancelled = False, ev_index = - 1, ev_sequence = 2\<rparr>,
      \<lparr>ev_at = 4, ev_callback = Some (), ev_cancelled = False, ev_index = - 1, ev_sequence = 3\<rparr>] []))) = [2, 3, 1]"
  using event_heap_sorts [of "[\<lparr>ev_at = 9, ev_callback = Some (), ev_cancelled = False, ev_index = - 1, ev_sequence = 1\<rparr>,
      \<lparr>ev_at = 4, ev_callback = Some (), ev_cancelled = False, ev_index = - 1, ev_sequence = 2\<rparr>,
      \<lparr>ev_at = 4, ev_callback = Some (), ev_cancelled = False, ev_index = - 1, ev_sequence = 3\<rparr>]"]
  by (simp add: ev_key_def strip_def numeral_3_eq_3 del: pop_many.simps push_all.simps map_map)

end
