(* ===== verification/TimeWheel.thy ===== *)
theory TimeWheel
  imports EventQueue "HOL-Library.While_Combinator"
begin

text \<open>
  The timer of \<^verbatim>\<open>internal/timer/timer.go\<close>: the operations its callers use and the loop of \<open>Run\<close>. The
  methods change the wheel under its lock; \<open>Schedule\<close> and the cancellation signal the loop only after
  they have released it, so a signal is a step of its own. The \<open>wake\<close> channel has room for one token.
  An event is known to its cancellation function by its sequence number, which is its own as long as the 64-bit
  counter has not wrapped.
\<close>

record 'cb TimeWheel =
  tw_events :: "'cb eventHeap"
  tw_wake :: bool
  tw_sequence :: "64 word"

definition NewWithClock :: "'cb TimeWheel" where
  "NewWithClock = \<lparr>tw_events = [], tw_wake = False, tw_sequence = 0\<rparr>"

text \<open>The locked part of \<open>Schedule\<close>; the result names the event for its cancellation function.\<close>

definition Schedule_event :: "gotime \<Rightarrow> 'cb option \<Rightarrow> 'cb TimeWheel \<Rightarrow> 64 word \<times> 'cb TimeWheel" where
  "Schedule_event at callback w =
     (let sequence = tw_sequence w + 1;
          e = \<lparr>ev_at = at, ev_callback = callback, ev_cancelled = False, ev_index = - 1, ev_sequence = sequence\<rparr>
      in (sequence, w\<lparr>tw_sequence := sequence, tw_events := heap_Push e (tw_events w)\<rparr>))"

text \<open>The locked part of the cancellation function.\<close>

definition cancel_event :: "64 word \<Rightarrow> 'cb TimeWheel \<Rightarrow> 'cb TimeWheel" where
  "cancel_event sq w = w\<lparr>tw_events := map (\<lambda>e. if ev_sequence e = sq \<and> ev_index e \<ge> 0
     then e\<lparr>ev_cancelled := True\<rparr> else e) (tw_events w)\<rparr>"

definition signal :: "'cb TimeWheel \<Rightarrow> 'cb TimeWheel" where
  "signal w = w\<lparr>tw_wake := True\<rparr>"


section \<open>The loop of \<open>Run\<close>\<close>

text \<open>The inner loop drops cancelled events from the front.\<close>

fun drop_cancelled :: "'cb eventHeap \<Rightarrow> 'cb eventHeap" where
  "drop_cancelled h =
     (if h \<noteq> [] \<and> ev_cancelled (h ! 0) then drop_cancelled (snd (heap_Pop h)) else h)"

declare drop_cancelled.simps [simp del]

text \<open>Where \<open>Run\<close> stands: at the top of its loop, waiting with nothing scheduled, waiting for a timer
  that fires at a time, or returned.\<close>

datatype pc = Top | Idle | Waiting gotime | Returned

text \<open>The timer with its loop: the system clock, callers that have released the lock and not yet signalled,
  the callbacks run so far with the time they were run, and the events cancelled while they were
  queued.\<close>

record 'cb timer =
  wheel :: "'cb TimeWheel"
  at_pc :: pc
  clock :: gotime
  signals :: nat
  fired :: "(gotime \<times> 'cb event) list"
  revoked :: "64 word set"

definition queued :: "64 word \<Rightarrow> 'cb TimeWheel \<Rightarrow> bool" where
  "queued sq w \<longleftrightarrow> sq \<in> ev_sequence ` set (tw_events w)"

text \<open>One pass of \<open>Run\<close> from the top to its next wait.\<close>

definition run_top :: "'cb timer \<Rightarrow> 'cb timer" where
  "run_top s =
     (let h = drop_cancelled (tw_events (wheel s));
          s = s\<lparr>wheel := (wheel s)\<lparr>tw_events := h\<rparr>\<rparr>
      in if h = [] then s\<lparr>at_pc := Idle\<rparr>
         else let wait = time_Sub (ev_at (h ! 0)) (clock s);
                  wait = (if wait < 0 then 0 else wait)
              in s\<lparr>at_pc := Waiting (clock s + wait)\<rparr>)"

text \<open>The branch of the select that takes the timer.\<close>

definition run_fire :: "'cb timer \<Rightarrow> 'cb timer" where
  "run_fire s =
     (if tw_events (wheel s) = [] then s\<lparr>at_pc := Top\<rparr>
      else let (e, h) = heap_Pop (tw_events (wheel s));
               s = s\<lparr>wheel := (wheel s)\<lparr>tw_events := h\<rparr>, at_pc := Top\<rparr>
           in if \<not> ev_cancelled e \<and> ev_callback e \<noteq> None then s\<lparr>fired := fired s @ [(clock s, e)]\<rparr> else s)"

text \<open>The steps of callers, of the clock and of \<open>Run\<close>. A caller schedules within a \<open>time.Duration\<close> of the
  clock, as \<open>time.Now().Add(d)\<close> does, and fewer than \<open>2 ^ 64\<close> events are scheduled in all.\<close>

inductive timer_step :: "'cb timer \<Rightarrow> 'cb timer \<Rightarrow> bool" where
  schedule: "at \<le> clock s + (2 ^ 63 - 1) \<Longrightarrow> tw_sequence (wheel s) \<noteq> - 1 \<Longrightarrow>
    timer_step s (s\<lparr>wheel := snd (Schedule_event at cb (wheel s)), signals := Suc (signals s)\<rparr>)"
| cancel: "timer_step s (s\<lparr>wheel := cancel_event sq (wheel s), signals := Suc (signals s),
      revoked := revoked s \<union> (if queued sq (wheel s) then {sq} else {})\<rparr>)"
| Wake: "timer_step s (s\<lparr>wheel := signal (wheel s)\<rparr>)"
| signal: "signals s = Suc n \<Longrightarrow> timer_step s (s\<lparr>wheel := signal (wheel s), signals := n\<rparr>)"
| tick: "clock s \<le> t \<Longrightarrow> timer_step s (s\<lparr>clock := t\<rparr>)"
| top: "at_pc s = Top \<Longrightarrow> timer_step s (run_top s)"
| idle_wake: "at_pc s = Idle \<Longrightarrow> tw_wake (wheel s) \<Longrightarrow>
    timer_step s (s\<lparr>wheel := (wheel s)\<lparr>tw_wake := False\<rparr>, at_pc := Top\<rparr>)"
| wait_wake: "at_pc s = Waiting due \<Longrightarrow> tw_wake (wheel s) \<Longrightarrow>
    timer_step s (s\<lparr>wheel := (wheel s)\<lparr>tw_wake := False\<rparr>, at_pc := Top\<rparr>)"
| fire: "at_pc s = Waiting due \<Longrightarrow> due \<le> clock s \<Longrightarrow> timer_step s (run_fire s)"
| done_idle: "at_pc s = Idle \<Longrightarrow> timer_step s (s\<lparr>at_pc := Returned\<rparr>)"
| done_wait: "at_pc s = Waiting due \<Longrightarrow> timer_step s (s\<lparr>at_pc := Returned\<rparr>)"

definition timer_init :: "gotime \<Rightarrow> 'cb timer" where
  "timer_init t = \<lparr>wheel = NewWithClock, at_pc = Top, clock = t, signals = 0, fired = [], revoked = {}\<rparr>"

section \<open>The invariant\<close>

text \<open>The queued events without their positions.\<close>

definition evs :: "'cb eventHeap \<Rightarrow> 'cb event set" where
  "evs h = strip ` set h"

text \<open>The queue is a heap of events with different sequence numbers up to the last one given out, none due later
  than a \<open>time.Duration\<close> from now, and the revoked ones among them are marked.\<close>

definition queue_inv :: "'cb timer \<Rightarrow> bool" where
  "queue_inv s \<longleftrightarrow> heap_ok (tw_events (wheel s)) \<and> distinct (map ev_sequence (tw_events (wheel s)))
     \<and> (\<forall>e \<in> evs (tw_events (wheel s)). ev_sequence e \<le> tw_sequence (wheel s)
          \<and> ev_at e \<le> clock s + (2 ^ 63 - 1) \<and> (ev_sequence e \<in> revoked s \<longrightarrow> ev_cancelled e))
     \<and> (\<forall>q \<in> revoked s. q \<le> tw_sequence (wheel s))"

text \<open>Every callback was run once, not before its time, and neither revoked nor still queued.\<close>

definition log_inv :: "'cb timer \<Rightarrow> bool" where
  "log_inv s \<longleftrightarrow> distinct (map (\<lambda>x. ev_sequence (snd x)) (fired s))
     \<and> (\<forall>x \<in> set (fired s). ev_at (snd x) \<le> fst x \<and> fst x \<le> clock s \<and> ev_sequence (snd x) \<le> tw_sequence (wheel s)
          \<and> ev_sequence (snd x) \<notin> revoked s \<and> ev_sequence (snd x) \<notin> ev_sequence ` evs (tw_events (wheel s)))"

text \<open>The loop waits only while there is nothing to do sooner, or a signal is on its way.\<close>

definition wait_inv :: "'cb timer \<Rightarrow> bool" where
  "wait_inv s \<longleftrightarrow> (case at_pc s of
     Idle \<Rightarrow> evs (tw_events (wheel s)) = {} \<or> tw_wake (wheel s) \<or> 0 < signals s
   | Waiting due \<Rightarrow> (\<exists>e \<in> evs (tw_events (wheel s)). ev_at e \<le> due)
       \<and> (tw_wake (wheel s) \<or> 0 < signals s \<or> (\<forall>e \<in> evs (tw_events (wheel s)). due \<le> max (clock s) (ev_at e)))
   | _ \<Rightarrow> True)"

definition timer_inv :: "'cb timer \<Rightarrow> bool" where
  "timer_inv s \<longleftrightarrow> queue_inv s \<and> log_inv s \<and> wait_inv s"

text \<open>The effect of a cancellation on a queued event.\<close>

definition mark :: "64 word \<Rightarrow> 'cb event \<Rightarrow> 'cb event" where
  "mark sq e = (if ev_sequence e = sq then e\<lparr>ev_cancelled := True\<rparr> else e)"

lemmas timer_inv_defs = queue_inv_def log_inv_def wait_inv_def


section \<open>Lemmas\<close>

lemma strip_sel [simp]:
  "ev_at (strip e) = ev_at e" "ev_sequence (strip e) = ev_sequence e" "ev_cancelled (strip e) = ev_cancelled e"
  "ev_callback (strip e) = ev_callback e"
  by (simp_all add: strip_def)

lemma evs_contents: "evs h = set_mset (contents h)"
  by (simp add: evs_def contents_def)

lemma evs_sequence [simp]: "ev_sequence ` evs h = ev_sequence ` set h"
  by (simp add: evs_def image_image)

lemma seq_contents: "mset (map ev_sequence h) = image_mset ev_sequence (contents h)"
  by (simp add: contents_def multiset.map_comp comp_def)

lemma push_facts:
  assumes "heap_ok h"
  shows "heap_ok (heap_Push e h)" "evs (heap_Push e h) = insert (strip e) (evs h)"
    "distinct (map ev_sequence (heap_Push e h)) \<longleftrightarrow> ev_sequence e \<notin> ev_sequence ` set h \<and> distinct (map ev_sequence h)"
proof -
  note p = eq.push_ok [OF assms, of e]
  show "heap_ok (heap_Push e h)" "evs (heap_Push e h) = insert (strip e) (evs h)" using p by (simp_all add: evs_contents)
  have "mset (map ev_sequence (heap_Push e h)) = mset (ev_sequence e # map ev_sequence h)"
    unfolding seq_contents p(2) by (simp flip: seq_contents)
  from mset_eq_imp_distinct_iff [OF this]
  show "distinct (map ev_sequence (heap_Push e h)) \<longleftrightarrow> ev_sequence e \<notin> ev_sequence ` set h \<and> distinct (map ev_sequence h)"
    by simp
qed

lemma pop_facts:
  assumes "heap_ok h" and "h \<noteq> []" and "heap_Pop h = (e, h')"
  shows "heap_ok h'" "evs h = insert (strip e) (evs h')" "x \<in> evs h \<Longrightarrow> ev_key e \<le> ev_key x" "strip e = strip (h ! 0)"
    "distinct (map ev_sequence h) \<Longrightarrow> ev_sequence e \<notin> ev_sequence ` set h' \<and> distinct (map ev_sequence h')"
proof -
  note p = heap_Pop_ok [OF _ _ assms(2,3)]
  show "heap_ok h'" "evs h = insert (strip e) (evs h')" "x \<in> evs h \<Longrightarrow> ev_key e \<le> ev_key x" "strip e = strip (h ! 0)"
    using assms(1) p by (auto simp: heap_ok_def evs_contents)
  have "mset (map ev_sequence h) = mset (ev_sequence e # map ev_sequence h')"
    using p(3) assms(1) by (simp only: seq_contents) (simp add: heap_ok_def flip: seq_contents)
  from mset_eq_imp_distinct_iff [OF this]
  show "distinct (map ev_sequence h) \<Longrightarrow> ev_sequence e \<notin> ev_sequence ` set h' \<and> distinct (map ev_sequence h')" by simp
qed

lemma drop_cancelled_facts:
  "heap_ok h \<Longrightarrow> heap_ok (drop_cancelled h) \<and> evs (drop_cancelled h) \<subseteq> evs h
    \<and> (\<forall>e \<in> evs h - evs (drop_cancelled h). ev_cancelled e)
    \<and> (distinct (map ev_sequence h) \<longrightarrow> distinct (map ev_sequence (drop_cancelled h)))
    \<and> (drop_cancelled h \<noteq> [] \<longrightarrow> \<not> ev_cancelled (drop_cancelled h ! 0))"
proof (induction h rule: drop_cancelled.induct)
  case (1 h)
  show ?case
  proof (cases "h \<noteq> [] \<and> ev_cancelled (h ! 0)")
    case True
    obtain e h' where p: "heap_Pop h = (e, h')" by (cases "heap_Pop h")
    note f = pop_facts [OF "1.prems" _ p]
    have "ev_cancelled e" using f(4) True strip_sel(3) by metis
    with 1 True f(1,2,5) p show ?thesis by (auto simp: drop_cancelled.simps [of h])
  next
    case False
    with "1.prems" show ?thesis by (auto simp: drop_cancelled.simps [of h])
  qed
qed

lemma key_at: "ev_key e \<le> ev_key x \<Longrightarrow> ev_at e \<le> ev_at x"
  by (auto simp: ev_key_def)

lemma word_less_Suc: "(n :: 64 word) \<noteq> - 1 \<Longrightarrow> m \<le> n \<Longrightarrow> m < n + 1"
  using unatSuc [of n] by (simp add: word_less_nat_alt word_le_nat_alt add.commute eq_neg_iff_add_eq_0)

lemma cancel_facts:
  assumes "heap_ok h"
    and h'_def: "h' = map (\<lambda>e. if ev_sequence e = sq \<and> ev_index e \<ge> 0 then e\<lparr>ev_cancelled := True\<rparr> else e) h"
  shows "heap_ok h'" "evs h' = mark sq ` evs h" "map ev_sequence h' = map ev_sequence h"
proof -
  have h': "h' = map (mark sq) h"
    using assms(1) unfolding h'_def by (intro map_cong refl) (auto simp: heap_ok_def indexed_def mark_def in_set_conv_nth)
  show "map ev_sequence h' = map ev_sequence h" by (simp add: h' mark_def)
  have "ev_key (mark sq e) = ev_key e" "ev_index (mark sq e) = ev_index e" "strip (mark sq e) = mark sq (strip e)" for e :: "'a event"
    by (simp_all add: mark_def ev_key_def strip_def)
  moreover have "(j - 1) div 2 < length h" if "j < length h" for j using that by linarith
  ultimately show "heap_ok h'" "evs h' = mark sq ` evs h"
    using assms(1) by (simp_all add: h' heap_ok_def is_heap_def indexed_def evs_def image_image)
qed

lemma schedule_keeps:
  assumes "queue_inv s" "log_inv s" "wait_inv s" and "at \<le> clock s + (2 ^ 63 - 1)" and "tw_sequence (wheel s) \<noteq> - 1"
    and "s' = s\<lparr>wheel := snd (Schedule_event at cb (wheel s)), signals := Suc (signals s)\<rparr>"
  shows "queue_inv s' \<and> log_inv s' \<and> wait_inv s'"
proof -
  let ?n = "tw_sequence (wheel s)" and ?h = "tw_events (wheel s)"
  let ?e = "\<lparr>ev_at = at, ev_callback = cb, ev_cancelled = False, ev_index = - 1, ev_sequence = ?n + 1\<rparr>"
  have w: "wheel s' = (wheel s)\<lparr>tw_sequence := ?n + 1, tw_events := heap_Push ?e ?h\<rparr>"
    "clock s' = clock s" "revoked s' = revoked s" "fired s' = fired s" "at_pc s' = at_pc s" "signals s' = Suc (signals s)"
    by (simp_all add: assms(6) Schedule_event_def Let_def)
  have ok: "heap_ok ?h" using assms(1) by (simp add: queue_inv_def)
  note p = push_facts [OF ok, of ?e]
  have lt: "q < ?n + 1" if "q \<le> ?n" for q using word_less_Suc [OF assms(5) that] .
  have old: "ev_sequence e < ?n + 1" if "e \<in> evs ?h" for e using assms(1) that lt by (auto simp: queue_inv_def)
  have "?n + 1 \<notin> ev_sequence ` evs ?h" using old by (metis imageE less_irrefl)
  then have fresh: "?n + 1 \<notin> ev_sequence ` set ?h" by simp
  have "queue_inv s'" unfolding queue_inv_def w using assms(1,4) p fresh lt old
    by (auto simp: queue_inv_def less_imp_le dest: lt)
  moreover have "log_inv s'" unfolding log_inv_def w using assms(2) p(2) lt
    by (auto simp: log_inv_def less_imp_le image_iff dest: lt) fastforce+
  moreover have "wait_inv s'" using assms(3) p(2) by (auto simp: wait_inv_def w split: pc.splits)
  ultimately show ?thesis by blast
qed

lemma cancel_keeps:
  assumes "queue_inv s" "log_inv s" "wait_inv s"
    and "s' = s\<lparr>wheel := cancel_event sq (wheel s), signals := Suc (signals s),
      revoked := revoked s \<union> (if queued sq (wheel s) then {sq} else {})\<rparr>"
  shows "queue_inv s' \<and> log_inv s' \<and> wait_inv s'"
proof -
  let ?h = "tw_events (wheel s)" and ?h' = "tw_events (cancel_event sq (wheel s))"
  have ok: "heap_ok ?h" using assms(1) by (simp add: queue_inv_def)
  have c: "heap_ok ?h'" "evs ?h' = mark sq ` evs ?h" "map ev_sequence ?h' = map ev_sequence ?h"
    "tw_sequence (cancel_event sq (wheel s)) = tw_sequence (wheel s)" "tw_wake (cancel_event sq (wheel s)) = tw_wake (wheel s)"
    using cancel_facts [OF ok refl, of sq] by (simp_all add: cancel_event_def)
  have m: "ev_at (mark sq e) = ev_at e" "ev_sequence (mark sq e) = ev_sequence e"
    "ev_cancelled (mark sq e) = (ev_cancelled e \<or> ev_sequence e = sq)" for e :: "'a event" by (simp_all add: mark_def)
  have seqs: "ev_sequence ` set ?h' = ev_sequence ` set ?h" using c(3) by (metis list.set_map)
  have q: "sq \<le> tw_sequence (wheel s)" if "queued sq (wheel s)"
    using that assms(1) unfolding queued_def queue_inv_def evs_sequence [symmetric] by blast
  have "queue_inv s'" unfolding queue_inv_def assms(4) using assms(1) c q
    by (auto simp: queue_inv_def m split: if_splits)
  moreover have "log_inv s'" unfolding log_inv_def assms(4) using assms(2) c(4) seqs
    by (auto simp: log_inv_def queued_def split: if_splits)
  moreover have "wait_inv s'" using assms(3) c(2) by (auto simp: wait_inv_def assms(4) m split: pc.splits)
  ultimately show ?thesis by blast
qed

lemma head_least:
  assumes "heap_ok h" and "h \<noteq> []" and "e \<in> evs h"
  shows "ev_at (h ! 0) \<le> ev_at e" and "strip (h ! 0) \<in> evs h"
proof -
  obtain x h' where p: "heap_Pop h = (x, h')" by (cases "heap_Pop h")
  note f = pop_facts [OF assms(1,2) p]
  have "ev_at x = ev_at (h ! 0)" using f(4) strip_sel(1) by metis
  with key_at [OF f(3) [OF assms(3)]] show "ev_at (h ! 0) \<le> ev_at e" by simp
  show "strip (h ! 0) \<in> evs h" using f(2,4) by simp
qed

lemma top_keeps:
  assumes "queue_inv s" "log_inv s"
  shows "queue_inv (run_top s) \<and> log_inv (run_top s) \<and> wait_inv (run_top s)"
proof -
  let ?h = "tw_events (wheel s)" and ?d = "drop_cancelled (tw_events (wheel s))"
  have ok: "heap_ok ?h" "distinct (map ev_sequence ?h)" using assms(1) by (simp_all add: queue_inv_def)
  note d = drop_cancelled_facts [OF ok(1)]
  have sub: "evs ?d \<subseteq> evs ?h" using d by blast
  have w: "wheel (run_top s) = (wheel s)\<lparr>tw_events := ?d\<rparr>" "clock (run_top s) = clock s" "revoked (run_top s) = revoked s"
    "fired (run_top s) = fired s" "signals (run_top s) = signals s"
    by (simp_all add: run_top_def Let_def)
  have "queue_inv (run_top s)" unfolding queue_inv_def w using assms(1) d sub ok(2) by (auto simp: queue_inv_def)
  moreover have "log_inv (run_top s)"
  proof -
    have "ev_sequence ` evs ?d \<subseteq> ev_sequence ` evs ?h" using sub by blast
    then show ?thesis using assms(2) unfolding log_inv_def w by (simp del: evs_sequence) blast
  qed
  moreover have "wait_inv (run_top s)"
  proof (cases "?d = []")
    case True
    then show ?thesis by (simp add: wait_inv_def w run_top_def evs_def)
  next
    case False
    then have ne: "strip (?d ! 0) \<in> evs ?d" by (simp add: evs_def)
    then have "strip (?d ! 0) \<in> evs ?h" using sub by blast
    then have le: "ev_at (?d ! 0) \<le> clock s + (2 ^ 63 - 1)" using assms(1) unfolding queue_inv_def by fastforce
    define due where "due = clock s + (if time_Sub (ev_at (?d ! 0)) (clock s) < 0 then 0 else time_Sub (ev_at (?d ! 0)) (clock s))"
    have due: "due = max (clock s) (ev_at (?d ! 0))" using le by (simp add: due_def time_Sub_def)
    have pc: "at_pc (run_top s) = Waiting due" using False by (simp add: run_top_def Let_def due_def)
    have "due \<le> max (clock s) (ev_at e)" if "e \<in> evs ?d" for e
      using head_least(1) [OF _ False that] d due by auto
    then show ?thesis using ne unfolding wait_inv_def pc w by (auto simp: due intro!: bexI [of _ "strip (?d ! 0)"])
  qed
  ultimately show ?thesis by blast
qed

lemma fire_keeps:
  assumes "queue_inv s" "log_inv s" "wait_inv s" and "at_pc s = Waiting due" and "due \<le> clock s"
  shows "queue_inv (run_fire s) \<and> log_inv (run_fire s) \<and> wait_inv (run_fire s)"
proof -
  let ?h = "tw_events (wheel s)"
  have ok: "heap_ok ?h" "distinct (map ev_sequence ?h)" using assms(1) by (simp_all add: queue_inv_def)
  obtain x where x: "x \<in> evs ?h" "ev_at x \<le> due" using assms(3,4) by (auto simp: wait_inv_def)
  then have ne: "?h \<noteq> []" by (auto simp: evs_def)
  obtain e h' where p: "heap_Pop ?h = (e, h')" by (cases "heap_Pop ?h")
  note f = pop_facts [OF ok(1) ne p]
  have early: "ev_at e \<le> clock s" using key_at [OF f(3) [OF x(1)]] x(2) assms(5) by simp
  have e: "strip e \<in> evs ?h" using f(2) by simp
  have fe: "run_fire s = s\<lparr>wheel := (wheel s)\<lparr>tw_events := h'\<rparr>, at_pc := Top,
      fired := fired s @ (if \<not> ev_cancelled e \<and> ev_callback e \<noteq> None then [(clock s, e)] else [])\<rparr>"
    using ne p by (simp add: run_fire_def)
  have "queue_inv (run_fire s)" using assms(1) f(1,2,5) ok(2) by (auto simp: queue_inv_def fe)
  moreover have "wait_inv (run_fire s)" by (simp add: wait_inv_def fe)
  moreover have "log_inv (run_fire s)"
  proof -
    have old: "ev_sequence (snd y) \<noteq> ev_sequence e \<and> ev_sequence (snd y) \<notin> ev_sequence ` evs h'" if "y \<in> set (fired s)" for y
      using assms(2) that f(2) unfolding log_inv_def by fastforce
    have new: "ev_sequence e \<le> tw_sequence (wheel s)" "ev_sequence e \<in> revoked s \<longrightarrow> ev_cancelled e"
      using assms(1) e unfolding queue_inv_def by fastforce+
    have out: "ev_sequence e \<notin> ev_sequence ` evs h'" using f(5) ok(2) by simp
    show ?thesis using assms(2) old new out early
      by (auto simp: log_inv_def fe simp del: evs_sequence) (metis snd_conv)+
  qed
  ultimately show ?thesis by blast
qed

lemma timer_step_keeps:
  assumes "timer_step s s'" and "queue_inv s" and "log_inv s" and "wait_inv s"
  shows "queue_inv s' \<and> log_inv s' \<and> wait_inv s'"
  using assms
proof (induction rule: timer_step.induct)
  case (schedule at s cb)
  then show ?case by (intro schedule_keeps) auto
next
  case (cancel s sq)
  then show ?case by (intro cancel_keeps) auto
next
  case (top s)
  then show ?case by (intro top_keeps)
next
  case (fire s due)
  then show ?case by (intro fire_keeps)
next
  case (tick s t)
  then have "queue_inv (s\<lparr>clock := t\<rparr>)" "log_inv (s\<lparr>clock := t\<rparr>)" by (fastforce simp: queue_inv_def log_inv_def)+
  moreover have "wait_inv (s\<lparr>clock := t\<rparr>)" using tick by (fastforce simp: wait_inv_def split: pc.splits)
  ultimately show ?case by blast
qed (auto simp: timer_inv_defs TimeWheel.signal_def split: pc.splits)

lemma timer_init_ok: "timer_inv (timer_init t)"
  by (simp add: timer_inv_def timer_inv_defs timer_init_def NewWithClock_def evs_def heap_ok_def is_heap_def indexed_def)

lemma timer_run_keeps: "timer_step\<^sup>*\<^sup>* s s' \<Longrightarrow> timer_inv s \<Longrightarrow> timer_inv s'"
  by (induction rule: rtranclp_induct) (auto simp: timer_inv_def dest: timer_step_keeps)

lemma drop_cancelled_while:
  "while_option (\<lambda>h. h \<noteq> [] \<and> ev_cancelled (h ! 0)) (\<lambda>h. snd (heap_Pop h)) h = Some (drop_cancelled h)"
proof (induction h rule: drop_cancelled.induct)
  case (1 h)
  then show ?case
    by (subst while_option_unfold, subst drop_cancelled.simps) simp
qed

text \<open>A short run: one event is scheduled for time 5 and its callback is run at time 7.\<close>

lemma sample_timer_run:
  "\<exists>s e. timer_step\<^sup>*\<^sup>* (timer_init 0) s \<and> fired s = [(7, e)] \<and> ev_at e = 5 \<and> ev_callback e = Some ()"
proof -
  define s1 where "s1 = (timer_init 0 :: unit timer)\<lparr>wheel := snd (Schedule_event 5 (Some ()) (wheel (timer_init 0))), signals := Suc (signals (timer_init 0 :: unit timer))\<rparr>"
  define s2 where "s2 = run_top s1"
  define s3 where "s3 = s2\<lparr>clock := 7\<rparr>"
  have 1: "timer_step (timer_init 0) s1" unfolding s1_def
    by (rule timer_step.schedule) (simp_all add: timer_init_def NewWithClock_def)
  have e1: "s1 = \<lparr>wheel = \<lparr>tw_events = [\<lparr>ev_at = 5, ev_callback = Some (), ev_cancelled = False, ev_index = 0, ev_sequence = 1\<rparr>],
      tw_wake = False, tw_sequence = 1\<rparr>, at_pc = Top, clock = 0, signals = 1, fired = [], revoked = {}\<rparr>"
    by (simp add: s1_def timer_init_def NewWithClock_def Schedule_event_def Let_def heap_Push_def Push_def)
  have 2: "timer_step s1 s2" unfolding s2_def by (rule timer_step.top) (simp add: e1)
  have e2: "s2 = s1\<lparr>at_pc := Waiting 5\<rparr>"
    by (simp add: s2_def e1 run_top_def Let_def drop_cancelled.simps time_Sub_def)
  have 3: "timer_step s2 s3" unfolding s3_def by (rule timer_step.tick) (simp add: e2 e1)
  have 4: "timer_step s3 (run_fire s3)" by (rule timer_step.fire [of _ 5]) (simp_all add: s3_def e2)
  have "fired (run_fire s3) = [(7, \<lparr>ev_at = 5, ev_callback = Some (), ev_cancelled = False, ev_index = - 1, ev_sequence = 1\<rparr>)]"
    by (simp add: run_fire_def s3_def e2 e1 heap_Pop_def Pop_def Let_def heap_down_leaf Swap_def)
  moreover have "timer_step\<^sup>*\<^sup>* (timer_init 0) (run_fire s3)"
    using 1 2 3 4 by (meson rtranclp.rtrancl_into_rtrancl rtranclp.rtrancl_refl)
  ultimately show ?thesis
    by (intro exI [of _ "run_fire s3"]
        exI [of _ "\<lparr>ev_at = 5, ev_callback = Some (), ev_cancelled = False, ev_index = - 1, ev_sequence = 1\<rparr>"]) simp
qed


section \<open>Properties\<close>



text \<open>C34. The timer never oversleeps: whenever no wake-up is stored or on its way, an idle loop has nothing queued,
  and a waiting loop has set its timer no later than the due time of any queued event, or than now if
  that has passed. So no schedule or cancellation is lost, however it interleaves with the loop.\<close>

theorem timer_never_oversleeps:
  assumes "timer_step\<^sup>*\<^sup>* (timer_init t0) s" and "\<not> tw_wake (wheel s)" and "signals s = 0"
  shows "(at_pc s = Idle \<longrightarrow> tw_events (wheel s) = [])
     \<and> (\<forall>due. at_pc s = Waiting due \<longrightarrow> list_all (\<lambda>e. due \<le> max (clock s) (ev_at e)) (tw_events (wheel s)))"
  using timer_run_keeps [OF assms(1) timer_init_ok] assms(2,3)
  by (auto simp: timer_inv_def wait_inv_def list_all_iff evs_def)

theorem timer_never_oversleeps_witness:
  "\<exists>s :: unit timer. timer_step\<^sup>*\<^sup>* (timer_init 0) s \<and> at_pc s = Idle \<and> tw_events (wheel s) = []"
proof -
  have r: "timer_step\<^sup>*\<^sup>* (timer_init 0 :: unit timer) (run_top (timer_init 0))"
    by (rule r_into_rtranclp, rule timer_step.top) (simp add: timer_init_def)
  have pc: "at_pc (run_top (timer_init 0 :: unit timer)) = Idle"
    by (simp add: run_top_def timer_init_def NewWithClock_def Let_def drop_cancelled.simps)
  have "\<not> tw_wake (wheel (run_top (timer_init 0 :: unit timer)))" "signals (run_top (timer_init 0 :: unit timer)) = 0"
    by (simp_all add: run_top_def timer_init_def NewWithClock_def Let_def)
  from timer_never_oversleeps [OF r this] r pc show ?thesis by blast
qed

text \<open>The loop that drops cancelled events from the front of the queue ends, after removing only cancelled events,
  with an empty queue or with a front that is not cancelled, and the queue stays a heap.\<close>

theorem cancelled_front_is_dropped:
  assumes "heap_ok h"
  shows "\<exists>h'. while_option (\<lambda>h. h \<noteq> [] \<and> ev_cancelled (h ! 0)) (\<lambda>h. snd (heap_Pop h)) h = Some h' \<and> h' = drop_cancelled h
     \<and> heap_ok h' \<and> evs h' \<subseteq> evs h \<and> (\<forall>e \<in> evs h - evs h'. ev_cancelled e) \<and> (h' \<noteq> [] \<longrightarrow> \<not> ev_cancelled (h' ! 0))"
  using drop_cancelled_while [of h] drop_cancelled_facts [OF assms] by blast

theorem cancelled_front_is_dropped_witness:
  "drop_cancelled [\<lparr>ev_at = 5, ev_callback = Some (), ev_cancelled = True, ev_index = 0, ev_sequence = 1\<rparr>] = []"
proof -
  let ?h = "[\<lparr>ev_at = 5, ev_callback = Some (), ev_cancelled = True, ev_index = 0, ev_sequence = 1\<rparr>]"
  have "heap_ok ?h" by (simp add: heap_ok_def is_heap_def indexed_def)
  note d = cancelled_front_is_dropped [OF this]
  show ?thesis
  proof (rule ccontr)
    assume ne: "drop_cancelled ?h \<noteq> []"
    then have "strip (drop_cancelled ?h ! 0) \<in> evs (drop_cancelled ?h)" by (simp add: evs_def)
    then have "strip (drop_cancelled ?h ! 0) \<in> evs ?h" using d by blast
    then have "ev_cancelled (strip (drop_cancelled ?h ! 0))" by (simp add: evs_def del: strip_sel) (simp add: strip_def)
    with d ne show False by auto
  qed
qed

end
