(* ===== verification/TaskStore.thy ===== *)
theory TaskStore
  imports RedisStore
begin

text \<open>
  The \<open>TaskStore\<close> interface of \<^verbatim>\<open>storage/storage.go\<close> as a record of its methods on a state \<open>'w\<close>, and the
  Redis store as an implementation of it. A message passed by pointer is returned as the method leaves
  it. The state of the Redis implementation is a \<open>world\<close>: the database with what becomes of the coming
  requests (what other clients do before each, and its fate), the clock readings and the random bytes
  the methods will draw; each method takes what it needs from the front.
\<close>

type_synonym 'w method_on_msg = "TaskMessage \<Rightarrow> 'w \<Rightarrow> (gerr option \<times> TaskMessage) \<times> 'w"

record 'w TaskStore =
  ts_Enqueue :: "'w method_on_msg"
  ts_Schedule :: "'w method_on_msg"
  ts_Claim :: "string \<Rightarrow> gotime \<Rightarrow> duration \<Rightarrow> 'w \<Rightarrow> (gerr + TaskMessage) \<times> 'w"
  ts_MoveReady :: "gotime \<Rightarrow> int \<Rightarrow> string list \<Rightarrow> 'w \<Rightarrow> (int \<times> gerr option) \<times> 'w"
  ts_AckSuccess :: "'w method_on_msg"
  ts_ScheduleRetry :: "gotime \<Rightarrow> string \<Rightarrow> 'w method_on_msg"
  ts_Archive :: "string \<Rightarrow> 'w method_on_msg"
  ts_Requeue :: "'w method_on_msg"
  ts_Get :: "string \<Rightarrow> string \<Rightarrow> 'w \<Rightarrow> (gerr + TaskMessage) \<times> 'w"
  ts_ExpiredIDs :: "gotime \<Rightarrow> string \<Rightarrow> int \<Rightarrow> 'w \<Rightarrow> (gerr + string list) \<times> 'w"
  ts_PendingCount :: "string \<Rightarrow> 'w \<Rightarrow> (gerr + int) \<times> 'w"
  ts_RetryCount :: "string \<Rightarrow> 'w \<Rightarrow> (gerr + int) \<times> 'w"
  ts_ArchivedCount :: "string \<Rightarrow> 'w \<Rightarrow> (gerr + int) \<times> 'w"
  ts_ExtendLease :: "string \<Rightarrow> TaskMessage option list \<Rightarrow> gotime \<Rightarrow> duration \<Rightarrow> 'w \<Rightarrow> gerr option \<times> 'w"

record 'db world =
  w_db :: 'db
  w_wires :: "nat \<Rightarrow> 'db wire"
  w_clock :: "nat \<Rightarrow> gotime"
  w_entropy :: "nat \<Rightarrow> entropy"

text \<open>One request: the others act, then it meets its fate. The clock and the random source move on with it.\<close>

definition advance :: "nat \<Rightarrow> 'db world \<Rightarrow> 'db \<Rightarrow> 'db world" where
  "advance n w d = w\<lparr>w_db := d, w_wires := (\<lambda>k. w_wires w (k + n)), w_clock := (\<lambda>k. w_clock w (Suc k)),
     w_entropy := (\<lambda>k. w_entropy w (Suc k))\<rparr>"

definition one_request :: "(fate \<Rightarrow> 'db \<Rightarrow> 'r \<times> 'db) \<Rightarrow> 'db world \<Rightarrow> 'r \<times> 'db world" where
  "one_request f w = (let (r, d) = f (snd (w_wires w 0)) (fst (w_wires w 0) (w_db w)) in (r, advance 1 w d))"

definition redis_task_store :: "'db redis \<Rightarrow> Store \<Rightarrow> 'db world TaskStore" where
  "redis_task_store call s = \<lparr>
     ts_Enqueue = (\<lambda>msg. one_request (\<lambda>ft. Enqueue call ft msg)),
     ts_Schedule = (\<lambda>msg. one_request (\<lambda>ft. Schedule call ft msg)),
     ts_Claim = (\<lambda>queue now lease w. one_request (\<lambda>ft. Claim call s ft (w_entropy w 0) queue now lease) w),
     ts_MoveReady = (\<lambda>now limit queues w.
       let (r, d) = MoveReady call (w_wires w) now limit queues (w_db w) in (r, advance (2 * length queues) w d)),
     ts_AckSuccess = (\<lambda>msg w. one_request (\<lambda>ft. AckSuccess call ft (w_clock w 0) msg) w),
     ts_ScheduleRetry = (\<lambda>at reason msg w. one_request (\<lambda>ft. ScheduleRetry call ft (w_clock w 0) msg at reason) w),
     ts_Archive = (\<lambda>reason msg w. one_request (\<lambda>ft. Archive call ft (w_clock w 0) msg reason) w),
     ts_Requeue = (\<lambda>msg. one_request (\<lambda>ft. Requeue call ft msg)),
     ts_Get = (\<lambda>queue tid. one_request (\<lambda>ft. Get call ft queue tid)),
     ts_ExpiredIDs = (\<lambda>now queue limit. one_request (\<lambda>ft. ExpiredIDs call ft now queue limit)),
     ts_PendingCount = (\<lambda>queue. one_request (\<lambda>ft. PendingCount call ft queue)),
     ts_RetryCount = (\<lambda>queue. one_request (\<lambda>ft. RetryCount_store call ft queue)),
     ts_ArchivedCount = (\<lambda>queue. one_request (\<lambda>ft. ArchivedCount call ft queue)),
     ts_ExtendLease = (\<lambda>queue tasks now lease. one_request (\<lambda>ft. ExtendLease call s ft queue tasks now lease))\<rparr>"


section \<open>Lemmas\<close>

lemma one_request_sel:
  "fst (one_request f w) = fst (f (snd (w_wires w 0)) (fst (w_wires w 0) (w_db w)))"
  "w_db (snd (one_request f w)) = snd (f (snd (w_wires w 0)) (fst (w_wires w 0) (w_db w)))"
  "w_wires (snd (one_request f w)) = (\<lambda>k. w_wires w (Suc k))"
  "w_clock (snd (one_request f w)) = (\<lambda>k. w_clock w (Suc k))"
  "w_entropy (snd (one_request f w)) = (\<lambda>k. w_entropy w (Suc k))"
  by (simp_all add: one_request_def advance_def split: prod.splits)

lemma redis_ts [simp]:
  "ts_Enqueue (redis_task_store call s) msg = one_request (\<lambda>ft. Enqueue call ft msg)"
  "ts_Schedule (redis_task_store call s) msg = one_request (\<lambda>ft. Schedule call ft msg)"
  "ts_Claim (redis_task_store call s) q now ls w = one_request (\<lambda>ft. Claim call s ft (w_entropy w 0) q now ls) w"
  "ts_AckSuccess (redis_task_store call s) msg w = one_request (\<lambda>ft. AckSuccess call ft (w_clock w 0) msg) w"
  "ts_ScheduleRetry (redis_task_store call s) at reason msg w =
     one_request (\<lambda>ft. ScheduleRetry call ft (w_clock w 0) msg at reason) w"
  "ts_Archive (redis_task_store call s) reason msg w = one_request (\<lambda>ft. Archive call ft (w_clock w 0) msg reason) w"
  "ts_Requeue (redis_task_store call s) msg = one_request (\<lambda>ft. Requeue call ft msg)"
  "ts_Get (redis_task_store call s) q i = one_request (\<lambda>ft. Get call ft q i)"
  "ts_ExpiredIDs (redis_task_store call s) now q limit = one_request (\<lambda>ft. ExpiredIDs call ft now q limit)"
  "ts_PendingCount (redis_task_store call s) q = one_request (\<lambda>ft. PendingCount call ft q)"
  "ts_ExtendLease (redis_task_store call s) q ts now ls = one_request (\<lambda>ft. ExtendLease call s ft q ts now ls)"
  by (simp_all add: redis_task_store_def)

end
