(* ===== verification/Float64.thy ===== *)
theory Float64
  imports Prelude Complex_Main
begin

text \<open>
  IEEE doubles as the Go code uses them: a finite double is the rational it denotes, and every
  operation rounds its exact result to 53 significant bits, ties to even. Values stay far from the
  subnormal range and from overflow. Scaling turns a rational into a natural number whose lowest
  bit records whether anything was cut off, so that rounding naturals rounds rationals.
\<close>

definition f64_unit :: nat where
  "f64_unit = 2 ^ 1075"

definition f64_mant :: "rat \<Rightarrow> nat" where
  "f64_mant y = (let z = y * of_nat f64_unit in 2 * nat \<lfloor>z\<rfloor> + (if of_int \<lfloor>z\<rfloor> = z then 0 else 1))"

definition f64 :: "rat \<Rightarrow> rat" where
  "f64 x = (if x < 0 then - (of_nat (f64_round_nat (f64_mant (- x))) / of_nat (2 * f64_unit))
            else of_nat (f64_round_nat (f64_mant x)) / of_nat (2 * f64_unit))"

text \<open>\<open>time.Duration(x)\<close>: conversion to an integer drops the fraction.\<close>

definition trunc :: "rat \<Rightarrow> int" where
  "trunc x = (if x < 0 then - \<lfloor>- x\<rfloor> else \<lfloor>x\<rfloor>)"


text \<open>A double that may be out of the finite range: NaN compares false with everything, itself included.\<close>

datatype double = Fin rat | PosInf | NegInf | NaN

fun dle :: "double \<Rightarrow> double \<Rightarrow> bool" where
  "dle NaN y = False"
| "dle x NaN = False"
| "dle NegInf y = True"
| "dle x PosInf = True"
| "dle (Fin a) (Fin b) = (a \<le> b)"
| "dle x y = False"

fun dlt :: "double \<Rightarrow> double \<Rightarrow> bool" where
  "dlt NaN y = False"
| "dlt x NaN = False"
| "dlt x NegInf = False"
| "dlt NegInf y = True"
| "dlt PosInf y = False"
| "dlt x PosInf = True"
| "dlt (Fin a) (Fin b) = (a < b)"

definition IsNaN :: "double \<Rightarrow> bool" where
  "IsNaN x \<longleftrightarrow> x = NaN"

text \<open>\<open>math.IsInf(x, 0)\<close>.\<close>

definition IsInf :: "double \<Rightarrow> bool" where
  "IsInf x \<longleftrightarrow> x = PosInf \<or> x = NegInf"


section \<open>Lemmas\<close>

lemma f64_mant_mono: "0 \<le> x \<Longrightarrow> x \<le> y \<Longrightarrow> f64_mant x \<le> f64_mant y"
proof -
  assume x: "0 \<le> x" and le: "x \<le> y"
  let ?a = "x * of_nat f64_unit" and ?b = "y * of_nat f64_unit"
  have ab: "?a \<le> ?b" using le by (rule mult_right_mono) simp
  then have fl: "\<lfloor>?a\<rfloor> \<le> \<lfloor>?b\<rfloor>" by (rule floor_mono)
  have pos: "0 \<le> \<lfloor>?a\<rfloor>" using x by simp
  show ?thesis
  proof (cases "\<lfloor>?a\<rfloor> = \<lfloor>?b\<rfloor>")
    case True
    have "?a = of_int \<lfloor>?a\<rfloor>" if "?b = of_int \<lfloor>?b\<rfloor>"
      using that ab True of_int_floor_le [of ?a] by (metis order_antisym)
    with True show ?thesis by (auto simp: f64_mant_def Let_def)
  next
    case False
    with fl have "\<lfloor>?a\<rfloor> < \<lfloor>?b\<rfloor>" by linarith
    then have "nat \<lfloor>?a\<rfloor> < nat \<lfloor>?b\<rfloor>" using nat_less_eq_zless [OF pos] by blast
    then show ?thesis by (auto simp: f64_mant_def Let_def)
  qed
qed

lemma f64_nonneg: "0 \<le> x \<Longrightarrow> 0 \<le> f64 x"
  by (simp add: f64_def)

lemma f64_mono: "x \<le> y \<Longrightarrow> f64 x \<le> f64 y"
proof -
  assume le: "x \<le> y"
  have pos: "f64 u \<le> f64 v" if "0 \<le> u" "u \<le> v" for u v
    using f64_round_nat_mono [OF f64_mant_mono [OF that]] that by (simp add: f64_def divide_right_mono)
  have neg: "f64 u = - f64 (- u)" if "u < 0" for u using that by (simp add: f64_def)
  consider "0 \<le> x" | "x < 0" "0 \<le> y" | "y < 0" using le by linarith
  then show ?thesis
  proof cases
    case 1
    from pos [OF this le] show ?thesis .
  next
    case 2
    then show ?thesis using f64_nonneg [of y] f64_nonneg [of "- x"] neg [of x] by simp
  next
    case 3
    with le have "f64 (- y) \<le> f64 (- x)" by (intro pos) simp_all
    with 3 le show ?thesis by (simp add: neg [of x] neg [of y])
  qed
qed

lemma f64_unit_pos: "0 < f64_unit"
  by (simp add: f64_unit_def)

lemma f64_mant_nat: "f64_mant (of_nat n) = n * (2 * f64_unit)"
proof -
  have z: "of_nat n * of_nat f64_unit = (of_int (int (n * f64_unit)) :: rat)" by simp
  have "f64_mant (of_nat n) = 2 * nat (int (n * f64_unit))" unfolding f64_mant_def Let_def z
    by (simp only: floor_of_int if_True add_0_right refl)
  then show ?thesis by (simp only: nat_int mult.left_commute)
qed

lemma f64_round_nat_scaled: "k \<le> 2 ^ 53 \<Longrightarrow> f64_round_nat (k * (2 * f64_unit)) = k * (2 * f64_unit)"
  unfolding f64_unit_def power_Suc [symmetric] by (rule f64_round_nat_fixed)

lemma f64_int: "\<bar>n\<bar> \<le> 2 ^ 53 \<Longrightarrow> f64 (of_int n) = of_int n"
proof -
  assume n: "\<bar>n\<bar> \<le> 2 ^ 53"
  have nat: "of_nat (f64_round_nat (f64_mant (of_nat k))) / of_nat (2 * f64_unit) = (of_nat k :: rat)"
    if "k \<le> 2 ^ 53" for k
    unfolding f64_mant_nat f64_round_nat_scaled [OF that] using f64_unit_pos by simp
  show ?thesis
  proof (cases "n < 0")
    case True
    have "(- of_int n :: rat) = of_nat (nat (- n))" using True by simp
    moreover have "nat (- n) \<le> 2 ^ 53" using n True by (simp add: nat_le_iff)
    ultimately show ?thesis using True nat [of "nat (- n)"] by (simp add: f64_def)
  next
    case False
    then have "(of_int n :: rat) = of_nat (nat n)" by simp
    moreover have "nat n \<le> 2 ^ 53" using n False by (simp add: nat_le_iff)
    ultimately show ?thesis using False nat [of "nat n"] by (simp add: f64_def)
  qed
qed

lemma trunc_mono: "x \<le> y \<Longrightarrow> trunc x \<le> trunc y"
proof -
  assume le: "x \<le> y"
  consider "0 \<le> x" | "x < 0" "0 \<le> y" | "y < 0" using le by linarith
  then show ?thesis
  proof cases
    case 1
    with le show ?thesis by (simp add: trunc_def floor_mono)
  next
    case 2
    then have "trunc x \<le> 0" "0 \<le> trunc y" by (simp_all add: trunc_def)
    then show ?thesis by linarith
  next
    case 3
    with le have "\<lfloor>- y\<rfloor> \<le> \<lfloor>- x\<rfloor>" by (intro floor_mono) simp
    with 3 le show ?thesis by (simp add: trunc_def)
  qed
qed

lemma trunc_of_int [simp]: "trunc (of_int n) = n"
  by (simp add: trunc_def)

end
