(* ===== verification/Backoff.thy ===== *)
theory Backoff
  imports Float64 RedisStore
begin

text \<open>
  Retry delays: \<^verbatim>\<open>ExponentialBackoff\<close> and \<^verbatim>\<open>ExponentialBackoffWithJitter\<close> of
  \<^verbatim>\<open>server/server.go\<close>. A duration is an \<open>int64\<close> number of nanoseconds. What the code
  reads from outside is a \<open>chance\<close>: the value of \<open>rand.Float64\<close>, a finite double in \<open>[0, 1)\<close>, and the
  integer the platform yields for \<open>time.Duration(NaN)\<close>, which Go leaves to the implementation.
\<close>

record chance =
  rand_Float64 :: rat
  nan_Duration :: duration

definition hour :: duration where
  "hour = 3600 * second"

text \<open>The loop, with the number of doublings still allowed; the doubling is at the width of \<open>int64\<close>.\<close>

fun backoff_loop :: "nat \<Rightarrow> int \<Rightarrow> int \<Rightarrow> int" where
  "backoff_loop 0 result mx = (if result > mx then mx else result)"
| "backoff_loop (Suc n) result mx =
     (if result < mx then
        if result > quot mx 2 then mx else backoff_loop n (wrap64 (result * 2)) mx
      else if result > mx then mx else result)"

definition ExponentialBackoff :: "int \<Rightarrow> duration \<Rightarrow> duration \<Rightarrow> duration" where
  "ExponentialBackoff retryCount base mx =
     (let retryCount = (if retryCount < 0 then 0 else retryCount);
          base = (if base \<le> 0 then 2 * second else base);
          mx = (if mx \<le> 0 then hour else mx)
      in backoff_loop (nat retryCount) base mx)"

text \<open>Only NaN gets past the two comparisons without being finite.\<close>

definition ExponentialBackoffWithJitter ::
  "chance \<Rightarrow> int \<Rightarrow> duration \<Rightarrow> duration \<Rightarrow> double \<Rightarrow> duration" where
  "ExponentialBackoffWithJitter ch retryCount base mx jitter =
     (let delay = ExponentialBackoff retryCount base mx in
      if dle jitter (Fin 0) then delay else
      let jitter = (if dlt (Fin 1) jitter then Fin 1 else jitter) in
      case jitter of
        Fin j \<Rightarrow>
          (let lower = f64 (f64 (of_int delay) * f64 (1 - j));
               upper = f64 (f64 (of_int delay) * f64 (1 + j));
               upper = (if upper > f64 (of_int mx) then f64 (of_int mx) else upper)
           in if upper \<le> lower then delay else
           let result = f64 (lower + f64 (rand_Float64 ch * f64 (upper - lower)));
               result = (if result < 1 then 1 else result)
           in trunc result)
      | _ \<Rightarrow> nan_Duration ch)"


section \<open>Lemmas\<close>

lemma backoff_loop_min:
  assumes "0 < result" and "0 < mx" and "mx < 2 ^ 63"
  shows "backoff_loop n result mx = min mx (result * 2 ^ n)"
  using assms(1)
proof (induction n arbitrary: result)
  case (Suc n)
  have grow: "result * 2 \<le> result * 2 ^ Suc n" using Suc.prems by simp
  show ?case
  proof (cases "result < mx")
    case False
    then have "mx \<le> result * 2 ^ Suc n" using grow Suc.prems by linarith
    with False show ?thesis by (simp add: min_def)
  next
    case True
    show ?thesis
    proof (cases "result > quot mx 2")
      case True
      then have "mx < result * 2" using assms(2) by (simp add: quot_nonneg)
      then have "mx \<le> result * 2 ^ Suc n" using grow by linarith
      with True \<open>result < mx\<close> show ?thesis by (simp add: min_def)
    next
      case False
      then have "result * 2 \<le> mx" using assms(2) by (simp add: quot_nonneg)
      then have "wrap64 (result * 2) = result * 2"
        using Suc.prems assms(3) by (intro wrap64_id) (simp add: int64_range_def)
      with Suc.IH [of "result * 2"] Suc.prems False True show ?thesis by (simp add: mult.assoc)
    qed
  qed
qed (simp add: min_def)

text \<open>Halves of integers are doubles.\<close>

lemma f64_half: "0 \<le> k \<Longrightarrow> k \<le> 2 ^ 53 \<Longrightarrow> f64 (of_int k / 2) = of_int k / 2"
proof -
  assume k: "0 \<le> k" "k \<le> 2 ^ 53"
  have "f64_mant (of_int k / 2) = nat k * f64_unit"
  proof -
    have u: "of_nat f64_unit = (2 * of_int (2 ^ 1074) :: rat)" unfolding f64_unit_def of_nat_power
      by (simp only: of_int_power of_int_numeral of_nat_numeral power_Suc [symmetric]) simp
    have z: "of_int k / 2 * of_nat f64_unit = (of_int (k * 2 ^ 1074) :: rat)" unfolding u by simp
    have "f64_mant (of_int k / 2) = 2 * nat (k * 2 ^ 1074)"
      unfolding f64_mant_def Let_def z by (simp only: floor_of_int if_True add_0_right refl)
    also have "\<dots> = nat k * f64_unit" using k unfolding f64_unit_def
      by (simp only: nat_mult_distrib) simp
    finally show ?thesis .
  qed
  moreover have "f64_round_nat (nat k * f64_unit) = nat k * f64_unit"
    unfolding f64_unit_def using k by (intro f64_round_nat_fixed) (simp add: nat_le_iff)
  ultimately show ?thesis using k f64_unit_pos by (simp add: f64_def field_simps)
qed

lemma backoff_min:
  assumes "int64_range base" and "int64_range mx"
  shows "ExponentialBackoff rc base mx =
     min (if mx \<le> 0 then hour else mx) ((if base \<le> 0 then 2 * second else base) * 2 ^ nat rc)"
proof -
  have "nat (if rc < 0 then 0 else rc) = nat rc" by simp
  then show ?thesis unfolding ExponentialBackoff_def Let_def
    using assms by (subst backoff_loop_min) (simp_all add: int64_range_def second_def hour_def)
qed

lemma backoff_range:
  assumes "int64_range base" and "int64_range mx" and "0 < mx"
  shows "1 \<le> ExponentialBackoff rc base mx" and "ExponentialBackoff rc base mx \<le> mx"
proof -
  have "1 \<le> (if base \<le> 0 then 2 * second else base)" by (simp add: second_def)
  then have "1 * 1 \<le> (if base \<le> 0 then 2 * second else base) * 2 ^ nat rc" by (intro mult_mono) simp_all
  then show "1 \<le> ExponentialBackoff rc base mx" "ExponentialBackoff rc base mx \<le> mx"
    unfolding backoff_min [OF assms(1,2)] using assms(3) by simp_all
qed

text \<open>Rounding never lifts a value past the next half.\<close>

lemma f64_le_half:
  assumes "0 \<le> z" and "z \<le> of_int m" and "m \<le> 2 ^ 52" and "y \<le> f64 z"
  shows "f64 y \<le> z + 1 / 2"
proof -
  define k where "k = \<lceil>2 * z\<rceil>"
  have c: "of_int k - 1 < 2 * z" "2 * z \<le> of_int k" using ceiling_correct [of "2 * z"] by (simp_all only: k_def)
  have "2 * z \<le> of_int (2 * m)" using assms(2) by simp
  then have "k \<le> 2 * m" unfolding k_def by (simp only: ceiling_le_iff)
  then have k1: "k \<le> 2 ^ 53" using assms(3) by simp
  have k0: "0 \<le> k" unfolding k_def using assms(1) by simp
  have k2: "z \<le> of_int k / 2" "of_int k / 2 \<le> z + 1 / 2" using c by simp_all
  note k = k0 k1 k2
  have h: "f64 (of_int k / 2) = of_int k / 2" by (rule f64_half [OF k(1,2)])
  have "f64 z \<le> of_int k / 2" using f64_mono [OF k(3)] h by simp
  then have "f64 y \<le> f64 (of_int k / 2)" using assms(4) by (intro f64_mono) simp
  with h k(4) show ?thesis by simp
qed

lemma jitter_upper:
  assumes "0 \<le> r" and "r \<le> 1" and "0 \<le> lower" and "lower \<le> upper" and "upper \<le> of_int mx" and "mx \<le> 2 ^ 51"
  shows "trunc (f64 (lower + f64 (r * f64 (upper - lower)))) \<le> mx"
proof -
  have mx: "0 \<le> mx" using assms(3-5) by (metis dual_order.trans of_int_0_le_iff)
  have w: "0 \<le> f64 (upper - lower)" using assms(4) by (intro f64_nonneg) simp
  have "f64 (r * f64 (upper - lower)) \<le> (upper - lower) + 1 / 2"
  proof (rule f64_le_half)
    show "r * f64 (upper - lower) \<le> f64 (upper - lower)" using mult_right_mono [OF assms(2) w] by simp
    show "upper - lower \<le> of_int mx" using assms(3,5) by simp
    show "mx \<le> 2 ^ 52" using assms(6) by simp
  qed (use assms(4) in simp)
  then have "lower + f64 (r * f64 (upper - lower)) \<le> of_int (2 * mx + 1) / 2" using assms(5) by simp
  then have "f64 (lower + f64 (r * f64 (upper - lower))) \<le> f64 (of_int (2 * mx + 1) / 2)" by (rule f64_mono)
  also have "\<dots> = of_int (2 * mx + 1) / 2" using mx assms(6) by (intro f64_half) simp_all
  finally have "trunc (f64 (lower + f64 (r * f64 (upper - lower)))) \<le> trunc (of_int (2 * mx + 1) / 2)" by (rule trunc_mono)
  also have "\<dots> = mx" using mx by (simp add: trunc_def floor_eq_iff)
  finally show ?thesis .
qed


lemma jitter_core:
  assumes b: "1 \<le> delay" "delay \<le> mx" and m: "0 < mx" "mx \<le> 2 ^ 51" and r: "0 \<le> r" "r < 1"
    and j: "j \<le> 1"
  shows "1 \<le> (let lower = f64 (f64 (of_int delay) * f64 (1 - j));
               upper = f64 (f64 (of_int delay) * f64 (1 + j));
               upper = (if upper > f64 (of_int mx) then f64 (of_int mx) else upper)
           in if upper \<le> lower then delay else
           let result = f64 (lower + f64 (r * f64 (upper - lower)));
               result = (if result < 1 then 1 else result)
           in trunc result) \<and>
     (let lower = f64 (f64 (of_int delay) * f64 (1 - j));
               upper = f64 (f64 (of_int delay) * f64 (1 + j));
               upper = (if upper > f64 (of_int mx) then f64 (of_int mx) else upper)
           in if upper \<le> lower then delay else
           let result = f64 (lower + f64 (r * f64 (upper - lower)));
               result = (if result < 1 then 1 else result)
           in trunc result) \<le> mx"
proof -
  define lower where "lower = f64 (f64 (of_int delay) * f64 (1 - j))"
  define up where "up = f64 (f64 (of_int delay) * f64 (1 + j))"
  define upper where "upper = (if up > f64 (of_int mx) then f64 (of_int mx) else up)"
  define result where "result = f64 (lower + f64 (r * f64 (upper - lower)))"
  have lo: "0 \<le> lower" unfolding lower_def using b(1) j
    by (intro f64_nonneg mult_nonneg_nonneg) simp_all
  have "f64 (of_int mx) = of_int mx" using m by (intro f64_int) simp
  then have up: "upper \<le> of_int mx" by (simp add: upper_def)
  have one: "1 \<le> trunc (if result < 1 then 1 else result)"
    using trunc_mono [of 1 "if result < 1 then 1 else result"] trunc_of_int [of 1] by simp
  have "trunc result \<le> mx" if "lower < upper"
    unfolding result_def using that lo up m r by (intro jitter_upper) simp_all
  moreover have "trunc 1 \<le> mx" using m trunc_of_int [of 1] by simp
  ultimately show ?thesis using b one
    unfolding Let_def lower_def [symmetric] up_def [symmetric] upper_def [symmetric] result_def [symmetric]
    by auto
qed


section \<open>Properties\<close>

text \<open>C37. The retry delay doubles with every retry from the base up to the maximum, with the defaults of two
  seconds and one hour for values that are not positive: it never overflows, is at least one
  nanosecond, never exceeds the maximum and never shrinks as retries go on.\<close>

theorem backoff_doubles_up_to_cap:
  assumes "int64_range base" and "int64_range mx"
    and "B = (if base \<le> 0 then 2 * second else base)" and "M = (if mx \<le> 0 then hour else mx)"
  shows "ExponentialBackoff rc base mx = min M (B * 2 ^ nat rc)
     \<and> 1 \<le> ExponentialBackoff rc base mx \<and> ExponentialBackoff rc base mx \<le> M
     \<and> ExponentialBackoff rc base mx \<le> ExponentialBackoff (rc + 1) base mx"
proof -
  have pos: "1 \<le> B" "1 \<le> M" by (simp_all add: assms(3,4) second_def hour_def)
  then have "1 * 1 \<le> B * 2 ^ nat rc" by (intro mult_mono) simp_all
  moreover have "min M (B * 2 ^ nat rc) \<le> min M (B * 2 ^ nat (rc + 1))"
    using pos by (intro min.mono order_refl mult_left_mono power_increasing) simp_all
  ultimately show ?thesis
    using pos unfolding backoff_min [OF assms(1,2), folded assms(3,4)] by simp
qed

theorem backoff_doubles_up_to_cap_witness:
  "ExponentialBackoff 5 (2 * second) hour = 64 * second \<and> ExponentialBackoff 70 (2 * second) hour = hour"
proof -
  have r: "int64_range (2 * second)" "int64_range hour" by (simp_all add: int64_range_def second_def hour_def)
  from backoff_doubles_up_to_cap [OF r refl refl, of 5] backoff_doubles_up_to_cap [OF r refl refl, of 70]
  show ?thesis by (simp add: second_def hour_def)
qed

text \<open>Jitter keeps the delay in range, rounding of doubles included: for a maximum of up to \<open>2 ^ 51\<close>
  nanoseconds (26 days) and every jitter but NaN, infinities and values outside \<open>[0, 1]\<close> included, the
  jittered delay is at least one nanosecond and at most the maximum.\<close>

theorem jitter_stays_in_range:
  assumes "int64_range base" and "0 < mx" and "mx \<le> 2 ^ 51"
    and "0 \<le> rand_Float64 ch" and "rand_Float64 ch < 1" and "jitter \<noteq> NaN"
  shows "1 \<le> ExponentialBackoffWithJitter ch rc base mx jitter
     \<and> ExponentialBackoffWithJitter ch rc base mx jitter \<le> mx"
proof -
  have m: "int64_range mx" using assms(2,3) by (simp add: int64_range_def)
  note b = backoff_range [OF assms(1) m assms(2), of rc]
  show ?thesis
  proof (cases "dle jitter (Fin 0)")
    case True
    then show ?thesis using b by (simp add: ExponentialBackoffWithJitter_def)
  next
    case False
    then have "\<exists>j. (if dlt (Fin 1) jitter then Fin 1 else jitter) = Fin j \<and> 0 < j \<and> j \<le> 1"
      using assms(6) by (cases jitter) auto
    then obtain j where j: "(if dlt (Fin 1) jitter then Fin 1 else jitter) = Fin j" "0 < j" "j \<le> 1" by blast
    then show ?thesis
      using jitter_core [OF b assms(2-5), of j] False
      by (simp add: ExponentialBackoffWithJitter_def Let_def)
  qed
qed

theorem jitter_stays_in_range_witness:
  "ExponentialBackoffWithJitter \<lparr>rand_Float64 = 1 / 2, nan_Duration = 0\<rparr> 3 (2 * second) (60 * second) (Fin (1 / 4))
     \<le> 60 * second"
  using jitter_stays_in_range [of "2 * second" "60 * second" "\<lparr>rand_Float64 = 1 / 2, nan_Duration = 0\<rparr>"]
  by (simp add: int64_range_def second_def)

end
