(* ===== verification/RateLimit.thy ===== *)
theory RateLimit
  imports Float64 TaskModel
begin

text \<open>
  The rate-limit contract of \<^verbatim>\<open>limiter/limiter.go\<close>: the interface the server is configured with, as a record
  of its methods on a state \<open>'w\<close>, and the result of an acquisition (\<^verbatim>\<open>internal/limiter/bucket.go\<close>).
\<close>

record Result =
  Allowed :: bool
  RetryAfter :: duration
  Tokens :: double

record 'w Limiter =
  lim_Acquire :: "double \<Rightarrow> 'w \<Rightarrow> (gerr + Result) \<times> 'w"
  lim_Validate :: "gerr option"
  lim_Capacity :: double

end
