(* ===== verification/ServerConfig.thy ===== *)
theory ServerConfig
  imports Backoff RateLimit
begin

text \<open>
  The configuration of \<^verbatim>\<open>server/server.go\<close>: \<open>Config\<close>, its defaults and validation, and the part of \<open>New\<close>
  that orders the queues. \<open>Queues\<close> is a Go map; the list holds its entries in the order one iteration
  delivers them, which the language leaves open. The limiter is an interface value, \<open>None\<close> when nil. The
  \<open>Metrics\<close> a configuration points to are shared state and belong to the server's; of the \<open>ErrorHandler\<close> the
  server only needs to know whether there is one.
\<close>

record 'w Config =
  Concurrency :: int
  Queues :: "(string \<times> int) list"
  LeaseDuration :: duration
  PollInterval :: duration
  ShutdownTimeout :: duration
  RetryBaseDelay :: duration
  RetryMaxDelay :: duration
  RetryJitter :: double
  HeartbeatInterval :: duration
  RecoveryInterval :: duration
  TokenBucket :: "'w Limiter option"
  TokenAmount :: double
  HasErrorHandler :: bool

definition millisecond :: duration where
  "millisecond = 1000000"

definition dflt :: "duration \<Rightarrow> duration \<Rightarrow> duration" where
  "dflt d x = (if x \<le> 0 then d else x)"

definition applyDefaults :: "'w Config \<Rightarrow> 'w Config" where
  "applyDefaults c = c\<lparr>
     Concurrency := (if Concurrency c \<le> 0 then 1 else Concurrency c),
     LeaseDuration := dflt (30 * second) (LeaseDuration c),
     PollInterval := dflt (20 * millisecond) (PollInterval c),
     ShutdownTimeout := dflt (8 * second) (ShutdownTimeout c),
     RetryBaseDelay := dflt (2 * second) (RetryBaseDelay c),
     RetryMaxDelay := dflt hour (RetryMaxDelay c),
     HeartbeatInterval := dflt (10 * second) (HeartbeatInterval c),
     RecoveryInterval := dflt second (RecoveryInterval c),
     TokenAmount := (if dle (TokenAmount c) (Fin 0) then Fin 1 else TokenAmount c),
     Queues := (if Queues c = [] then [(''default'', 1)] else Queues c)\<rparr>"

text \<open>\<open>time.Duration.String\<close>, which \<open>%s\<close> prints: hours, minutes and seconds, or one smaller unit below a
  second, with the fraction stripped of trailing zeros.\<close>

definition frac_text :: "nat \<Rightarrow> nat \<Rightarrow> string" where
  "frac_text prec v =
     (let ds = rev (dropWhile (\<lambda>c. c = CHR ''0'') (rev (pad_dec prec (v mod 10 ^ prec))))
      in if ds = '''' then '''' else CHR ''.'' # ds)"

definition Duration_String :: "duration \<Rightarrow> string" where
  "Duration_String d =
     (let u = nat \<bar>d\<bar>;
          part = (\<lambda>prec v. dec_nat (v div 10 ^ prec) @ frac_text prec v);
          s = u div 1000000000;
          body = (if u = 0 then ''0s''
            else if u < 1000 then part 0 u @ ''ns''
            else if u < 1000000 then part 3 u @ [CHR 0xC2, CHR 0xB5, CHR ''s'']
            else if u < 1000000000 then part 6 u @ ''ms''
            else (if s div 60 = 0 then '''' else
                   (if s div 3600 = 0 then '''' else dec_nat (s div 3600) @ ''h'')
                   @ dec_nat (s div 60 mod 60) @ ''m'')
                 @ dec_nat (s mod 60) @ frac_text 9 u @ ''s'')
      in if d < 0 then CHR ''-'' # body else body)"

text \<open>\<open>%f\<close>: six decimals, the exact value rounded half to even.\<close>

definition fixed_text :: "rat \<Rightarrow> string" where
  "fixed_text x =
     (let y = \<bar>x\<bar> * 1000000; q = nat \<lfloor>y\<rfloor>; r = y - of_nat q;
          n = (if r > 1 / 2 \<or> r = 1 / 2 \<and> odd q then q + 1 else q);
          body = dec_nat (n div 1000000) @ ''.'' @ pad_dec 6 (n mod 1000000)
      in if x < 0 then CHR ''-'' # body else body)"

fun double_text :: "double \<Rightarrow> string" where
  "double_text (Fin x) = fixed_text x"
| "double_text PosInf = ''+Inf''"
| "double_text NegInf = ''-Inf''"
| "double_text NaN = ''NaN''"

text \<open>\<open>fmt.Errorf("%w: ...", ErrInvalidConfig, ...)\<close>.\<close>

definition invalid :: "string \<Rightarrow> gerr" where
  "invalid what = Errorf (error_text ErrInvalidConfig @ '': '' @ what) [ErrInvalidConfig]"

definition validate :: "'w Config \<Rightarrow> gerr option" where
  "validate c =
     (if HeartbeatInterval c \<ge> LeaseDuration c
        then Some (invalid (''heartbeat interval '' @ Duration_String (HeartbeatInterval c)
               @ '' must be less than lease duration '' @ Duration_String (LeaseDuration c)))
      else if dlt (RetryJitter c) (Fin 0) \<or> dlt (Fin 1) (RetryJitter c)
        then Some (invalid (''retry jitter must be between 0 and 1: '' @ double_text (RetryJitter c)))
      else (case TokenBucket c of
        None \<Rightarrow> None
      | Some l \<Rightarrow> (case lim_Validate l of
          Some e \<Rightarrow> Some (invalid (error_text e))
        | None \<Rightarrow>
            if IsNaN (TokenAmount c) \<or> IsInf (TokenAmount c) \<or> dlt (lim_Capacity l) (TokenAmount c)
            then Some (invalid ''token amount must be finite and no greater than bucket capacity'')
            else None)))"

text \<open>A missing map entry reads as 0.\<close>

definition queue_priority :: "(string \<times> int) list \<Rightarrow> string \<Rightarrow> int" where
  "queue_priority qs q = (case map_of qs q of None \<Rightarrow> 0 | Some p \<Rightarrow> p)"

text \<open>The loop of \<open>New\<close> over the map, the fallback, and \<open>sort.SliceStable\<close> by descending priority.\<close>

definition New_queues :: "(string \<times> int) list \<Rightarrow> string list" where
  "New_queues qs =
     (let queues = map fst (filter (\<lambda>(queue, priority). priority > 0) qs);
          queues = (if queues = [] then [''default''] else queues)
      in sort_key (\<lambda>q. - queue_priority qs q) queues)"


section \<open>Lemmas\<close>

lemma applyDefaults_positive:
  "1 \<le> Concurrency (applyDefaults c)" "0 < LeaseDuration (applyDefaults c)"
  "0 < PollInterval (applyDefaults c)" "0 < ShutdownTimeout (applyDefaults c)"
  "0 < RetryBaseDelay (applyDefaults c)" "0 < RetryMaxDelay (applyDefaults c)"
  "0 < HeartbeatInterval (applyDefaults c)" "0 < RecoveryInterval (applyDefaults c)"
  "\<not> dle (TokenAmount (applyDefaults c)) (Fin 0)" "Queues (applyDefaults c) \<noteq> []"
  by (simp_all add: applyDefaults_def dflt_def second_def millisecond_def hour_def)

lemma applyDefaults_idem: "applyDefaults (applyDefaults c) = applyDefaults c"
  by (simp add: applyDefaults_def dflt_def second_def millisecond_def hour_def)

lemma validate_error: "validate c = Some e \<Longrightarrow> errors_Is e ErrInvalidConfig"
  by (auto simp: validate_def invalid_def split: if_splits option.splits)

lemma jitter_accepted:
  "\<not> dlt x (Fin 0) \<and> \<not> dlt (Fin 1) x \<longleftrightarrow> x = NaN \<or> (\<exists>j. x = Fin j \<and> 0 \<le> j \<and> j \<le> 1)"
  by (cases x) (auto simp: not_less)

lemma amount_accepted:
  "\<not> dle x (Fin 0) \<Longrightarrow>
   \<not> IsNaN x \<and> \<not> IsInf x \<and> \<not> dlt k x \<longleftrightarrow> (\<exists>a. x = Fin a \<and> 0 < a \<and> (k = NaN \<or> dle (Fin a) k))"
  by (cases x; cases k) (auto simp: IsNaN_def IsInf_def)

lemma queue_priority_mem:
  "distinct (map fst qs) \<Longrightarrow> (q, p) \<in> set qs \<Longrightarrow> queue_priority qs q = p"
  by (simp add: queue_priority_def)

lemma positive_queues:
  assumes "distinct (map fst qs)"
  shows "set (map fst (filter (\<lambda>(q, p). p > 0) qs)) = {q. queue_priority qs q > 0}"
proof -
  have "\<exists>p. (q, p) \<in> set qs \<and> p > 0" if "queue_priority qs q > 0" for q
    using that by (auto simp: queue_priority_def split: option.splits dest: map_of_SomeD)
  then show ?thesis using queue_priority_mem [OF assms] by force
qed

lemma distinct_map_filter: "distinct (map f xs) \<Longrightarrow> distinct (map f (filter P xs))"
  by (induction xs) auto


section \<open>Properties\<close>


text \<open>Workers poll the queues in order of importance: the queue list of a new server names every queue of
  positive priority once and no other (\<open>default\<close> alone when there is none), in descending order of priority, and
  queues of one priority keep the order in which the map iteration delivered them.\<close>

theorem queues_by_descending_priority:
  assumes "distinct (map fst qs)"
  shows "set (New_queues qs) =
       (if \<exists>q. queue_priority qs q > 0 then {q. queue_priority qs q > 0} else {''default''})
     \<and> distinct (New_queues qs) \<and> New_queues qs \<noteq> []
     \<and> sorted_wrt (\<lambda>a b. queue_priority qs a \<ge> queue_priority qs b) (New_queues qs)
     \<and> (0 < p \<longrightarrow> filter (\<lambda>q. queue_priority qs q = p) (New_queues qs)
                = filter (\<lambda>q. queue_priority qs q = p) (map fst qs))"
proof -
  define ps where "ps = map fst (filter (\<lambda>(q, p). p > 0) qs)"
  define raw where "raw = (if ps = [] then [''default''] else ps)"
  have new: "New_queues qs = sort_key (\<lambda>q. - queue_priority qs q) raw"
    by (simp add: New_queues_def ps_def raw_def)
  have set: "set ps = {q. queue_priority qs q > 0}" unfolding ps_def using assms by (rule positive_queues)
  have dis: "distinct raw" unfolding raw_def ps_def using assms by (auto intro: distinct_map_filter)
  have "sorted (map (\<lambda>q. - queue_priority qs q) (New_queues qs))" unfolding new by (rule sorted_sort_key)
  then have sorted: "sorted_wrt (\<lambda>a b. queue_priority qs a \<ge> queue_priority qs b) (New_queues qs)"
    by (simp add: sorted_wrt_map)
  have stable: "filter (\<lambda>q. queue_priority qs q = p) (New_queues qs) = filter (\<lambda>q. queue_priority qs q = p) (map fst qs)"
    if "0 < p" for p
  proof -
    have "filter (\<lambda>q. queue_priority qs q = p) (New_queues qs) = filter (\<lambda>q. queue_priority qs q = p) raw"
      using sort_key_stable [of "\<lambda>q. - queue_priority qs q" "- p" raw] by (simp add: new)
    also have "\<dots> = filter (\<lambda>q. queue_priority qs q = p) ps"
    proof (cases "ps = []")
      case True
      with set have "queue_priority qs ''default'' \<le> 0" by (simp add: not_less)
      with True that show ?thesis by (simp add: raw_def)
    qed (simp add: raw_def)
    also have "\<dots> = filter (\<lambda>q. queue_priority qs q = p) (map fst qs)"
      unfolding ps_def filter_map filter_filter comp_def using that queue_priority_mem [OF assms]
      by (intro arg_cong [where f = "map fst"] filter_cong) auto
    finally show ?thesis .
  qed
  have ex: "ps = [] \<longleftrightarrow> \<not> (\<exists>q. queue_priority qs q > 0)" using set by (auto simp flip: set_empty)
  have ne: "New_queues qs \<noteq> []" unfolding new by (simp add: raw_def flip: set_empty)
  show ?thesis using set dis sorted stable ne ex by (simp add: new raw_def)
qed

theorem queues_by_descending_priority_witness:
  "New_queues [(''low'', 1), (''off'', 0), (''high'', 9), (''bulk'', 1)] = [''high'', ''low'', ''bulk'']
   \<and> sorted_wrt (\<lambda>a b. queue_priority [(''low'', 1), (''off'', 0), (''high'', 9), (''bulk'', 1)] a
        \<ge> queue_priority [(''low'', 1), (''off'', 0), (''high'', 9), (''bulk'', 1)] b)
       (New_queues [(''low'', 1), (''off'', 0), (''high'', 9), (''bulk'', 1)])"
  using queues_by_descending_priority [of "[(''low'', 1), (''off'', 0), (''high'', 9), (''bulk'', 1)]"]
  by (simp add: New_queues_def queue_priority_def)

end
