(* ===== verification/Metrics.thy ===== *)
theory Metrics
  imports TaskModel
begin

text \<open>
  \<^verbatim>\<open>server/metrics.go\<close>: the counters of the worker path. A counter is an \<open>atomic.Int64\<close>, so an addition
  wraps at 64 bits; each method is one atomic step. A nil \<open>*Metrics\<close> is \<open>None\<close>, and every method
  accepts it.
\<close>

record Metrics =
  processed :: int
  failed :: int
  retried :: int
  archived :: int
  durationNanos :: int

record MetricsSnapshot =
  Processed :: int
  Failed :: int
  Retried :: int
  Archived :: int
  TotalDuration :: duration

definition NewMetrics :: Metrics where
  "NewMetrics = \<lparr>processed = 0, failed = 0, retried = 0, archived = 0, durationNanos = 0\<rparr>"

definition RecordProcessed :: "Metrics option \<Rightarrow> Metrics option" where
  "RecordProcessed m = map_option (\<lambda>m. m\<lparr>processed := wrap64 (processed m + 1)\<rparr>) m"

definition RecordFailed :: "Metrics option \<Rightarrow> Metrics option" where
  "RecordFailed m = map_option (\<lambda>m. m\<lparr>failed := wrap64 (failed m + 1)\<rparr>) m"

definition RecordRetried :: "Metrics option \<Rightarrow> Metrics option" where
  "RecordRetried m = map_option (\<lambda>m. m\<lparr>retried := wrap64 (retried m + 1)\<rparr>) m"

definition RecordArchived :: "Metrics option \<Rightarrow> Metrics option" where
  "RecordArchived m = map_option (\<lambda>m. m\<lparr>archived := wrap64 (archived m + 1)\<rparr>) m"

definition RecordDuration :: "duration \<Rightarrow> Metrics option \<Rightarrow> Metrics option" where
  "RecordDuration d m = map_option (\<lambda>m. m\<lparr>durationNanos := wrap64 (durationNanos m + d)\<rparr>) m"

definition Snapshot :: "Metrics option \<Rightarrow> MetricsSnapshot" where
  "Snapshot m = (case m of
     None \<Rightarrow> \<lparr>Processed = 0, Failed = 0, Retried = 0, Archived = 0, TotalDuration = 0\<rparr>
   | Some m \<Rightarrow> \<lparr>Processed = processed m, Failed = failed m, Retried = retried m,
                Archived = archived m, TotalDuration = durationNanos m\<rparr>)"


section \<open>Lemmas\<close>

lemmas metrics_defs = RecordProcessed_def RecordFailed_def RecordRetried_def RecordArchived_def
  RecordDuration_def

lemma metrics_nil [simp]:
  "RecordProcessed None = None" "RecordFailed None = None" "RecordRetried None = None"
  "RecordArchived None = None" "RecordDuration d None = None"
  by (simp_all add: metrics_defs)

end
