(* ===== verification/HandlerMux.thy ===== *)
theory HandlerMux
  imports TaskModel
begin

text \<open>
  The \<open>Handler\<close> interface of \<^verbatim>\<open>server/server.go\<close> and the registry of \<^verbatim>\<open>server/handler_mux.go\<close>. A
  handler is the user's code, so it is a function parameter: from the context and the message it gives
  an error (\<open>None\<close> is nil) and the message as it leaves it, since it holds a pointer. A nil handler, a nil
  mux and the nil map of a zero \<open>HandlerMux\<close> are \<open>None\<close>. Methods of the mux are atomic under its lock.
\<close>

text \<open>The contexts the server makes, as far as their deadlines go.\<close>

datatype ctx =
    Background
  | WithCancel ctx
  | WithDeadline ctx gotime

fun ctx_Deadline :: "ctx \<Rightarrow> gotime option" where
  "ctx_Deadline Background = None"
| "ctx_Deadline (WithCancel c) = ctx_Deadline c"
| "ctx_Deadline (WithDeadline c t) = Some (case ctx_Deadline c of None \<Rightarrow> t | Some u \<Rightarrow> min u t)"

type_synonym Handler = "ctx \<Rightarrow> TaskMessage \<Rightarrow> gerr option \<times> TaskMessage"

record HandlerMux =
  handlers :: "(string \<Rightarrow> Handler option) option"

definition NewHandlerMux :: HandlerMux where
  "NewHandlerMux = \<lparr>handlers = Some Map.empty\<rparr>"

definition Handle ::
  "string \<Rightarrow> Handler option \<Rightarrow> HandlerMux option \<Rightarrow> gerr option \<times> HandlerMux option" where
  "Handle taskType handler m = (case m of
     None \<Rightarrow> (Some (ErrorsNew ''handler mux is nil''), m)
   | Some mux \<Rightarrow>
       if taskType = '''' then (Some (ErrorsNew ''task type cannot be empty''), m)
       else (case handler of
         None \<Rightarrow> (Some (ErrorsNew ''task handler cannot be nil''), m)
       | Some h \<Rightarrow>
           let hs = (case handlers mux of None \<Rightarrow> Map.empty | Some hs \<Rightarrow> hs) in
           if hs taskType \<noteq> None
           then (Some (Errorf (error_text ErrHandlerExists @ '': '' @ taskType) [ErrHandlerExists]),
                 Some (mux\<lparr>handlers := Some hs\<rparr>))
           else (None, Some (mux\<lparr>handlers := Some (hs(taskType \<mapsto> h))\<rparr>))))"

definition ProcessTask :: "HandlerMux option \<Rightarrow> Handler" where
  "ProcessTask m c msg = (case m of
     None \<Rightarrow> (Some ErrUnknownTaskType, msg)
   | Some mux \<Rightarrow> (case (case handlers mux of None \<Rightarrow> None | Some hs \<Rightarrow> hs (Type msg)) of
       None \<Rightarrow> (Some (Errorf (error_text ErrUnknownTaskType @ '': '' @ Type msg) [ErrUnknownTaskType]), msg)
     | Some h \<Rightarrow> h c msg))"

text \<open>A sequence of registrations, with the errors they return.\<close>

fun Handle_all ::
  "(string \<times> Handler option) list \<Rightarrow> HandlerMux option \<Rightarrow> gerr option list \<times> HandlerMux option" where
  "Handle_all [] m = ([], m)"
| "Handle_all ((t, h) # regs) m =
     (let (e, m') = Handle t h m; (es, m'') = Handle_all regs m' in (e # es, m''))"

text \<open>What a sequence of registrations promises: the first acceptable one for a type counts.\<close>

definition acceptable :: "(string \<times> Handler option) list \<Rightarrow> (string \<times> Handler) list" where
  "acceptable regs = map (\<lambda>(t, h). (t, the h)) (filter (\<lambda>(t, h). t \<noteq> '''' \<and> h \<noteq> None) regs)"

definition routes :: "HandlerMux option \<Rightarrow> string \<Rightarrow> Handler option" where
  "routes m t = (case m of None \<Rightarrow> None | Some mux \<Rightarrow> (case handlers mux of None \<Rightarrow> None | Some hs \<Rightarrow> hs t))"


section \<open>Lemmas\<close>

lemma Handle_routes:
  "snd (Handle t h (Some m)) \<noteq> None
   \<and> routes (snd (Handle t h (Some m))) =
     (case h of Some g \<Rightarrow> if t \<noteq> '''' \<and> routes (Some m) t = None then (routes (Some m))(t \<mapsto> g) else routes (Some m)
      | None \<Rightarrow> routes (Some m))"
  by (auto simp: Handle_def routes_def Let_def fun_eq_iff split: option.splits)

lemma Handle_all_routes:
  "snd (Handle_all regs (Some m)) \<noteq> None
   \<and> routes (snd (Handle_all regs (Some m))) = map_of (acceptable regs) ++ routes (Some m)"
proof (induction regs arbitrary: m)
  case (Cons r regs)
  obtain t h where r: "r = (t, h)" by (cases r)
  from Handle_routes [of t h m] obtain m' where m': "snd (Handle t h (Some m)) = Some m'" by blast
  have "snd (Handle_all (r # regs) (Some m)) = snd (Handle_all regs (Some m'))"
    using m' by (simp add: r split_beta)
  with Cons [of m'] Handle_routes [of t h m] m' show ?case
    by (auto simp: r acceptable_def map_add_def fun_eq_iff split: option.splits if_splits)
qed (simp add: acceptable_def)

lemma ProcessTask_routes:
  "ProcessTask m c msg = (case routes m (Type msg) of
     Some h \<Rightarrow> h c msg
   | None \<Rightarrow> (case m of None \<Rightarrow> (Some ErrUnknownTaskType, msg)
     | Some _ \<Rightarrow> (Some (Errorf (error_text ErrUnknownTaskType @ '': '' @ Type msg) [ErrUnknownTaskType]), msg)))"
  by (simp add: ProcessTask_def routes_def split: option.splits)

lemma routes_fresh: "routes (Some NewHandlerMux) = Map.empty" "routes (Some \<lparr>handlers = None\<rparr>) = Map.empty"
  by (simp_all add: routes_def NewHandlerMux_def fun_eq_iff)

lemma Handle_error:
  "fst (Handle t h (Some m)) = None \<longleftrightarrow> t \<noteq> '''' \<and> h \<noteq> None \<and> routes (Some m) t = None"
  by (auto simp: Handle_def routes_def Let_def split: option.splits)


section \<open>Properties\<close>

text \<open>C39. Whatever registrations are attempted on a new mux, a task runs the handler that was registered first
  for its type, and a task of a type that was never registered fails, unchanged, with an error that
  is \<open>ErrUnknownTaskType\<close>; a registration succeeds exactly when its type is not empty, its handler not
  nil and the type not yet taken; and a zero \<open>HandlerMux\<close> behaves like a new one.\<close>

theorem mux_routes_to_first_registration:
  "ProcessTask (snd (Handle_all regs (Some NewHandlerMux))) c msg =
     (case map_of (acceptable regs) (Type msg) of
        Some h \<Rightarrow> h c msg
      | None \<Rightarrow> (Some (Errorf (''unknown task type: '' @ Type msg) [ErrUnknownTaskType]), msg))
   \<and> (fst (Handle t h (snd (Handle_all regs (Some NewHandlerMux)))) = None
        \<longleftrightarrow> t \<noteq> '''' \<and> h \<noteq> None \<and> map_of (acceptable regs) t = None)
   \<and> ProcessTask (snd (Handle_all regs (Some \<lparr>handlers = None\<rparr>)))
       = ProcessTask (snd (Handle_all regs (Some NewHandlerMux)))"
proof -
  note new = Handle_all_routes [of regs NewHandlerMux, unfolded routes_fresh map_add_empty]
  note zero = Handle_all_routes [of regs "\<lparr>handlers = None\<rparr>", unfolded routes_fresh map_add_empty]
  from new obtain m where m: "snd (Handle_all regs (Some NewHandlerMux)) = Some m" by blast
  from zero obtain z where z: "snd (Handle_all regs (Some \<lparr>handlers = None\<rparr>)) = Some z" by blast
  show ?thesis using new zero unfolding m z by (auto simp: ProcessTask_routes Handle_error fun_eq_iff split: option.split)
qed

end
