(* ===== verification/ServerLoops.thy ===== *)
theory ServerLoops
  imports TaskStore ServerConfig Metrics HandlerMux
begin

text \<open>
  The loops of \<^verbatim>\<open>server/server.go\<close>: one job of a worker, one tick of the heartbeat, one tick of the recovery
  and one round of the dispatcher. Each is a function on the state the goroutines share: the store's
  state, the metrics, the errors handed to the \<open>ErrorHandler\<close>, and the tasks being processed. Readings of the
  clock and of the random source are arguments, as are the order in which a map iteration delivers
  its keys and the outcome of a select. What other goroutines and processes do while a loop is between two calls
  of the store is part of the store's state.
\<close>

section \<open>State\<close>

record activeTaskKey =
  key_queue :: string
  key_id :: string
  key_attemptID :: string

record 'w sstate =
  world :: 'w
  metrics :: "Metrics option"
  errors :: "gerr list"
  active :: "(activeTaskKey \<times> TaskMessage) list"

definition reportError :: "'w Config \<Rightarrow> gerr \<Rightarrow> 'w sstate \<Rightarrow> 'w sstate" where
  "reportError c e s = (if HasErrorHandler c then s\<lparr>errors := errors s @ [e]\<rparr> else s)"

text \<open>A call on \<open>cfg.Metrics\<close>; nil metrics stay nil.\<close>

definition record_metric :: "(Metrics option \<Rightarrow> Metrics option) \<Rightarrow> 'w sstate \<Rightarrow> 'w sstate" where
  "record_metric f s = s\<lparr>metrics := f (metrics s)\<rparr>"

text \<open>The tail shared by all transitions: the error is reported, or the transition is counted.\<close>

definition settled ::
  "'w Config \<Rightarrow> (Metrics option \<Rightarrow> Metrics option) \<Rightarrow> 'w sstate \<Rightarrow> (gerr option \<times> TaskMessage) \<times> 'w \<Rightarrow> 'w sstate" where
  "settled c f s r = (case r of
     ((Some e, _), w) \<Rightarrow> reportError c e (s\<lparr>world := w\<rparr>)
   | ((None, _), w) \<Rightarrow> record_metric f (s\<lparr>world := w\<rparr>))"


section \<open>Workers\<close>

record moments =
  at_start :: gotime
  at_timeout :: gotime
  at_failure :: gotime
  at_end :: gotime
  luck :: chance

definition handler_context :: "ctx \<Rightarrow> gotime \<Rightarrow> TaskMessage \<Rightarrow> ctx" where
  "handler_context hctx now msg =
     (if \<not> IsZero (Deadline msg) then WithDeadline hctx (Deadline msg)
      else if Timeout msg > 0 then WithDeadline hctx (now + Timeout msg)
      else hctx)"

definition retry_delay :: "'w Config \<Rightarrow> chance \<Rightarrow> int \<Rightarrow> duration" where
  "retry_delay c ch n = ExponentialBackoffWithJitter ch n (RetryBaseDelay c) (RetryMaxDelay c) (RetryJitter c)"

definition process ::
  "'w TaskStore \<Rightarrow> 'w Config \<Rightarrow> Handler \<Rightarrow> ctx \<Rightarrow> moments \<Rightarrow> TaskMessage \<Rightarrow> 'w sstate \<Rightarrow> 'w sstate" where
  "process ts c handler hctx t msg s =
     (let (err, msg) = handler (handler_context hctx (at_timeout t) msg) msg;
          s = (case err of
            None \<Rightarrow> settled c RecordProcessed s (ts_AckSuccess ts msg (world s))
          | Some e \<Rightarrow>
              let s = record_metric RecordFailed s; reason = error_text e in
              if errors_Is e ErrNonRetryable \<or> RetryCount msg \<ge> MaxRetry msg
              then settled c RecordArchived s (ts_Archive ts reason msg (world s))
              else
                let runAt = at_failure t + retry_delay c (luck t) (RetryCount msg);
                    msg = msg\<lparr>RetryCount := wrap64 (RetryCount msg + 1)\<rparr>
                in settled c RecordRetried s (ts_ScheduleRetry ts runAt reason msg (world s)))
      in record_metric (RecordDuration (time_Sub (at_end t) (at_start t))) s)"

definition activeKey :: "TaskMessage \<Rightarrow> activeTaskKey" where
  "activeKey msg = \<lparr>key_queue = Queue msg, key_id = ID msg, key_attemptID = AttemptID msg\<rparr>"

definition trackActive :: "TaskMessage \<Rightarrow> 'w sstate \<Rightarrow> activeTaskKey \<times> 'w sstate" where
  "trackActive msg s = (activeKey msg, s\<lparr>active := AList.update (activeKey msg) msg (active s)\<rparr>)"

definition untrackActive :: "activeTaskKey \<Rightarrow> 'w sstate \<Rightarrow> 'w sstate" where
  "untrackActive key s = s\<lparr>active := AList.delete key (active s)\<rparr>"

text \<open>The body of the worker's loop.\<close>

definition worker_job ::
  "'w TaskStore \<Rightarrow> 'w Config \<Rightarrow> Handler \<Rightarrow> ctx \<Rightarrow> moments \<Rightarrow> TaskMessage \<Rightarrow> 'w sstate \<Rightarrow> 'w sstate" where
  "worker_job ts c handler hctx t msg s =
     (let (key, s) = trackActive msg s in untrackActive key (process ts c handler hctx t msg s))"


section \<open>Heartbeat\<close>

definition zero_message :: TaskMessage where
  "zero_message = \<lparr>ID = '''', Type = '''', Payload = None, Queue = '''', Priority = 0, MaxRetry = 0, RetryCount = 0,
     Timeout = 0, Deadline = zero_time, RunAt = zero_time, State = '''', AttemptID = '''', LastError = '''',
     LastFailedAt = zero_time, CompletedAt = zero_time, CreatedAt = zero_time\<rparr>"

text \<open>\<open>byQueue\<close>: one message per active key, by queue, in the order of the iteration.\<close>

definition byQueue :: "activeTaskKey list \<Rightarrow> string \<Rightarrow> TaskMessage list" where
  "byQueue keys q = map (\<lambda>k. zero_message\<lparr>ID := key_id k, Queue := key_queue k, AttemptID := key_attemptID k\<rparr>)
     (filter (\<lambda>k. key_queue k = q) keys)"

fun heartbeat_queues ::
  "'w TaskStore \<Rightarrow> 'w Config \<Rightarrow> gotime \<Rightarrow> activeTaskKey list \<Rightarrow> string list \<Rightarrow> 'w sstate \<Rightarrow> 'w sstate" where
  "heartbeat_queues ts c now keys [] s = s"
| "heartbeat_queues ts c now keys (q # order) s =
     (case ts_ExtendLease ts q (map Some (byQueue keys q)) now (LeaseDuration c) (world s) of
        (Some e, w) \<Rightarrow> heartbeat_queues ts c now keys order (reportError c e (s\<lparr>world := w\<rparr>))
      | (None, w) \<Rightarrow> heartbeat_queues ts c now keys order (s\<lparr>world := w\<rparr>))"

text \<open>One tick: \<open>order\<close> is the order in which the iteration over the queues of \<open>byQueue\<close> delivers them.\<close>

definition heartbeat_tick ::
  "'w TaskStore \<Rightarrow> 'w Config \<Rightarrow> gotime \<Rightarrow> string list \<Rightarrow> 'w sstate \<Rightarrow> 'w sstate" where
  "heartbeat_tick ts c now order s = heartbeat_queues ts c now (map fst (active s)) order s"


section \<open>Recovery\<close>

definition lease_expired :: string where
  "lease_expired = ''task lease expired''"

definition recover_task ::
  "'w TaskStore \<Rightarrow> 'w Config \<Rightarrow> gotime \<Rightarrow> chance \<Rightarrow> string \<Rightarrow> string \<Rightarrow> 'w sstate \<Rightarrow> 'w sstate" where
  "recover_task ts c now ch queue tid s = (case ts_Get ts queue tid (world s) of
     (Inl e, w) \<Rightarrow> reportError c e (s\<lparr>world := w\<rparr>)
   | (Inr msg, w) \<Rightarrow>
       let s = s\<lparr>world := w\<rparr> in
       if State msg \<noteq> StateActive then s
       else if RetryCount msg \<ge> MaxRetry msg
         then settled c RecordArchived s (ts_Archive ts lease_expired msg (world s))
       else
         let msg = msg\<lparr>RetryCount := wrap64 (RetryCount msg + 1)\<rparr>;
             runAt = now + retry_delay c ch (wrap64 (RetryCount msg - 1))
         in settled c RecordRetried s (ts_ScheduleRetry ts runAt lease_expired msg (world s)))"

fun recover_ids ::
  "'w TaskStore \<Rightarrow> 'w Config \<Rightarrow> gotime \<Rightarrow> (nat \<Rightarrow> chance) \<Rightarrow> string \<Rightarrow> string list \<Rightarrow> 'w sstate \<Rightarrow> 'w sstate" where
  "recover_ids ts c now ch queue [] s = s"
| "recover_ids ts c now ch queue (tid # ids) s =
     recover_ids ts c now (\<lambda>k. ch (Suc k)) queue ids (recover_task ts c now (ch 0) queue tid s)"

fun recovery_tick ::
  "'w TaskStore \<Rightarrow> 'w Config \<Rightarrow> gotime \<Rightarrow> (nat \<Rightarrow> nat \<Rightarrow> chance) \<Rightarrow> string list \<Rightarrow> 'w sstate \<Rightarrow> 'w sstate" where
  "recovery_tick ts c now ch [] s = s"
| "recovery_tick ts c now ch (queue # queues) s = (case ts_ExpiredIDs ts now queue 100 (world s) of
     (Inl e, w) \<Rightarrow> recovery_tick ts c now (\<lambda>k. ch (Suc k)) queues (reportError c e (s\<lparr>world := w\<rparr>))
   | (Inr ids, w) \<Rightarrow>
       recovery_tick ts c now (\<lambda>k. ch (Suc k)) queues (recover_ids ts c now (ch 0) queue ids (s\<lparr>world := w\<rparr>)))"


section \<open>Dispatcher\<close>

text \<open>How one round of the dispatcher ends: it was told to stop, it waits for a duration, it handed a
  task to a worker, or it was told to stop while it held a claimed task.\<close>

datatype round = Stopped | Waits duration | Dispatched TaskMessage | StoppedWith TaskMessage

fun any_pending :: "'w TaskStore \<Rightarrow> 'w Config \<Rightarrow> string list \<Rightarrow> 'w sstate \<Rightarrow> bool \<times> 'w sstate" where
  "any_pending ts c [] s = (False, s)"
| "any_pending ts c (queue # queues) s = (case ts_PendingCount ts queue (world s) of
     (Inl e, w) \<Rightarrow> any_pending ts c queues (reportError c e (s\<lparr>world := w\<rparr>))
   | (Inr pending, w) \<Rightarrow> if pending > 0 then (True, s\<lparr>world := w\<rparr>) else any_pending ts c queues (s\<lparr>world := w\<rparr>))"

fun claim_first :: "'w TaskStore \<Rightarrow> 'w Config \<Rightarrow> (nat \<Rightarrow> gotime) \<Rightarrow> string list \<Rightarrow> 'w sstate \<Rightarrow> TaskMessage option \<times> 'w sstate" where
  "claim_first ts c now [] s = (None, s)"
| "claim_first ts c now (queue # queues) s = (case ts_Claim ts queue (now 0) (LeaseDuration c) (world s) of
     (Inl e, w) \<Rightarrow>
       if IsQueueEmpty (Some e) then claim_first ts c (\<lambda>k. now (Suc k)) queues (s\<lparr>world := w\<rparr>)
       else claim_first ts c (\<lambda>k. now (Suc k)) queues (reportError c e (s\<lparr>world := w\<rparr>))
   | (Inr msg, w) \<Rightarrow> (Some msg, s\<lparr>world := w\<rparr>))"

text \<open>The limiter's verdict: go on, or how long to wait.\<close>

definition acquire_token :: "'w Config \<Rightarrow> 'w sstate \<Rightarrow> duration option \<times> 'w sstate" where
  "acquire_token c s = (case TokenBucket c of
     None \<Rightarrow> (None, s)
   | Some l \<Rightarrow> (case lim_Acquire l (TokenAmount c) (world s) of
       (Inl e, w) \<Rightarrow> (Some (PollInterval c), reportError c e (s\<lparr>world := w\<rparr>))
     | (Inr result, w) \<Rightarrow> (if Allowed result then None else Some (RetryAfter result), s\<lparr>world := w\<rparr>)))"

text \<open>\<open>stop\<close>: the stop channel is closed when the round begins; \<open>taken\<close>: the select hands the claimed task to
  a worker rather than taking the stop.\<close>

definition dispatch_round ::
  "'w TaskStore \<Rightarrow> 'w Config \<Rightarrow> string list \<Rightarrow> (nat \<Rightarrow> gotime) \<Rightarrow> bool \<Rightarrow> bool \<Rightarrow> 'w sstate \<Rightarrow> round \<times> 'w sstate" where
  "dispatch_round ts c queues now stop taken s =
     (if stop then (Stopped, s)
      else (case ts_MoveReady ts (now 0) 100 queues (world s) of
        ((_, Some e), w) \<Rightarrow> (Waits (PollInterval c), reportError c e (s\<lparr>world := w\<rparr>))
      | ((_, None), w) \<Rightarrow> (case any_pending ts c queues (s\<lparr>world := w\<rparr>) of
          (False, s) \<Rightarrow> (Waits (PollInterval c), s)
        | (True, s) \<Rightarrow> (case acquire_token c s of
            (Some d, s) \<Rightarrow> (Waits d, s)
          | (None, s) \<Rightarrow> (case claim_first ts c (\<lambda>k. now (Suc k)) queues s of
              (None, s) \<Rightarrow> (Waits (PollInterval c), s)
            | (Some msg, s) \<Rightarrow>
                if taken then (Dispatched msg, s)
                else (case ts_Requeue ts msg (world s) of
                  ((Some e, _), w) \<Rightarrow> (StoppedWith msg, reportError c e (s\<lparr>world := w\<rparr>))
                | ((None, _), w) \<Rightarrow> (StoppedWith msg, s\<lparr>world := w\<rparr>)))))))"

text \<open>The duration \<open>waitOrStop\<close> arms the timer with.\<close>

definition waitOrStop_duration :: "duration \<Rightarrow> duration" where
  "waitOrStop_duration d = (if d \<le> 0 then millisecond else d)"

end
