(* ===== verification/StoreContract.thy ===== *)
theory StoreContract
  imports TaskStore
begin

text \<open>
  The contract of \<open>TaskStore\<close>, as the server relies on it: what each method does to the durable tasks, in
  the terms of the comments of \<^verbatim>\<open>storage/storage.go\<close>. A method takes effect at one moment between
  its call and its return (several moments for \<open>MoveReady\<close>); until then other clients may have changed
  the tasks within \<open>rely\<close>. An error may hide an effect, since a reply can get lost.

  \<open>task_store\<close> is the contract under any interference and any failures; \<open>reliable_store\<close> adds what a caller
  can count on while it is undisturbed and its requests are answered.
\<close>

type_synonym tmap = "string \<Rightarrow> string \<Rightarrow> TaskMessage option"

text \<open>The task is active under the attempt of the message; the tasks with a message stored.\<close>

definition owns :: "tmap \<Rightarrow> TaskMessage \<Rightarrow> bool" where
  "owns T m \<longleftrightarrow> (\<exists>t. T (Queue m) (ID m) = Some t \<and> State t = StateActive \<and> AttemptID t = AttemptID m)"

definition put :: "TaskMessage \<Rightarrow> tmap \<Rightarrow> tmap" where
  "put m T = T(Queue m := (T (Queue m))(ID m \<mapsto> m))"

text \<open>Ending the attempt of \<open>m\<close>: \<open>stored\<close> is what the store then holds.\<close>

definition ended :: "tmap \<Rightarrow> TaskMessage \<Rightarrow> TaskMessage \<Rightarrow> gerr option \<Rightarrow> tmap \<Rightarrow> bool" where
  "ended T m stored e T' \<longleftrightarrow>
     (if e = None then owns T m \<and> T' = put stored T else T' = T \<or> owns T m \<and> T' = put stored T)"

definition ended_surely :: "tmap \<Rightarrow> TaskMessage \<Rightarrow> TaskMessage \<Rightarrow> gerr option \<Rightarrow> tmap \<Rightarrow> bool" where
  "ended_surely T m stored e T' \<longleftrightarrow>
     (if owns T m then e = None \<and> T' = put stored T else e = Some ErrInvalidTransition \<and> T' = T)"

definition completed_at :: "gotime \<Rightarrow> TaskMessage \<Rightarrow> TaskMessage" where
  "completed_at now m = m\<lparr>State := StateCompleted, AttemptID := '''', CompletedAt := now\<rparr>"

definition retried_at :: "gotime \<Rightarrow> string \<Rightarrow> TaskMessage \<Rightarrow> TaskMessage" where
  "retried_at now reason m = m\<lparr>State := StateRetry, AttemptID := '''', LastError := reason, LastFailedAt := now\<rparr>"

definition archived_for :: "string \<Rightarrow> TaskMessage \<Rightarrow> TaskMessage" where
  "archived_for reason m = m\<lparr>State := StateArchived, AttemptID := '''', LastError := reason\<rparr>"

definition pending_again :: "TaskMessage \<Rightarrow> TaskMessage" where
  "pending_again m = m\<lparr>State := StatePending, AttemptID := ''''\<rparr>"

text \<open>Claiming: a pending task of the queue becomes active under a new attempt.\<close>

definition claims :: "tmap \<Rightarrow> string \<Rightarrow> TaskMessage \<Rightarrow> tmap \<Rightarrow> bool" where
  "claims T q m T' \<longleftrightarrow> Queue m = q \<and> T' = put m T
     \<and> (\<exists>t. T q (ID m) = Some t \<and> State t = StatePending \<and> m = t\<lparr>State := StateActive, AttemptID := AttemptID m\<rparr>)"

text \<open>Some scheduled or retrying tasks became pending.\<close>

definition readied :: "tmap \<Rightarrow> tmap \<Rightarrow> bool" where
  "readied T T' \<longleftrightarrow> (\<forall>q i. T' q i = T q i \<or> 
     (\<exists>t. T q i = Some t \<and> State t \<in> {StateScheduled, StateRetry} \<and> T' q i = Some (pending_again t)))"

definition has_pending :: "tmap \<Rightarrow> string \<Rightarrow> bool" where
  "has_pending T q \<longleftrightarrow> (\<exists>i t. T q i = Some t \<and> State t = StatePending)"

locale task_store =
  fixes ts :: "'w TaskStore"
    and ok :: "'w \<Rightarrow> bool"
    and held :: "'w \<Rightarrow> tmap"
    and rely :: "tmap \<Rightarrow> tmap \<Rightarrow> bool"
    and named :: "string \<Rightarrow> bool"
  assumes ack: "ok w \<Longrightarrow> named (Queue m) \<Longrightarrow> ts_AckSuccess ts m w = ((e, m'), w') \<Longrightarrow>
      ok w' \<and> (\<exists>T now. rely (held w) T \<and> ended T m (completed_at now m) e (held w'))"
    and retry: "ok w \<Longrightarrow> named (Queue m) \<Longrightarrow> ts_ScheduleRetry ts runAt reason m w = ((e, m'), w') \<Longrightarrow>
      ok w' \<and> (\<exists>T now. rely (held w) T \<and> ended T m (retried_at now reason m) e (held w'))"
    and archive: "ok w \<Longrightarrow> named (Queue m) \<Longrightarrow> ts_Archive ts reason m w = ((e, m'), w') \<Longrightarrow>
      ok w' \<and> (\<exists>T. rely (held w) T \<and> ended T m (archived_for reason m) e (held w'))"
    and requeue: "ok w \<Longrightarrow> named (Queue m) \<Longrightarrow> ts_Requeue ts m w = ((e, m'), w') \<Longrightarrow>
      ok w' \<and> (\<exists>T. rely (held w) T \<and> ended T m (pending_again (the (T (Queue m) (ID m)))) e (held w'))"
    and claim: "ok w \<Longrightarrow> named q \<Longrightarrow> ts_Claim ts q now lease w = (r, w') \<Longrightarrow>
      ok w' \<and> (\<exists>T. rely (held w) T \<and>
        (case r of Inr m \<Rightarrow> claims T q m (held w') | Inl e \<Rightarrow> held w' = T \<or> (\<exists>m. claims T q m (held w'))))"
    and move: "ok w \<Longrightarrow> list_all named qs \<Longrightarrow> ts_MoveReady ts now limit qs w = (k, w') \<Longrightarrow>
      ok w' \<and> (\<lambda>T T'. rely T T' \<or> readied T T')\<^sup>*\<^sup>* (held w) (held w')"
    and get: "ok w \<Longrightarrow> named q \<Longrightarrow> ts_Get ts q i w = (r, w') \<Longrightarrow>
      ok w' \<and> rely (held w) (held w') \<and> (case r of Inr t \<Rightarrow> held w' q i = Some t | Inl e \<Rightarrow> True)"
    and expired: "ok w \<Longrightarrow> named q \<Longrightarrow> ts_ExpiredIDs ts now q limit w = (ids, w') \<Longrightarrow> ok w' \<and> rely (held w) (held w')"
    and pending: "ok w \<Longrightarrow> named q \<Longrightarrow> ts_PendingCount ts q w = (n, w') \<Longrightarrow> ok w' \<and> rely (held w) (held w')"
    and extend: "ok w \<Longrightarrow> named q \<Longrightarrow> ts_ExtendLease ts q tasks now lease w = (e', w') \<Longrightarrow> ok w' \<and> rely (held w) (held w')"
    and located: "ok w \<Longrightarrow> held w q i = Some t \<Longrightarrow> Queue t = q \<and> ID t = i"

locale reliable_store = task_store +
  fixes sure :: "'w \<Rightarrow> bool"
    and expired_ids :: "'w \<Rightarrow> gotime \<Rightarrow> string \<Rightarrow> string list"
  assumes ack_sure: "ok w \<Longrightarrow> sure w \<Longrightarrow> named (Queue m) \<Longrightarrow> Marshal m \<noteq> None \<Longrightarrow>
      ts_AckSuccess ts m w = ((e, m'), w') \<Longrightarrow> sure w' \<and> (\<exists>now. ended_surely (held w) m (completed_at now m) e (held w'))"
    and retry_sure: "ok w \<Longrightarrow> sure w \<Longrightarrow> named (Queue m) \<Longrightarrow> Marshal m \<noteq> None \<Longrightarrow>
      ts_ScheduleRetry ts runAt reason m w = ((e, m'), w') \<Longrightarrow>
      sure w' \<and> (\<exists>now. ended_surely (held w) m (retried_at now reason m) e (held w'))"
    and archive_sure: "ok w \<Longrightarrow> sure w \<Longrightarrow> named (Queue m) \<Longrightarrow> Marshal m \<noteq> None \<Longrightarrow>
      ts_Archive ts reason m w = ((e, m'), w') \<Longrightarrow> sure w' \<and> ended_surely (held w) m (archived_for reason m) e (held w')"
    and requeue_sure: "ok w \<Longrightarrow> sure w \<Longrightarrow> named (Queue m) \<Longrightarrow> ts_Requeue ts m w = ((e, m'), w') \<Longrightarrow>
      sure w' \<and> ended_surely (held w) m (pending_again (the (held w (Queue m) (ID m)))) e (held w')"
    and claim_sure: "ok w \<Longrightarrow> sure w \<Longrightarrow> named q \<Longrightarrow> ts_Claim ts q now lease w = (r, w') \<Longrightarrow>
      sure w' \<and> (if has_pending (held w) q then \<exists>m. r = Inr m \<and> claims (held w) q m (held w')
                 else r = Inl ErrQueueEmpty \<and> held w' = held w)"
    and move_sure: "ok w \<Longrightarrow> sure w \<Longrightarrow> list_all named qs \<Longrightarrow> ts_MoveReady ts now limit qs w = (k, w') \<Longrightarrow>
      sure w' \<and> snd k = None \<and> readied (held w) (held w')"
    and get_sure: "ok w \<Longrightarrow> sure w \<Longrightarrow> named q \<Longrightarrow> ts_Get ts q i w = (r, w') \<Longrightarrow>
      sure w' \<and> held w' = held w \<and> r = (case held w q i of None \<Rightarrow> Inl ErrTaskNotFound | Some t \<Rightarrow> Inr t)"
    and expired_sure: "ok w \<Longrightarrow> sure w \<Longrightarrow> named q \<Longrightarrow> ts_ExpiredIDs ts now q 100 w = (ids, w') \<Longrightarrow>
      sure w' \<and> held w' = held w \<and> ids = Inr (expired_ids w now q)"
    and expired_active: "ok w \<Longrightarrow> named q \<Longrightarrow> i \<in> set (expired_ids w now q) \<Longrightarrow> \<exists>t. held w q i = Some t \<and> State t = StateActive"
    and expired_distinct: "ok w \<Longrightarrow> named q \<Longrightarrow> distinct (expired_ids w now q)"
    and pending_sure: "ok w \<Longrightarrow> sure w \<Longrightarrow> named q \<Longrightarrow> ts_PendingCount ts q w = (n, w') \<Longrightarrow>
      sure w' \<and> held w' = held w \<and> (\<exists>k. n = Inr k \<and> (0 < k \<longleftrightarrow> has_pending (held w) q))"

end
