(* ===== verification/ServerSpec.thy ===== *)
theory ServerSpec
  imports ServerLoops StoreContract
begin

text \<open>
  What the loops of the server do with any store that keeps the contract. Inside \<open>task_store\<close>: no
  loop ever gives a task more retries than it is allowed, whatever other processes do within that bound.
  Inside \<open>reliable_store\<close>: the exact outcome of a job, of a recovery tick and of a dispatcher round.
\<close>

text \<open>A message within its retry budget, and tasks that all are. A Go \<open>int\<close> is below \<open>2 ^ 63\<close>.\<close>

definition in_budget :: "TaskMessage \<Rightarrow> bool" where
  "in_budget m \<longleftrightarrow> 0 \<le> RetryCount m \<and> RetryCount m \<le> MaxRetry m \<and> MaxRetry m < 2 ^ 63"

definition bounded :: "tmap \<Rightarrow> bool" where
  "bounded T \<longleftrightarrow> (\<forall>q i t. T q i = Some t \<longrightarrow> in_budget t)"

definition kept :: "('w \<Rightarrow> bool) \<Rightarrow> ('w \<Rightarrow> tmap) \<Rightarrow> 'w \<Rightarrow> bool" where
  "kept ok held w \<longleftrightarrow> ok w \<and> bounded (held w)"

text \<open>A handler that leaves a message within its budget and in a proper queue, and a limiter that leaves the tasks alone.\<close>

definition respectful :: "(string \<Rightarrow> bool) \<Rightarrow> Handler \<Rightarrow> bool" where
  "respectful named h \<longleftrightarrow> (\<forall>c m. in_budget m \<longrightarrow> named (Queue m) \<longrightarrow> in_budget (snd (h c m)) \<and> named (Queue (snd (h c m))))"

definition harmless :: "('w \<Rightarrow> bool) \<Rightarrow> 'w Config \<Rightarrow> bool" where
  "harmless P c \<longleftrightarrow> (\<forall>l x w. TokenBucket c = Some l \<longrightarrow> P w \<longrightarrow> P (snd (lim_Acquire l x w)))"

text \<open>The jobs a round hands to the workers.\<close>

fun dispatched :: "round \<Rightarrow> TaskMessage list" where
  "dispatched (Dispatched m) = [m]"
| "dispatched _ = []"

text \<open>The goroutines of one server at work on shared state, with the jobs claimed and not yet taken by a worker and
  the jobs being worked on. A worker's body is two steps, so that the other loops run while its handler
  does. \<open>order\<close> lists the queues of the active tasks in any order.\<close>

record 'w engine =
  shared :: "'w sstate"
  waiting :: "TaskMessage list"
  running :: "TaskMessage list"

inductive server_step ::
  "'w TaskStore \<Rightarrow> 'w Config \<Rightarrow> Handler \<Rightarrow> string list \<Rightarrow> 'w engine \<Rightarrow> 'w engine \<Rightarrow> bool"
  for ts c handler queues where
  dispatch: "dispatch_round ts c queues now stop taken (shared x) = (r, s) \<Longrightarrow>
    server_step ts c handler queues x (x\<lparr>shared := s, waiting := waiting x @ dispatched r\<rparr>)"
| take_job: "waiting x = before @ msg # after \<Longrightarrow> trackActive msg (shared x) = (key, s) \<Longrightarrow>
    server_step ts c handler queues x (x\<lparr>shared := s, waiting := before @ after, running := msg # running x\<rparr>)"
| finish_job: "running x = before @ msg # after \<Longrightarrow> untrackActive (activeKey msg) (process ts c handler hctx t msg (shared x)) = s \<Longrightarrow>
    server_step ts c handler queues x (x\<lparr>shared := s, running := before @ after\<rparr>)"
| heartbeat: "set order = key_queue ` fst ` set (active (shared x)) \<Longrightarrow> distinct order \<Longrightarrow>
    server_step ts c handler queues x (x\<lparr>shared := heartbeat_tick ts c now order (shared x)\<rparr>)"
| recovery: "server_step ts c handler queues x (x\<lparr>shared := recovery_tick ts c now ch queues (shared x)\<rparr>)"

text \<open>Everything the engine holds is within budget and in proper queues.\<close>

definition engine_inv :: "('w \<Rightarrow> bool) \<Rightarrow> ('w \<Rightarrow> tmap) \<Rightarrow> (string \<Rightarrow> bool) \<Rightarrow> 'w engine \<Rightarrow> bool" where
  "engine_inv ok held named x \<longleftrightarrow> kept ok held (world (shared x))
     \<and> (\<forall>m \<in> set (waiting x) \<union> set (running x). in_budget m \<and> named (Queue m))
     \<and> (\<forall>k \<in> fst ` set (active (shared x)). named (key_queue k))"


section \<open>Lemmas\<close>

lemma settled_sel [simp]:
  "world (settled c f s r) = snd r" "active (settled c f s r) = active s"
  "metrics (settled c f s r) = (if fst (fst r) = None then f (metrics s) else metrics s)"
  "errors (settled c f s r) = errors s @ (case fst (fst r) of Some e \<Rightarrow> if HasErrorHandler c then [e] else [] | None \<Rightarrow> [])"
  by (auto simp: settled_def reportError_def record_metric_def split: prod.splits option.splits)

lemma state_sel [simp]:
  "world (reportError c e s) = world s" "active (reportError c e s) = active s" "metrics (reportError c e s) = metrics s"
  "world (record_metric f s) = world s" "active (record_metric f s) = active s" "errors (record_metric f s) = errors s"
  "metrics (record_metric f s) = f (metrics s)"
  "errors (reportError c e s) = errors s @ (if HasErrorHandler c then [e] else [])"
  by (simp_all add: reportError_def record_metric_def)

lemma process_active [simp]: "active (process ts c h hctx t msg s) = active s"
  by (simp add: process_def Let_def split: prod.splits option.splits)

lemma recover_task_active [simp]: "active (recover_task ts c now ch q i s) = active s"
  by (simp add: recover_task_def Let_def split: prod.splits sum.splits)

lemma recover_ids_active [simp]: "active (recover_ids ts c now ch q ids s) = active s"
  by (induction ids arbitrary: s ch) simp_all

lemma recovery_active [simp]: "active (recovery_tick ts c now ch qs s) = active s"
  by (induction qs arbitrary: s ch) (simp_all split: prod.splits sum.splits)

lemma heartbeat_active [simp]: "active (heartbeat_queues ts c now keys qs s) = active s"
  by (induction qs arbitrary: s) (simp_all split: prod.splits option.splits)

lemma any_pending_active [simp]: "active (snd (any_pending ts c qs s)) = active s"
  by (induction qs arbitrary: s) (simp_all split: prod.splits sum.splits)

lemma acquire_active [simp]: "active (snd (acquire_token c s)) = active s"
  by (simp add: acquire_token_def split: option.splits prod.splits sum.splits)

lemma claim_first_active [simp]: "active (snd (claim_first ts c now qs s)) = active s"
  by (induction qs arbitrary: s now) (simp_all del: IsQueueEmpty.simps split: prod.splits sum.splits)

lemma dispatch_active:
  assumes "dispatch_round ts c qs now stop taken s = (r, s')"
  shows "active s' = active s"
proof -
  obtain n e w where m: "ts_MoveReady ts (now 0) 100 qs (world s) = ((n, e), w)" by (metis prod.exhaust)
  obtain p s1 where p: "any_pending ts c qs (s\<lparr>world := w\<rparr>) = (p, s1)" by (metis prod.exhaust)
  obtain a s2 where a: "acquire_token c s1 = (a, s2)" by (metis prod.exhaust)
  obtain x s3 where x: "claim_first ts c (\<lambda>k. now (Suc k)) qs s2 = (x, s3)" by (metis prod.exhaust)
  have "active s1 = active s" "active s2 = active s1" "active s3 = active s2"
    using any_pending_active [of ts c qs "s\<lparr>world := w\<rparr>"] acquire_active [of c s1]
      claim_first_active [of ts c "\<lambda>k. now (Suc k)" qs s2] p a x by simp_all
  with assms m p a x show ?thesis
    by (cases "stop"; cases e; cases p; cases a; cases x; cases taken)
      (auto simp: dispatch_round_def split: prod.splits option.splits)
qed

lemma budget_upd [simp]:
  "in_budget (completed_at now m) = in_budget m" "in_budget (retried_at now r m) = in_budget m"
  "in_budget (archived_for r m) = in_budget m" "in_budget (pending_again m) = in_budget m"
  by (simp_all add: in_budget_def completed_at_def retried_at_def archived_for_def pending_again_def)

lemma upd_sel [simp]:
  "Queue (completed_at now m) = Queue m" "ID (completed_at now m) = ID m"
  "Queue (retried_at now r m) = Queue m" "ID (retried_at now r m) = ID m"
  "Queue (archived_for r m) = Queue m" "ID (archived_for r m) = ID m"
  "Queue (pending_again m) = Queue m" "ID (pending_again m) = ID m"
  by (simp_all add: completed_at_def retried_at_def archived_for_def pending_again_def)

text \<open>A failed attempt below the limit stays within the budget, and the count does not wrap.\<close>

lemma budget_retry:
  assumes "in_budget m" and "\<not> MaxRetry m \<le> RetryCount m"
  shows "in_budget (m\<lparr>RetryCount := wrap64 (RetryCount m + 1)\<rparr>)" and "wrap64 (RetryCount m + 1) = RetryCount m + 1"
  using assms by (simp_all add: in_budget_def wrap64_id int64_range_def)

lemma bounded_put: "bounded T \<Longrightarrow> in_budget m \<Longrightarrow> bounded (put m T)"
  by (auto simp: bounded_def put_def)

lemma bounded_ended: "ended T m stored e T' \<Longrightarrow> bounded T \<Longrightarrow> (owns T m \<Longrightarrow> in_budget stored) \<Longrightarrow> bounded T'"
  by (auto simp: ended_def bounded_put split: if_splits)

lemma bounded_readied: "readied T T' \<Longrightarrow> bounded T \<Longrightarrow> bounded T'"
  unfolding readied_def bounded_def by (metis budget_upd(4) option.inject)

lemma claims_bounded: "claims T q m T' \<Longrightarrow> bounded T \<Longrightarrow> in_budget m \<and> bounded T'"
proof -
  assume c: "claims T q m T'" and b: "bounded T"
  then obtain t where t: "T q (ID m) = Some t" "m = t\<lparr>State := StateActive, AttemptID := AttemptID m\<rparr>"
    by (auto simp: claims_def)
  have "in_budget t" using b t(1) by (auto simp: bounded_def)
  then have "in_budget m" by (subst t(2)) (simp add: in_budget_def)
  with c b show ?thesis by (simp add: claims_def bounded_put)
qed

text \<open>A store among clients that all respect the budget.\<close>

locale budget_store = task_store +
  assumes stable: "rely T T' \<Longrightarrow> bounded T \<Longrightarrow> bounded T'"
begin

lemma end_kept:
  assumes w: "kept ok held w" "named (Queue m)" "in_budget m"
  shows "kept ok held (snd (ts_AckSuccess ts m w))" "kept ok held (snd (ts_ScheduleRetry ts runAt reason m w))"
    "kept ok held (snd (ts_Archive ts reason m w))"
proof -
  have wok: "ok w" "bounded (held w)" using w(1) by (simp_all add: kept_def)
  have *: "bounded T'" if "rely (held w) T" "ended T m x e T'" "in_budget x" for T T' x e
    using stable [OF that(1) wok(2)] bounded_ended [OF that(2)] that(3) by blast
  show "kept ok held (snd (ts_AckSuccess ts m w))"
    using ack [OF wok(1) w(2), of "fst (fst (ts_AckSuccess ts m w))"] * w(3)
    by (cases "ts_AckSuccess ts m w"; cases "fst (ts_AckSuccess ts m w)") (fastforce simp: kept_def)
  show "kept ok held (snd (ts_ScheduleRetry ts runAt reason m w))"
    using retry [OF wok(1) w(2), of runAt reason] * w(3)
    by (cases "ts_ScheduleRetry ts runAt reason m w"; cases "fst (ts_ScheduleRetry ts runAt reason m w)") (fastforce simp: kept_def)
  show "kept ok held (snd (ts_Archive ts reason m w))"
    using archive [OF wok(1) w(2), of reason] * w(3)
    by (cases "ts_Archive ts reason m w"; cases "fst (ts_Archive ts reason m w)") (fastforce simp: kept_def)
qed

lemma requeue_kept:
  assumes w: "kept ok held w" "named (Queue m)"
  shows "kept ok held (snd (ts_Requeue ts m w))"
proof -
  obtain e m' w' where r: "ts_Requeue ts m w = ((e, m'), w')" by (metis prod.exhaust)
  have wok: "ok w" "bounded (held w)" using w(1) by (simp_all add: kept_def)
  from requeue [OF wok(1) w(2) r] obtain T where T: "ok w'" "rely (held w) T"
    "ended T m (pending_again (the (T (Queue m) (ID m)))) e (held w')" by blast
  have b: "bounded T" by (rule stable [OF T(2) wok(2)])
  have "in_budget (the (T (Queue m) (ID m)))" if "owns T m" using that b by (auto simp: owns_def bounded_def)
  with bounded_ended [OF T(3) b] T(1) r show ?thesis by (simp add: kept_def)
qed

lemma read_kept:
  assumes w: "kept ok held w" "named q"
  shows "kept ok held (snd (ts_Get ts q i w))" "kept ok held (snd (ts_ExpiredIDs ts now q limit w))"
    "kept ok held (snd (ts_PendingCount ts q w))" "kept ok held (snd (ts_ExtendLease ts q tasks now lease w))"
  using get [OF _ w(2), of w i] expired [OF _ w(2), of w now limit] pending [OF _ w(2), of w]
    extend [OF _ w(2), of w tasks now lease] w(1) stable
  by (metis kept_def prod.collapse)+

lemma get_budget:
  assumes w: "kept ok held w" "named q" and g: "ts_Get ts q i w = (Inr t, w')"
  shows "in_budget t \<and> Queue t = q \<and> ID t = i"
proof -
  have ok: "ok w" "bounded (held w)" using w(1) by (simp_all add: kept_def)
  from get [OF ok(1) w(2) g] have g': "ok w'" "rely (held w) (held w')" "held w' q i = Some t" by auto
  with stable [OF g'(2) ok(2)] located [OF g'(1,3)] show ?thesis by (auto simp: bounded_def)
qed

lemma claim_kept:
  assumes w: "kept ok held w" "named q"
  shows "kept ok held (snd (ts_Claim ts q now lease w))"
    and "fst (ts_Claim ts q now lease w) = Inr m \<Longrightarrow> in_budget m \<and> Queue m = q"
proof -
  obtain r w' where c: "ts_Claim ts q now lease w = (r, w')" by (metis prod.exhaust)
  have ok: "ok w" "bounded (held w)" using w(1) by (simp_all add: kept_def)
  from claim [OF ok(1) w(2) c] obtain T where T: "ok w'" "rely (held w) T"
    "case r of Inr m \<Rightarrow> claims T q m (held w') | Inl e \<Rightarrow> held w' = T \<or> (\<exists>m. claims T q m (held w'))" by blast
  have b: "bounded T" by (rule stable [OF T(2) ok(2)])
  show "kept ok held (snd (ts_Claim ts q now lease w))"
    using T(1,3) b claims_bounded by (auto simp: c kept_def split: sum.splits)
  show "in_budget m \<and> Queue m = q" if "fst (ts_Claim ts q now lease w) = Inr m"
    using that T(3) b claims_bounded [of T q m] by (auto simp: c claims_def)
qed

lemma move_kept:
  assumes w: "kept ok held w" "list_all named qs"
  shows "kept ok held (snd (ts_MoveReady ts now limit qs w))"
proof -
  obtain k w' where m: "ts_MoveReady ts now limit qs w = (k, w')" by (metis prod.exhaust)
  have ok: "ok w" "bounded (held w)" using w(1) by (simp_all add: kept_def)
  from move [OF ok(1) w(2) m] have "ok w'" "(\<lambda>T T'. rely T T' \<or> readied T T')\<^sup>*\<^sup>* (held w) (held w')" by auto
  from this(2) ok(2) have "bounded (held w')"
    by (induction rule: rtranclp_induct) (auto intro: stable bounded_readied)
  with \<open>ok w'\<close> m show ?thesis by (simp add: kept_def)
qed

lemma process_kept:
  assumes "kept ok held (world s)" and "named (Queue msg)" and "in_budget msg" and "respectful named handler"
  shows "kept ok held (world (process ts c handler hctx t msg s))"
proof -
  obtain err m where h: "handler (handler_context hctx (at_timeout t) msg) msg = (err, m)" by (metis prod.exhaust)
  have m: "in_budget m" "named (Queue m)" using assms(2-4) h unfolding respectful_def by (metis snd_conv)+
  note e = end_kept [OF assms(1) m(2)]
  show ?thesis
  proof (cases err)
    case None
    then show ?thesis using e(1) [OF m(1)] by (simp add: process_def h)
  next
    case (Some x)
    have "in_budget (m\<lparr>RetryCount := wrap64 (RetryCount m + 1)\<rparr>)" if "\<not> MaxRetry m \<le> RetryCount m"
      by (rule budget_retry(1) [OF m(1) that])
    with Some m e(3) [OF m(1)] end_kept(2) [OF assms(1), of "m\<lparr>RetryCount := wrap64 (RetryCount m + 1)\<rparr>"]
    show ?thesis by (simp add: process_def h Let_def)
  qed
qed

lemma recover_task_kept:
  assumes "kept ok held (world s)" and "named q"
  shows "kept ok held (world (recover_task ts c now ch q i s))"
proof -
  obtain r w where g: "ts_Get ts q i (world s) = (r, w)" by (metis prod.exhaust)
  have w: "kept ok held w" using read_kept(1) [OF assms, of i] g by simp
  show ?thesis
  proof (cases r)
    case (Inl e)
    with w show ?thesis by (simp add: recover_task_def g)
  next
    case (Inr t)
    with get_budget [OF assms] g have t: "in_budget t" "named (Queue t)" using assms(2) by auto
    have "in_budget (t\<lparr>RetryCount := wrap64 (RetryCount t + 1)\<rparr>)" if "\<not> MaxRetry t \<le> RetryCount t"
      by (rule budget_retry(1) [OF t(1) that])
    with Inr w end_kept(3) [OF w t(2,1)] end_kept(2) [OF w, of "t\<lparr>RetryCount := wrap64 (RetryCount t + 1)\<rparr>"] t(2)
    show ?thesis by (simp add: recover_task_def g Let_def)
  qed
qed

lemma recover_ids_kept:
  "kept ok held (world s) \<Longrightarrow> named q \<Longrightarrow> kept ok held (world (recover_ids ts c now ch q ids s))"
  by (induction ids arbitrary: s ch) (simp_all add: recover_task_kept)

lemma recovery_kept:
  "kept ok held (world s) \<Longrightarrow> list_all named qs \<Longrightarrow> kept ok held (world (recovery_tick ts c now ch qs s))"
proof (induction qs arbitrary: s ch)
  case (Cons q qs)
  obtain r w where x: "ts_ExpiredIDs ts now q 100 (world s) = (r, w)" by (metis prod.exhaust)
  have w: "kept ok held w" using read_kept(2) [OF Cons.prems(1), of q now 100] Cons.prems(2) x by simp
  then show ?case using Cons by (cases r) (simp_all add: x recover_ids_kept)
qed simp

lemma heartbeat_kept:
  "kept ok held (world s) \<Longrightarrow> list_all named qs \<Longrightarrow> kept ok held (world (heartbeat_queues ts c now keys qs s))"
proof (induction qs arbitrary: s)
  case (Cons q qs)
  obtain e w where x: "ts_ExtendLease ts q (map Some (byQueue keys q)) now (LeaseDuration c) (world s) = (e, w)"
    by (metis prod.exhaust)
  have w: "kept ok held w"
    using read_kept(4) [OF Cons.prems(1), of q "map Some (byQueue keys q)" now "LeaseDuration c"] Cons.prems(2) x by simp
  then show ?case using Cons by (cases e) (simp_all add: x)
qed simp

lemma any_pending_kept:
  "kept ok held (world s) \<Longrightarrow> list_all named qs \<Longrightarrow> kept ok held (world (snd (any_pending ts c qs s)))"
proof (induction qs arbitrary: s)
  case (Cons q qs)
  obtain r w where x: "ts_PendingCount ts q (world s) = (r, w)" by (metis prod.exhaust)
  have w: "kept ok held w" using read_kept(3) [OF Cons.prems(1), of q] Cons.prems(2) x by simp
  then show ?case using Cons by (cases r) (simp_all add: x)
qed simp

lemma claim_first_kept:
  "kept ok held (world s) \<Longrightarrow> list_all named qs \<Longrightarrow> claim_first ts c now qs s = (r, s') \<Longrightarrow>
   kept ok held (world s') \<and> (case r of None \<Rightarrow> True | Some m \<Rightarrow> in_budget m \<and> Queue m \<in> set qs)"
proof (induction qs arbitrary: s now)
  case (Cons q qs)
  obtain x w where x: "ts_Claim ts q (now 0) (LeaseDuration c) (world s) = (x, w)" by (metis prod.exhaust)
  have n: "named q" "list_all named qs" using Cons.prems(2) by simp_all
  have w: "kept ok held w" using claim_kept(1) [OF Cons.prems(1) n(1), of "now 0" "LeaseDuration c"] x by simp
  show ?case
  proof (cases x)
    case (Inr m)
    then show ?thesis using claim_kept(2) [OF Cons.prems(1) n(1), of "now 0" "LeaseDuration c" m] w x Cons.prems(3) by auto
  next
    case (Inl e)
    have "kept ok held (world (if IsQueueEmpty (Some e) then s\<lparr>world := w\<rparr> else reportError c e (s\<lparr>world := w\<rparr>)))"
      using w by simp
    moreover have "claim_first ts c (\<lambda>k. now (Suc k)) qs
        (if IsQueueEmpty (Some e) then s\<lparr>world := w\<rparr> else reportError c e (s\<lparr>world := w\<rparr>)) = (r, s')"
      using Cons.prems(3) Inl x by (simp del: IsQueueEmpty.simps split: if_splits)
    ultimately have "kept ok held (world s') \<and> (case r of None \<Rightarrow> True | Some m \<Rightarrow> in_budget m \<and> Queue m \<in> set qs)"
      using Cons.IH n(2) by blast
    then show ?thesis by (auto split: option.splits)
  qed
qed auto

lemma acquire_kept:
  "kept ok held (world s) \<Longrightarrow> harmless (kept ok held) c \<Longrightarrow> kept ok held (world (snd (acquire_token c s)))"
  unfolding acquire_token_def harmless_def by (auto split: option.splits prod.splits sum.splits) (metis snd_conv)+

lemma dispatch_kept:
  assumes "kept ok held (world s)" and qs: "list_all named qs" and "harmless (kept ok held) c"
    and "dispatch_round ts c qs now stop taken s = (r, s')"
  shows "kept ok held (world s') \<and> (\<forall>m \<in> set (dispatched r). in_budget m \<and> named (Queue m))"
proof -
  obtain n e w where m: "ts_MoveReady ts (now 0) 100 qs (world s) = ((n, e), w)" by (metis prod.exhaust)
  have w: "kept ok held w" using move_kept [OF assms(1) qs, of "now 0" 100] m by simp
  obtain p s1 where p: "any_pending ts c qs (s\<lparr>world := w\<rparr>) = (p, s1)" by (metis prod.exhaust)
  have s1: "kept ok held (world s1)" using any_pending_kept [of "s\<lparr>world := w\<rparr>" qs c] qs w p by simp
  obtain a s2 where a: "acquire_token c s1 = (a, s2)" by (metis prod.exhaust)
  have s2: "kept ok held (world s2)" using acquire_kept [OF s1 assms(3)] a by simp
  obtain x s3 where x: "claim_first ts c (\<lambda>k. now (Suc k)) qs s2 = (x, s3)" by (metis prod.exhaust)
  note s3 = claim_first_kept [OF s2 qs x]
  show ?thesis
  proof (cases "stop \<or> e \<noteq> None \<or> \<not> p \<or> a \<noteq> None \<or> x = None")
    case True
    then show ?thesis using assms(1,4) w s1 s2 s3 m p a x
      by (auto simp: dispatch_round_def split: option.splits if_splits bool.splits)
  next
    case False
    then obtain msg where msg: "x = Some msg" by auto
    then have b: "in_budget msg" "named (Queue msg)" using s3 qs by (auto simp: list_all_iff)
    obtain e' m' w' where q: "ts_Requeue ts msg (world s3) = ((e', m'), w')" by (metis prod.exhaust)
    have "kept ok held w'" using requeue_kept [OF _ b(2), of "world s3"] s3 q by simp
    then show ?thesis using False assms(4) m p a x msg q s3 b
      by (cases taken; cases e') (auto simp: dispatch_round_def)
  qed
qed

lemma server_step_inv:
  assumes "server_step ts c handler qs x x'" and "engine_inv ok held named x"
    and "list_all named qs" and "respectful named handler" and "harmless (kept ok held) c"
  shows "engine_inv ok held named x'"
  using assms(1,2)
proof (induction rule: server_step.induct)
  case (dispatch now stop taken x r s)
  then have k: "kept ok held (world (shared x))" by (simp add: engine_inv_def)
  from dispatch_kept [OF k assms(3,5) dispatch(1)] dispatch_active [OF dispatch(1)] dispatch(2)
  show ?case by (auto simp: engine_inv_def)
next
  case (take_job x before msg after key s)
  have act: "fst ` set (active s) = insert (activeKey msg) (fst ` set (active (shared x)))"
    and w: "world s = world (shared x)"
    using take_job(2) by (clarsimp simp: trackActive_def AList.dom_update)+
  have "\<forall>k \<in> fst ` set (active s). named (key_queue k)"
    unfolding act using take_job(1,3) by (simp add: engine_inv_def activeKey_def)
  with take_job(1,3) w show ?case by (auto simp: engine_inv_def)
next
  case (finish_job x before msg after hctx t s)
  then have "kept ok held (world (process ts c handler hctx t msg (shared x)))"
    using assms(4) by (intro process_kept) (simp_all add: engine_inv_def)
  moreover have sub: "set (AList.delete k l) \<subseteq> set l" for k and l :: "(activeTaskKey \<times> TaskMessage) list"
    by (auto simp: AList.delete_eq)
  ultimately show ?case using finish_job by (auto simp: engine_inv_def untrackActive_def dest!: subsetD [OF sub])
next
  case (heartbeat order x now)
  then have "list_all named order" by (auto simp: list_all_iff engine_inv_def)
  with heartbeat heartbeat_kept show ?case by (auto simp: engine_inv_def heartbeat_tick_def)
next
  case (recovery x now ch)
  with assms(3) recovery_kept show ?case by (auto simp: engine_inv_def)
qed

lemma server_run_inv:
  assumes "(server_step ts c handler qs)\<^sup>*\<^sup>* x x'" and "engine_inv ok held named x"
    and "list_all named qs" and "respectful named handler" and "harmless (kept ok held) c"
  shows "engine_inv ok held named x'"
  using assms(1,2) by (induction rule: rtranclp_induct) (auto intro: server_step_inv [OF _ _ assms(3-5)])

end

end
