(* ===== verification/Lifecycle.thy ===== *)
theory Lifecycle
  imports ServerLoops ServerSpec
begin

text \<open>
  The life of a server of \<^verbatim>\<open>server/server.go\<close>: \<open>New\<close>, \<open>Start\<close>, \<open>Stop\<close>, \<open>Shutdown\<close>, \<open>Run\<close> and \<open>RunSignals\<close>, and the
  goroutines that \<open>Start\<close> launches. The state has the fields of \<open>Server\<close>, where each goroutine stands, where each call
  of the public methods stands, and what the loops share. A closed channel and a cancelled context are flags. What a
  method does under the server's lock is one step; so is a round of the dispatcher, a tick of a maintenance loop and the
  processing of a task, each between two points where it waits for another goroutine.
\<close>

section \<open>State\<close>

datatype serverState = stateNew | stateRunning | stateStopped

text \<open>The dispatcher: at the stop check, in a round, offering a task to the workers, in \<open>waitOrStop\<close>, or in its
  deferred closes of \<open>jobs\<close> and then \<open>dispatchDone\<close>.\<close>

datatype dispatcher = DHead | DRound | DSend TaskMessage | DWait | DCloseJobs | DCloseDone | DDone

datatype worker = WIdle | WGot TaskMessage | WBusy TaskMessage activeTaskKey | WDone

datatype wheel_pc = WheelLoop | WheelCall | WheelDone

text \<open>\<open>waitUntil\<close> before its timer is armed, and with a timer that fires at a time.\<close>

datatype waiter = Entering | Armed gotime

text \<open>The goroutine that closes \<open>workDone\<close>.\<close>

datatype drain = AwaitDispatch | AwaitWorkers | Drained

text \<open>Where a call stands. \<open>RunSelect\<close> records whether its context is done or a signal has arrived. A \<open>Shutdown\<close> carries
  its deadline. \<open>NotStarted\<close> is the return of a \<open>Shutdown\<close> that found a new server.\<close>

datatype call =
    CallStart | StartReturned "gerr option"
  | CallStop | StopCancel | StopReturned
  | CallRun | RunSelect bool
  | CallShutdown | NotStarted
  | ShutRequest gotime
  | ShutWork gotime waiter drain
  | ShutAbort
  | ShutCancel gotime
  | ShutMaintenance gotime waiter bool
  | Returned "gerr option"

record 'w Server =
  sv_store :: "'w TaskStore option"
  sv_handler :: "Handler option"
  sv_cfg :: "'w Config"
  sv_queues :: "string list"
  sv_state :: serverState
  sv_stopCh :: bool
  sv_stopOne :: bool
  sv_ctx :: bool
  sv_handlerCtx :: bool
  sv_wheel :: "wheel_pc option"
  sv_armed :: "gotime option"
  sv_dispatchWake :: bool
  sv_jobs :: bool
  sv_dispatchDone :: bool
  sv_dispatcher :: "dispatcher option"
  sv_workers :: "worker list"
  sv_heartbeat :: "bool option"
  sv_recovery :: "bool option"
  sv_loops :: "'w sstate"
  sv_clock :: gotime
  sv_calls :: "call list"
  sv_panic :: bool

text \<open>\<open>sv_stopCh\<close>, \<open>sv_jobs\<close> and \<open>sv_dispatchDone\<close>: the channel is closed. \<open>sv_ctx\<close> and \<open>sv_handlerCtx\<close>: the context is
  cancelled. \<open>sv_heartbeat\<close> and \<open>sv_recovery\<close>: the goroutine has returned. \<open>sv_armed\<close>: when the timer of \<open>waitOrStop\<close> is due.\<close>

definition New :: "'w TaskStore option \<Rightarrow> Handler option \<Rightarrow> 'w Config \<Rightarrow> 'w \<Rightarrow> Metrics option \<Rightarrow> gotime \<Rightarrow> 'w Server" where
  "New store handler c w ms now =
     (let c = applyDefaults c in
      \<lparr>sv_store = store, sv_handler = handler, sv_cfg = c, sv_queues = New_queues (Queues c), sv_state = stateNew,
       sv_stopCh = False, sv_stopOne = False, sv_ctx = False, sv_handlerCtx = False, sv_wheel = None, sv_armed = None,
       sv_dispatchWake = False, sv_jobs = False, sv_dispatchDone = False, sv_dispatcher = None, sv_workers = [],
       sv_heartbeat = None, sv_recovery = None,
       sv_loops = \<lparr>world = w, metrics = ms, errors = [], active = []\<rparr>,
       sv_clock = now, sv_calls = [], sv_panic = False\<rparr>)"


section \<open>Methods\<close>

definition Start :: "'w Server \<Rightarrow> gerr option \<times> 'w Server" where
  "Start s =
     (if sv_state s = stateRunning then (Some ErrServerRunning, s)
      else if sv_state s = stateStopped then (Some ErrServerClosed, s)
      else (case validate (sv_cfg s) of
        Some e \<Rightarrow> (Some e, s)
      | None \<Rightarrow>
          if sv_store s = None \<or> sv_handler s = None then (Some (ErrorsNew ''server store and handler are required''), s)
          else (None, s\<lparr>sv_ctx := False, sv_handlerCtx := False, sv_stopCh := False, sv_dispatchWake := False,
            sv_dispatchDone := False, sv_armed := None, sv_state := stateRunning, sv_jobs := False,
            sv_wheel := Some WheelLoop, sv_dispatcher := Some DHead,
            sv_workers := replicate (nat (Concurrency (sv_cfg s))) WIdle,
            sv_heartbeat := Some False, sv_recovery := Some False\<rparr>)))"

definition cancel :: "'w Server \<Rightarrow> 'w Server" where
  "cancel s = s\<lparr>sv_ctx := True, sv_handlerCtx := True\<rparr>"

text \<open>Closing a closed channel panics.\<close>

definition close_stopCh :: "'w Server \<Rightarrow> 'w Server" where
  "close_stopCh s = s\<lparr>sv_panic := sv_panic s \<or> sv_stopCh s, sv_stopCh := True\<rparr>"

definition requestStop :: "'w Server \<Rightarrow> bool \<times> 'w Server" where
  "requestStop s =
     (if sv_state s \<noteq> stateRunning then (False, s)
      else let s = s\<lparr>sv_state := stateStopped\<rparr>
           in (True, if sv_stopOne s then s
                     else (close_stopCh (s\<lparr>sv_stopOne := True\<rparr>))\<lparr>sv_handlerCtx := True\<rparr>))"

text \<open>The results \<open>waitUntil\<close> can go on with: a timer it has armed, or its value.\<close>

fun waitUntil :: "waiter \<Rightarrow> bool \<Rightarrow> gotime \<Rightarrow> gotime \<Rightarrow> (waiter + bool) list" where
  "waitUntil Entering done deadline now =
     (let remaining = time_Sub deadline now in if remaining \<le> 0 then [Inr done] else [Inl (Armed (now + remaining))])"
| "waitUntil (Armed fires) done deadline now = (if done then [Inr True] else []) @ (if fires \<le> now then [Inr False] else [])"

definition shutdown_timeout :: "'w Config \<Rightarrow> gerr" where
  "shutdown_timeout c = Errorf (''shutdown timeout after '' @ Duration_String (ShutdownTimeout c)) []"

definition work_done :: "'w Server \<Rightarrow> bool" where
  "work_done s \<longleftrightarrow> sv_dispatchDone s \<and> list_all (\<lambda>w. w = WDone) (sv_workers s)"

definition maintenance_done :: "'w Server \<Rightarrow> bool" where
  "maintenance_done s \<longleftrightarrow> sv_wheel s = Some WheelDone \<and> sv_heartbeat s = Some True \<and> sv_recovery s = Some True"

fun drain_next :: "drain \<Rightarrow> 'w Server \<Rightarrow> drain list" where
  "drain_next AwaitDispatch s = (if sv_dispatchDone s then [AwaitWorkers] else [])"
| "drain_next AwaitWorkers s = (if list_all (\<lambda>w. w = WDone) (sv_workers s) then [Drained] else [])"
| "drain_next Drained s = []"

text \<open>How a call can go on. \<open>RunSignals\<close> differs from \<open>Run\<close> only in what can end its select.\<close>

fun call_next :: "call \<Rightarrow> 'w Server \<Rightarrow> (call \<times> 'w Server) list" where
  "call_next CallStart s = (case Start s of (e, s) \<Rightarrow> [(StartReturned e, s)])"
| "call_next CallStop s = (case requestStop s of (stopping, s) \<Rightarrow> [(if stopping then StopCancel else StopReturned, s)])"
| "call_next StopCancel s = [(StopReturned, cancel s)]"
| "call_next CallRun s = (case Start s of
     (Some e, s) \<Rightarrow> [(StartReturned (Some e), s)] | (None, s) \<Rightarrow> [(RunSelect False, s)])"
| "call_next (RunSelect interrupted) s = (if interrupted \<or> sv_stopCh s then [(CallShutdown, s)] else [])"
| "call_next CallShutdown s =
     [(if sv_state s = stateNew then NotStarted else ShutRequest (sv_clock s + ShutdownTimeout (sv_cfg s)), s)]"
| "call_next (ShutRequest deadline) s = [(ShutWork deadline Entering AwaitDispatch, snd (requestStop s))]"
| "call_next (ShutWork deadline w d) s =
     map (\<lambda>d'. (ShutWork deadline w d', s)) (drain_next d s)
     @ map (\<lambda>r. (case r of Inl w' \<Rightarrow> ShutWork deadline w' d | Inr done \<Rightarrow> if done then ShutCancel deadline else ShutAbort, s))
         (waitUntil w (d = Drained) deadline (sv_clock s))"
| "call_next ShutAbort s = [(Returned (Some (shutdown_timeout (sv_cfg s))), cancel s)]"
| "call_next (ShutCancel deadline) s = [(ShutMaintenance deadline Entering False, cancel s)]"
| "call_next (ShutMaintenance deadline w over) s =
     (if \<not> over \<and> maintenance_done s then [(ShutMaintenance deadline w True, s)] else [])
     @ map (\<lambda>r. (case r of Inl w' \<Rightarrow> ShutMaintenance deadline w' over
         | Inr done \<Rightarrow> Returned (if done then None else Some (shutdown_timeout (sv_cfg s))), s))
         (waitUntil w over deadline (sv_clock s))"
| "call_next _ s = []"


section \<open>Goroutines\<close>

text \<open>The end of a round that was not stopped: \<open>waitOrStop\<close> arms a timer, or the claimed task is offered.\<close>

fun after_round :: "round \<Rightarrow> 'w Server \<Rightarrow> 'w Server" where
  "after_round (Waits d) s = s\<lparr>sv_armed := Some (sv_clock s + waitOrStop_duration d), sv_dispatcher := Some DWait\<rparr>"
| "after_round (Dispatched msg) s = s\<lparr>sv_dispatcher := Some (DSend msg)\<rparr>"
| "after_round _ s = s\<lparr>sv_dispatcher := Some DCloseJobs\<rparr>"

definition requeue_claimed :: "'w TaskStore \<Rightarrow> 'w Config \<Rightarrow> TaskMessage \<Rightarrow> 'w sstate \<Rightarrow> 'w sstate" where
  "requeue_claimed ts c msg l = (case ts_Requeue ts msg (world l) of
     ((Some e, _), w) \<Rightarrow> reportError c e (l\<lparr>world := w\<rparr>)
   | ((None, _), w) \<Rightarrow> l\<lparr>world := w\<rparr>)"

definition handlerCtx :: ctx where
  "handlerCtx = WithCancel (WithCancel Background)"

text \<open>The dispatcher and the workers.\<close>

inductive work_step :: "'w Server \<Rightarrow> 'w Server \<Rightarrow> bool" where
  head: "sv_dispatcher s = Some DHead \<Longrightarrow>
    work_step s (s\<lparr>sv_dispatcher := Some (if sv_stopCh s then DCloseJobs else DRound)\<rparr>)"
| round: "sv_dispatcher s = Some DRound \<Longrightarrow> sv_store s = Some ts \<Longrightarrow>
    dispatch_round ts (sv_cfg s) (sv_queues s) now False True (sv_loops s) = (r, l) \<Longrightarrow>
    work_step s (after_round r (s\<lparr>sv_loops := l\<rparr>))"
| wake: "sv_dispatcher s = Some DWait \<Longrightarrow> sv_dispatchWake s \<Longrightarrow>
    work_step s (s\<lparr>sv_dispatchWake := False, sv_armed := None, sv_dispatcher := Some DHead\<rparr>)"
| stop_wait: "sv_dispatcher s = Some DWait \<Longrightarrow> sv_stopCh s \<Longrightarrow>
    work_step s (s\<lparr>sv_armed := None, sv_dispatcher := Some DCloseJobs\<rparr>)"
| hand_over: "sv_dispatcher s = Some (DSend msg) \<Longrightarrow> sv_workers s = xs @ WIdle # ys \<Longrightarrow>
    work_step s (s\<lparr>sv_dispatcher := Some DHead, sv_workers := xs @ WGot msg # ys\<rparr>)"
| stop_send: "sv_dispatcher s = Some (DSend msg) \<Longrightarrow> sv_stopCh s \<Longrightarrow> sv_store s = Some ts \<Longrightarrow>
    work_step s (s\<lparr>sv_loops := requeue_claimed ts (sv_cfg s) msg (sv_loops s), sv_dispatcher := Some DCloseJobs\<rparr>)"
| close_jobs: "sv_dispatcher s = Some DCloseJobs \<Longrightarrow>
    work_step s (s\<lparr>sv_panic := sv_panic s \<or> sv_jobs s, sv_jobs := True, sv_dispatcher := Some DCloseDone\<rparr>)"
| close_done: "sv_dispatcher s = Some DCloseDone \<Longrightarrow>
    work_step s (s\<lparr>sv_panic := sv_panic s \<or> sv_dispatchDone s, sv_dispatchDone := True, sv_dispatcher := Some DDone\<rparr>)"
| track: "sv_workers s = xs @ WGot msg # ys \<Longrightarrow> trackActive msg (sv_loops s) = (key, l) \<Longrightarrow>
    work_step s (s\<lparr>sv_workers := xs @ WBusy msg key # ys, sv_loops := l\<rparr>)"
| finish: "sv_workers s = xs @ WBusy msg key # ys \<Longrightarrow> sv_store s = Some ts \<Longrightarrow> sv_handler s = Some h \<Longrightarrow>
    work_step s (s\<lparr>sv_workers := xs @ WIdle # ys,
      sv_loops := untrackActive key (process ts (sv_cfg s) h handlerCtx t msg (sv_loops s))\<rparr>)"
| exit: "sv_workers s = xs @ WIdle # ys \<Longrightarrow> sv_jobs s \<Longrightarrow> work_step s (s\<lparr>sv_workers := xs @ WDone # ys\<rparr>)"

text \<open>The timer, the heartbeat and the recovery. A tick may win the select although the context is done.\<close>

inductive maintenance_step :: "'w Server \<Rightarrow> 'w Server \<Rightarrow> bool" where
  fire: "sv_wheel s = Some WheelLoop \<Longrightarrow> sv_armed s = Some deadline \<Longrightarrow> deadline \<le> sv_clock s \<Longrightarrow>
    maintenance_step s (s\<lparr>sv_armed := None, sv_wheel := Some WheelCall\<rparr>)"
| wakeDispatcher: "sv_wheel s = Some WheelCall \<Longrightarrow>
    maintenance_step s (s\<lparr>sv_dispatchWake := True, sv_wheel := Some WheelLoop\<rparr>)"
| wheel_exit: "sv_wheel s = Some WheelLoop \<Longrightarrow> sv_ctx s \<Longrightarrow> maintenance_step s (s\<lparr>sv_wheel := Some WheelDone\<rparr>)"
| heartbeat: "sv_heartbeat s = Some False \<Longrightarrow> sv_store s = Some ts \<Longrightarrow>
    set order = key_queue ` fst ` set (active (sv_loops s)) \<Longrightarrow> distinct order \<Longrightarrow>
    maintenance_step s (s\<lparr>sv_loops := heartbeat_tick ts (sv_cfg s) now order (sv_loops s)\<rparr>)"
| heartbeat_exit: "sv_heartbeat s = Some False \<Longrightarrow> sv_ctx s \<Longrightarrow> maintenance_step s (s\<lparr>sv_heartbeat := Some True\<rparr>)"
| recovery: "sv_recovery s = Some False \<Longrightarrow> sv_store s = Some ts \<Longrightarrow>
    maintenance_step s (s\<lparr>sv_loops := recovery_tick ts (sv_cfg s) now ch (sv_queues s) (sv_loops s)\<rparr>)"
| recovery_exit: "sv_recovery s = Some False \<Longrightarrow> sv_ctx s \<Longrightarrow> maintenance_step s (s\<lparr>sv_recovery := Some True\<rparr>)"

text \<open>The callers: a new call, a call going on, the context of a \<open>Run\<close> done or a signal for it, and time passing.\<close>

inductive caller_step :: "'w Server \<Rightarrow> 'w Server \<Rightarrow> bool" where
  enter: "c \<in> {CallStart, CallStop, CallRun, CallShutdown} \<Longrightarrow> caller_step s (s\<lparr>sv_calls := sv_calls s @ [c]\<rparr>)"
| advance: "sv_calls s = xs @ c # ys \<Longrightarrow> (c', s') \<in> set (call_next c s) \<Longrightarrow>
    caller_step s (s'\<lparr>sv_calls := xs @ c' # ys\<rparr>)"
| interrupt: "sv_calls s = xs @ RunSelect False # ys \<Longrightarrow> caller_step s (s\<lparr>sv_calls := xs @ RunSelect True # ys\<rparr>)"
| tick: "sv_clock s \<le> t \<Longrightarrow> caller_step s (s\<lparr>sv_clock := t\<rparr>)"

definition lifecycle_step :: "'w Server \<Rightarrow> 'w Server \<Rightarrow> bool" where
  "lifecycle_step s t \<longleftrightarrow> work_step s t \<or> maintenance_step s t \<or> caller_step s t"

text \<open>A run from a new server, and a run with the number of steps of the dispatcher and the workers.\<close>

inductive lives :: "'w Server \<Rightarrow> bool" where
  new: "lives (New store handler c w ms now)"
| step: "lives s \<Longrightarrow> lifecycle_step s t \<Longrightarrow> lives t"

inductive works :: "'w Server \<Rightarrow> nat \<Rightarrow> 'w Server \<Rightarrow> bool" for s where
  here: "works s 0 s"
| work: "works s n t \<Longrightarrow> work_step t u \<Longrightarrow> works s (Suc n) u"
| other: "works s n t \<Longrightarrow> maintenance_step t u \<or> caller_step t u \<Longrightarrow> works s n u"

end
