(* ===== verification/LifecycleInvariant.thy ===== *)
theory LifecycleInvariant
  imports Lifecycle
begin

text \<open>
  The invariant of a server's life: how its state, channels, contexts and goroutines go together, and what
  each call in progress may rely on. Every step keeps it.
\<close>

text \<open>The keys of the tasks being worked on.\<close>

primrec busy :: "worker list \<Rightarrow> activeTaskKey set" where
  "busy [] = {}"
| "busy (w # ws) = (case w of WBusy m k \<Rightarrow> insert k (busy ws) | _ \<Rightarrow> busy ws)"

definition ctl_inv :: "'w Server \<Rightarrow> bool" where
  "ctl_inv s \<longleftrightarrow> \<not> sv_panic s
     \<and> (sv_stopCh s \<longleftrightarrow> sv_state s = stateStopped) \<and> (sv_stopOne s \<longleftrightarrow> sv_stopCh s)
     \<and> (sv_handlerCtx s \<longleftrightarrow> sv_stopCh s) \<and> (sv_ctx s \<longrightarrow> sv_stopCh s)
     \<and> (sv_state s = stateNew \<longleftrightarrow> sv_dispatcher s = None)
     \<and> (sv_state s \<noteq> stateNew \<longrightarrow> sv_store s \<noteq> None \<and> sv_handler s \<noteq> None
          \<and> sv_wheel s \<noteq> None \<and> sv_heartbeat s \<noteq> None \<and> sv_recovery s \<noteq> None)"

definition work_inv :: "'w Server \<Rightarrow> bool" where
  "work_inv s \<longleftrightarrow>
     (sv_jobs s \<longleftrightarrow> sv_dispatcher s \<in> {Some DCloseDone, Some DDone})
     \<and> (sv_dispatchDone s \<longleftrightarrow> sv_dispatcher s = Some DDone)
     \<and> (sv_dispatcher s \<in> {Some DCloseJobs, Some DCloseDone, Some DDone} \<longrightarrow> sv_stopCh s)
     \<and> (WDone \<in> set (sv_workers s) \<longrightarrow> sv_jobs s)
     \<and> length (sv_workers s) = (if sv_state s = stateNew then 0 else nat (Concurrency (sv_cfg s)))
     \<and> fst ` set (active (sv_loops s)) \<subseteq> busy (sv_workers s)"

definition maintenance_inv :: "'w Server \<Rightarrow> bool" where
  "maintenance_inv s \<longleftrightarrow>
     (sv_wheel s = Some WheelDone \<longrightarrow> sv_ctx s) \<and> (sv_heartbeat s = Some True \<longrightarrow> sv_ctx s)
     \<and> (sv_recovery s = Some True \<longrightarrow> sv_ctx s)"

fun armed_by :: "gotime \<Rightarrow> waiter \<Rightarrow> bool" where
  "armed_by deadline Entering = True"
| "armed_by deadline (Armed f) = (f \<le> deadline)"

fun call_inv :: "'w Server \<Rightarrow> call \<Rightarrow> bool" where
  "call_inv s StopCancel = sv_stopCh s"
| "call_inv s (RunSelect i) = (sv_state s \<noteq> stateNew)"
| "call_inv s (ShutRequest d) = (sv_state s \<noteq> stateNew)"
| "call_inv s (ShutWork d w p) = (sv_stopCh s \<and> armed_by d w \<and> (p \<noteq> AwaitDispatch \<longrightarrow> sv_dispatchDone s) \<and> (p = Drained \<longrightarrow> work_done s))"
| "call_inv s ShutAbort = sv_stopCh s"
| "call_inv s (ShutCancel d) = (sv_stopCh s \<and> work_done s)"
| "call_inv s (ShutMaintenance d w over) = (sv_ctx s \<and> work_done s \<and> armed_by d w \<and> (over \<longrightarrow> maintenance_done s))"
| "call_inv s (Returned e) = (sv_stopCh s \<and> (e = None \<longrightarrow> sv_ctx s \<and> work_done s \<and> maintenance_done s) \<and> (e \<noteq> None \<longrightarrow> e = Some (shutdown_timeout (sv_cfg s))))"
| "call_inv s _ = True"

text \<open>Somebody has cut the work short.\<close>

definition cut_short :: "'w Server \<Rightarrow> bool" where
  "cut_short s \<longleftrightarrow> StopReturned \<in> set (sv_calls s) \<or> Returned (Some (shutdown_timeout (sv_cfg s))) \<in> set (sv_calls s)"

definition life_inv :: "'w Server \<Rightarrow> bool" where
  "life_inv s \<longleftrightarrow> ctl_inv s \<and> work_inv s \<and> maintenance_inv s \<and> list_all (call_inv s) (sv_calls s)
     \<and> (sv_ctx s \<longrightarrow> work_done s \<or> cut_short s)"

text \<open>What the calls rely on never goes back.\<close>

definition onward :: "'w Server \<Rightarrow> 'w Server \<Rightarrow> bool" where
  "onward s t \<longleftrightarrow> (sv_state s \<noteq> stateNew \<longrightarrow> sv_state t \<noteq> stateNew) \<and> (sv_stopCh s \<longrightarrow> sv_stopCh t)
     \<and> (sv_ctx s \<longrightarrow> sv_ctx t) \<and> (sv_dispatchDone s \<longrightarrow> sv_dispatchDone t)
     \<and> (work_done s \<longrightarrow> work_done t) \<and> (maintenance_done s \<longrightarrow> maintenance_done t) \<and> sv_cfg t = sv_cfg s"


section \<open>Lemmas\<close>

lemma busy_append [simp]: "busy (xs @ ys) = busy xs \<union> busy ys"
  by (induction xs) (simp_all split: worker.split)

lemma busy_idle [simp]: "busy (replicate n WIdle) = {}"
  by (induction n) simp_all

lemma busy_done: "set ws \<subseteq> {WDone} \<Longrightarrow> busy ws = {}"
  by (induction ws) auto

lemmas inv_defs = ctl_inv_def work_inv_def maintenance_inv_def

lemma work_done_alt: "work_inv s \<Longrightarrow> work_done s \<longleftrightarrow> sv_dispatcher s = Some DDone \<and> set (sv_workers s) \<subseteq> {WDone}"
  by (auto simp: work_done_def work_inv_def list_all_iff)

lemma call_inv_onward: "onward s t \<Longrightarrow> call_inv s c \<Longrightarrow> call_inv t c"
  by (cases c) (auto simp: onward_def)

lemma update_keys: "fst ` set (AList.update k v xs) = insert k (fst ` set xs)"
  using dom_update [of k v xs] by (simp add: dom_map_of_conv_image_fst)

lemma delete_keys: "fst ` set (AList.delete k xs) = fst ` set xs - {k}"
  using delete_conv' [of k xs] by (metis dom_fun_upd dom_map_of_conv_image_fst)

lemma track_sel:
  assumes "trackActive msg l = (key, l')"
  shows "key = activeKey msg" and "fst ` set (active l') = insert key (fst ` set (active l))"
proof -
  have *: "key = activeKey msg" "active l' = AList.update (activeKey msg) msg (active l)"
    using assms by (auto simp: trackActive_def)
  show "key = activeKey msg" by (rule *(1))
  show "fst ` set (active l') = insert key (fst ` set (active l))" unfolding * by (rule update_keys)
qed

lemma untrack_sel [simp]: "fst ` set (active (untrackActive key l)) = fst ` set (active l) - {key}"
  by (simp add: untrackActive_def delete_keys)

lemma requeue_active [simp]: "active (requeue_claimed ts c msg l) = active l"
  by (simp add: requeue_claimed_def split: prod.splits option.splits)

lemma heartbeat_tick_active [simp]: "active (heartbeat_tick ts c now order l) = active l"
  by (simp add: heartbeat_tick_def)

lemma round_waits_or_sends:
  assumes "dispatch_round ts c qs now False True l = (r, l')"
  shows "(\<exists>d. r = Waits d) \<or> (\<exists>m. r = Dispatched m)"
  using assms by (auto simp: dispatch_round_def split: prod.splits option.splits bool.splits)

text \<open>The two steps of a round that is stopped while it offers its task are the round of the loops theory.\<close>

lemma stopped_offer:
  "dispatch_round ts c qs now False False l = (case dispatch_round ts c qs now False True l of
     (Dispatched m, l') \<Rightarrow> (StoppedWith m, requeue_claimed ts c m l') | x \<Rightarrow> x)"
proof -
  obtain n e w where m: "ts_MoveReady ts (now 0) 100 qs (world l) = ((n, e), w)" by (metis prod.exhaust)
  obtain p l1 where p: "any_pending ts c qs (l\<lparr>world := w\<rparr>) = (p, l1)" by (metis prod.exhaust)
  obtain a l2 where a: "acquire_token c l1 = (a, l2)" by (metis prod.exhaust)
  obtain x l3 where x: "claim_first ts c (\<lambda>k. now (Suc k)) qs l2 = (x, l3)" by (metis prod.exhaust)
  show ?thesis
    by (cases e; cases p; cases a; cases x)
      (simp_all add: dispatch_round_def m p a x requeue_claimed_def split: prod.split option.split)
qed

text \<open>Steps of the goroutines. What each kind of step leaves alone:\<close>

lemma after_round_sel [simp]:
  "sv_store (after_round r s) = sv_store s" "sv_handler (after_round r s) = sv_handler s" "sv_cfg (after_round r s) = sv_cfg s"
  "sv_state (after_round r s) = sv_state s" "sv_stopCh (after_round r s) = sv_stopCh s" "sv_stopOne (after_round r s) = sv_stopOne s"
  "sv_ctx (after_round r s) = sv_ctx s" "sv_handlerCtx (after_round r s) = sv_handlerCtx s" "sv_wheel (after_round r s) = sv_wheel s"
  "sv_heartbeat (after_round r s) = sv_heartbeat s" "sv_recovery (after_round r s) = sv_recovery s"
  "sv_calls (after_round r s) = sv_calls s" "sv_panic (after_round r s) = sv_panic s" "sv_clock (after_round r s) = sv_clock s"
  "sv_jobs (after_round r s) = sv_jobs s" "sv_dispatchDone (after_round r s) = sv_dispatchDone s"
  "sv_workers (after_round r s) = sv_workers s" "sv_loops (after_round r s) = sv_loops s"
  by (cases r; simp)+

definition control :: "'w Server \<Rightarrow> _" where
  "control s = ((sv_store s, sv_handler s, sv_cfg s), (sv_state s, sv_stopCh s, sv_stopOne s, sv_ctx s, sv_handlerCtx s), sv_calls s)"

definition upkeep :: "'w Server \<Rightarrow> _" where
  "upkeep s = (sv_wheel s, sv_heartbeat s, sv_recovery s)"

definition labour :: "'w Server \<Rightarrow> _" where
  "labour s = (sv_dispatcher s, sv_workers s, sv_jobs s, sv_dispatchDone s, sv_panic s)"

lemma work_frame: "work_step s t \<Longrightarrow> control t = control s \<and> upkeep t = upkeep s \<and> sv_clock t = sv_clock s"
  by (induction rule: work_step.induct) (simp_all add: control_def upkeep_def)

lemma maintenance_frame:
  "maintenance_step s t \<Longrightarrow> control t = control s \<and> labour t = labour s \<and> active (sv_loops t) = active (sv_loops s)"
  by (induction rule: maintenance_step.induct) (simp_all add: control_def labour_def)

lemma after_round_dispatcher:
  assumes "dispatch_round ts c qs now False True l = (r, l')"
  shows "sv_dispatcher (after_round r s) \<in> {Some DWait} \<union> range (\<lambda>m. Some (DSend m))"
  using round_waits_or_sends [OF assms] by auto

lemma worker_started: "ctl_inv s \<Longrightarrow> work_inv s \<Longrightarrow> sv_workers s = xs @ w # ys \<Longrightarrow> \<exists>d. sv_dispatcher s = Some d"
  by (cases "sv_dispatcher s") (simp_all add: inv_defs)

lemma work_inv_step: "work_step s t \<Longrightarrow> ctl_inv s \<Longrightarrow> work_inv s \<Longrightarrow> work_inv t \<and> \<not> sv_panic t \<and> sv_dispatcher t \<noteq> None"
proof (induction rule: work_step.induct)
  case (round s ts now r l)
  have "work_inv s \<Longrightarrow> sv_dispatcher s = Some DRound \<Longrightarrow> sv_dispatcher s' = Some DWait \<or> (\<exists>m. sv_dispatcher s' = Some (DSend m)) \<Longrightarrow>
     sv_state s' = sv_state s \<Longrightarrow> sv_workers s' = sv_workers s \<Longrightarrow> sv_jobs s' = sv_jobs s \<Longrightarrow> sv_cfg s' = sv_cfg s \<Longrightarrow>
     sv_dispatchDone s' = sv_dispatchDone s \<Longrightarrow> active (sv_loops s') = active (sv_loops s) \<Longrightarrow> work_inv s'" for s' :: "'a Server"
    by (simp add: work_inv_def; elim conjE disjE exE; simp)
  then have "work_inv (after_round r (s\<lparr>sv_loops := l\<rparr>))"
    using round dispatch_active [OF round(3)] after_round_dispatcher [OF round(3), of "s\<lparr>sv_loops := l\<rparr>"] by auto
  then show ?case using round(4) after_round_dispatcher [OF round(3), of "s\<lparr>sv_loops := l\<rparr>"] by (auto simp: ctl_inv_def)
next
  case (track s xs msg ys key l)
  have "insert key (fst ` set (active (sv_loops s))) \<subseteq> insert key (busy xs \<union> busy ys)"
    using track(1,4) by (auto simp: work_inv_def)
  moreover obtain d where "sv_dispatcher s = Some d" using worker_started [OF track(3,4,1)] by blast
  ultimately show ?case using track track_sel [OF track(2)] by (simp add: inv_defs; blast)
next
  case (finish s xs msg key ys ts h t)
  have "fst ` set (active (sv_loops s)) - {key} \<subseteq> busy xs \<union> busy ys" using finish(1,5) by (auto simp: work_inv_def)
  moreover obtain d where "sv_dispatcher s = Some d" using worker_started [OF finish(4,5,1)] by blast
  ultimately show ?case using finish by (simp add: inv_defs; blast)
next
  case (exit s xs ys)
  obtain d where "sv_dispatcher s = Some d" using worker_started [OF exit(3,4,1)] by blast
  then show ?case using exit by (simp add: inv_defs; blast)
next
  case (hand_over s msg xs ys)
  then show ?case by (simp add: inv_defs; blast)
qed (simp add: inv_defs; blast?)+

lemma ctl_by_frame:
  assumes "control t = control s" and "ctl_inv s" and "\<not> sv_panic t" and "sv_dispatcher t = None \<longleftrightarrow> sv_dispatcher s = None"
    and "sv_wheel t = None \<longleftrightarrow> sv_wheel s = None" "sv_heartbeat t = None \<longleftrightarrow> sv_heartbeat s = None" "sv_recovery t = None \<longleftrightarrow> sv_recovery s = None"
  shows "ctl_inv t"
  using assms unfolding ctl_inv_def control_def prod.inject by (simp; blast)

lemma work_dispatcher: "work_step s t \<Longrightarrow> ctl_inv s \<Longrightarrow> work_inv s \<Longrightarrow> sv_dispatcher s \<noteq> None"
  by (induction rule: work_step.induct) (simp_all add: worker_started)

lemma work_done_stable: "work_step s t \<Longrightarrow> work_inv s \<Longrightarrow> \<not> work_done s"
  by (induction rule: work_step.induct) (simp_all add: work_done_alt)

lemma work_dispatchDone: "work_step s t \<Longrightarrow> sv_dispatchDone s \<Longrightarrow> sv_dispatchDone t"
  by (induction rule: work_step.induct) simp_all

lemma step_work: "work_step s t \<Longrightarrow> life_inv s \<Longrightarrow> life_inv t \<and> onward s t"
proof -
  assume st: "work_step s t" and inv: "life_inv s"
  then have i: "ctl_inv s" "work_inv s" "maintenance_inv s" by (simp_all add: life_inv_def)
  note f = work_frame [OF st] and w = work_inv_step [OF st i(1,2)]
  have d: "\<not> work_done s" by (rule work_done_stable [OF st i(2)])
  have up: "sv_wheel t = sv_wheel s" "sv_heartbeat t = sv_heartbeat s" "sv_recovery t = sv_recovery s" using f by (simp_all add: upkeep_def)
  have ct: "sv_ctx t = sv_ctx s" "sv_calls t = sv_calls s" "sv_cfg t = sv_cfg s" "sv_state t = sv_state s" "sv_stopCh t = sv_stopCh s"
    using f by (simp_all add: control_def)
  have o: "onward s t"
    using d up ct work_dispatchDone [OF st] by (simp add: onward_def maintenance_done_def)
  have "ctl_inv t" using ctl_by_frame [of t s] f i(1) w work_dispatcher [OF st i(1,2)] up by simp
  moreover have "maintenance_inv t" using i(3) up ct by (simp add: maintenance_inv_def)
  moreover have "list_all (call_inv t) (sv_calls t)"
    using inv call_inv_onward [OF o] unfolding ct(2) life_inv_def list_all_iff by blast
  moreover have "sv_ctx t \<longrightarrow> work_done t \<or> cut_short t" using inv d ct by (simp add: life_inv_def cut_short_def)
  ultimately show ?thesis using w o by (simp add: life_inv_def)
qed

lemma maintenance_upkeep:
  "maintenance_step s t \<Longrightarrow> maintenance_inv s \<Longrightarrow> \<not> maintenance_done s \<and> maintenance_inv t
     \<and> (sv_wheel t = None \<longleftrightarrow> sv_wheel s = None) \<and> (sv_heartbeat t = None \<longleftrightarrow> sv_heartbeat s = None) \<and> (sv_recovery t = None \<longleftrightarrow> sv_recovery s = None)"
  by (induction rule: maintenance_step.induct) (simp_all add: maintenance_inv_def maintenance_done_def)

lemma step_maintenance: "maintenance_step s t \<Longrightarrow> life_inv s \<Longrightarrow> life_inv t \<and> onward s t"
proof -
  assume st: "maintenance_step s t" and inv: "life_inv s"
  then have i: "ctl_inv s" "work_inv s" "maintenance_inv s" by (simp_all add: life_inv_def)
  note f = maintenance_frame [OF st] and u = maintenance_upkeep [OF st i(3)]
  have l: "sv_dispatcher t = sv_dispatcher s" "sv_workers t = sv_workers s" "sv_jobs t = sv_jobs s"
    "sv_dispatchDone t = sv_dispatchDone s" "sv_panic t = sv_panic s" using f by (simp_all add: labour_def)
  have ct: "sv_ctx t = sv_ctx s" "sv_calls t = sv_calls s" "sv_cfg t = sv_cfg s" "sv_state t = sv_state s" "sv_stopCh t = sv_stopCh s"
    using f by (simp_all add: control_def)
  have wd: "work_done t = work_done s" using l by (simp add: work_done_def)
  have o: "onward s t" using u ct l wd by (simp add: onward_def)
  have np: "\<not> sv_panic t" using i(1) l by (simp add: ctl_inv_def)
  have "ctl_inv t" by (rule ctl_by_frame [OF _ i(1) np]) (use f l u in simp_all)
  moreover have "work_inv t" using i(2) l ct f by (simp add: work_inv_def; blast)
  moreover have "list_all (call_inv t) (sv_calls t)"
    using inv call_inv_onward [OF o] unfolding ct(2) life_inv_def list_all_iff by blast
  moreover have "sv_ctx t \<longrightarrow> work_done t \<or> cut_short t" using inv wd ct by (simp add: life_inv_def cut_short_def)
  ultimately show ?thesis using u o by (simp add: life_inv_def)
qed

text \<open>Calls: what \<open>Start\<close>, \<open>requestStop\<close> and \<open>cancel\<close> keep.\<close>

definition core_inv :: "'w Server \<Rightarrow> bool" where
  "core_inv s \<longleftrightarrow> ctl_inv s \<and> work_inv s \<and> maintenance_inv s"

lemma onward_refl [simp]: "onward s s"
  by (simp add: onward_def)

lemma Start_cases:
  obtains (refused) e where "Start s = (Some e, s)"
  | (started) "sv_state s = stateNew" "sv_store s \<noteq> None" "sv_handler s \<noteq> None" "validate (sv_cfg s) = None" "fst (Start s) = None"
  by (cases "sv_state s"; cases "validate (sv_cfg s)"; cases "sv_store s"; cases "sv_handler s") (auto simp: Start_def)

lemma Start_core: "core_inv s \<Longrightarrow> core_inv (snd (Start s)) \<and> onward s (snd (Start s)) \<and> sv_calls (snd (Start s)) = sv_calls s
    \<and> (fst (Start s) = None \<longrightarrow> sv_state (snd (Start s)) \<noteq> stateNew) \<and> (sv_ctx (snd (Start s)) \<longrightarrow> sv_ctx s)"
proof (cases rule: Start_cases [of s])
  case started
  assume c: "core_inv s"
  have n: "\<not> sv_stopOne s" "\<not> sv_stopCh s" "\<not> sv_ctx s" "\<not> sv_panic s" "\<not> sv_dispatchDone s"
    using c started(1) by (auto simp: core_inv_def inv_defs)
  have a: "fst ` set (active (sv_loops s)) = {}" using c started(1) unfolding core_inv_def work_inv_def by fastforce
  have m: "\<not> maintenance_done s" "\<not> work_done s" using c n by (auto simp: core_inv_def maintenance_inv_def maintenance_done_def work_done_def)
  have st: "snd (Start s) = s\<lparr>sv_ctx := False, sv_handlerCtx := False, sv_stopCh := False, sv_dispatchWake := False,
            sv_dispatchDone := False, sv_armed := None, sv_state := stateRunning, sv_jobs := False,
            sv_wheel := Some WheelLoop, sv_dispatcher := Some DHead,
            sv_workers := replicate (nat (Concurrency (sv_cfg s))) WIdle,
            sv_heartbeat := Some False, sv_recovery := Some False\<rparr>"
    using started by (auto simp: Start_def)
  show ?thesis using n a m started by (simp add: st core_inv_def inv_defs onward_def)
qed simp

lemma requestStop_core:
  assumes "core_inv s"
  shows "core_inv (snd (requestStop s)) \<and> onward s (snd (requestStop s)) \<and> sv_calls (snd (requestStop s)) = sv_calls s
    \<and> sv_ctx (snd (requestStop s)) = sv_ctx s \<and> (sv_state s \<noteq> stateNew \<longrightarrow> sv_stopCh (snd (requestStop s)))"
proof (cases "sv_state s")
  case stateRunning
  then have n: "\<not> sv_stopOne s" "\<not> sv_stopCh s" using assms by (simp_all add: core_inv_def ctl_inv_def)
  then have "snd (requestStop s) = s\<lparr>sv_state := stateStopped, sv_stopOne := True, sv_panic := sv_panic s, sv_stopCh := True, sv_handlerCtx := True\<rparr>"
    using stateRunning by (simp add: requestStop_def close_stopCh_def)
  then show ?thesis using assms stateRunning n by (simp add: core_inv_def inv_defs onward_def work_done_def maintenance_done_def; blast)
qed (use assms in \<open>auto simp: requestStop_def core_inv_def ctl_inv_def\<close>)

lemma cancel_core:
  assumes "core_inv s" and "sv_stopCh s"
  shows "core_inv (cancel s) \<and> onward s (cancel s) \<and> sv_calls (cancel s) = sv_calls s"
proof -
  have "ctl_inv (cancel s)" using assms by (simp add: core_inv_def ctl_inv_def cancel_def) force
  moreover have "work_inv (cancel s)" using assms by (simp add: core_inv_def work_inv_def cancel_def; blast)
  moreover have "maintenance_inv (cancel s)" by (simp add: maintenance_inv_def cancel_def)
  moreover have "onward s (cancel s)" by (simp add: onward_def work_done_def maintenance_done_def cancel_def)
  ultimately show ?thesis by (simp add: core_inv_def cancel_def)
qed

text \<open>Every way a call goes on.\<close>

definition proper :: "'w Server \<Rightarrow> call \<Rightarrow> 'w Server \<Rightarrow> bool" where
  "proper s c' s' \<longleftrightarrow> core_inv s' \<and> onward s s' \<and> sv_calls s' = sv_calls s \<and> call_inv s' c'
     \<and> (sv_ctx s' \<longrightarrow> sv_ctx s \<or> work_done s' \<or> c' = StopReturned \<or> c' = Returned (Some (shutdown_timeout (sv_cfg s'))))"

lemma waitUntil_result:
  assumes "r \<in> set (waitUntil w ready deadline now)" and "armed_by deadline w"
  shows "case r of Inl w' \<Rightarrow> armed_by deadline w' | Inr b \<Rightarrow> b \<longrightarrow> ready"
  using assms by (cases w) (auto simp: time_Sub_def Let_def split: if_splits)

lemma ShutWork_proper:
  assumes "core_inv s" "call_inv s (ShutWork dl w p)" "(c', s') \<in> set (call_next (ShutWork dl w p) s)"
  shows "proper s c' s'"
proof -
  consider p' where "p' \<in> set (drain_next p s)" "c' = ShutWork dl w p'" "s' = s"
    | r where "r \<in> set (waitUntil w (p = Drained) dl (sv_clock s))" "s' = s"
        "c' = (case r of Inl w' \<Rightarrow> ShutWork dl w' p | Inr b \<Rightarrow> if b then ShutCancel dl else ShutAbort)"
    using assms(3) by auto
  then show ?thesis
  proof cases
    case 1
    then show ?thesis using assms(1,2) by (cases p) (auto simp: proper_def work_done_def split: if_splits)
  next
    case 2
    then show ?thesis using assms(1,2) waitUntil_result [OF 2(1)] by (auto simp: proper_def split: sum.splits)
  qed
qed

lemma ShutMaintenance_proper:
  assumes "core_inv s" "call_inv s (ShutMaintenance dl w over)" "(c', s') \<in> set (call_next (ShutMaintenance dl w over) s)"
  shows "proper s c' s'"
proof -
  have stop: "sv_stopCh s" using assms(1,2) by (auto simp: core_inv_def ctl_inv_def)
  consider "maintenance_done s" "c' = ShutMaintenance dl w True" "s' = s"
    | r where "r \<in> set (waitUntil w over dl (sv_clock s))" "s' = s"
        "c' = (case r of Inl w' \<Rightarrow> ShutMaintenance dl w' over | Inr b \<Rightarrow> Returned (if b then None else Some (shutdown_timeout (sv_cfg s))))"
    using assms(3) by (auto split: if_splits)
  then show ?thesis
  proof cases
    case 1
    then show ?thesis using assms(1,2) by (auto simp: proper_def)
  next
    case 2
    then show ?thesis using assms(1,2) waitUntil_result [OF 2(1)] stop by (auto simp: proper_def split: sum.splits)
  qed
qed

lemma call_proper:
  assumes "core_inv s" "call_inv s c" "(c', s') \<in> set (call_next c s)"
  shows "proper s c' s'"
proof (cases c)
  case CallStart
  then show ?thesis using assms(3) Start_core [OF assms(1)] by (cases "Start s") (auto simp: proper_def)
next
  case CallRun
  then show ?thesis using assms(3) Start_core [OF assms(1)] by (cases "Start s"; cases "fst (Start s)") (auto simp: proper_def)
next
  case CallStop
  then show ?thesis using assms requestStop_core [OF assms(1)]
    by (cases "requestStop s") (auto simp: proper_def requestStop_def split: if_splits)
next
  case (ShutRequest dl)
  then show ?thesis using assms requestStop_core [OF assms(1)] by (auto simp: proper_def)
next
  case StopCancel
  then show ?thesis using assms cancel_core [OF assms(1)] by (auto simp: proper_def)
next
  case ShutAbort
  then show ?thesis using assms cancel_core [OF assms(1)] by (auto simp: proper_def) (simp_all add: cancel_def)
next
  case (ShutCancel dl)
  then show ?thesis using assms cancel_core [OF assms(1)] by (auto simp: proper_def onward_def) (simp_all add: cancel_def)
next
  case (ShutWork dl w p)
  then show ?thesis using assms ShutWork_proper by blast
next
  case (ShutMaintenance dl w over)
  then show ?thesis using assms ShutMaintenance_proper by blast
qed (use assms in \<open>auto simp: proper_def split: if_splits\<close>)

lemma inv_calls [simp]:
  "ctl_inv (s\<lparr>sv_calls := cs\<rparr>) = ctl_inv s" "work_inv (s\<lparr>sv_calls := cs\<rparr>) = work_inv s"
  "maintenance_inv (s\<lparr>sv_calls := cs\<rparr>) = maintenance_inv s" "work_done (s\<lparr>sv_calls := cs\<rparr>) = work_done s"
  "maintenance_done (s\<lparr>sv_calls := cs\<rparr>) = maintenance_done s"
  by (simp_all add: inv_defs work_done_def maintenance_done_def)

lemma step_advance:
  assumes inv: "life_inv s" and c: "sv_calls s = xs @ c # ys" and n: "(c', s') \<in> set (call_next c s)"
  shows "life_inv (s'\<lparr>sv_calls := xs @ c' # ys\<rparr>) \<and> onward s (s'\<lparr>sv_calls := xs @ c' # ys\<rparr>)"
proof -
  define t where "t = s'\<lparr>sv_calls := xs @ c' # ys\<rparr>"
  have core: "core_inv s" "call_inv s c" using inv c by (simp_all add: life_inv_def core_inv_def)
  have p: "proper s c' s'" by (rule call_proper [OF core n])
  have same: "work_done t = work_done s'" "maintenance_done t = maintenance_done s'" by (simp_all add: t_def)
  have o: "onward s' t" "onward s t" using p same by (simp_all add: t_def onward_def proper_def)
  have "core_inv t" using p by (simp add: proper_def core_inv_def t_def)
  moreover have "list_all (call_inv t) (sv_calls t)"
    using inv c p call_inv_onward [OF o(1)] call_inv_onward [OF o(2)] by (auto simp: t_def life_inv_def proper_def list_all_iff)
  moreover have "work_done t \<or> cut_short t" if "sv_ctx t"
  proof -
    have cfg: "sv_cfg s' = sv_cfg s" using p by (simp add: proper_def onward_def)
    have "c \<noteq> StopReturned" "c \<noteq> Returned e" for e using n by auto
    then have k: "cut_short s \<Longrightarrow> cut_short t" using c by (auto simp: cut_short_def t_def cfg)
    have "sv_ctx s'" using that by (simp add: t_def)
    then consider "sv_ctx s" | "work_done s'" | "c' = StopReturned \<or> c' = Returned (Some (shutdown_timeout (sv_cfg s')))"
      using p by (auto simp: proper_def)
    then show ?thesis
    proof cases
      case 1
      then show ?thesis using inv k o(2) by (auto simp: life_inv_def onward_def)
    next
      case 2
      then show ?thesis using same by simp
    next
      case 3
      then show ?thesis by (auto simp: cut_short_def t_def)
    qed
  qed
  ultimately show ?thesis using o(2) unfolding t_def [symmetric] by (simp add: life_inv_def core_inv_def)
qed

lemma step_calls:
  assumes inv: "life_inv s" and new: "\<And>c. c \<in> set cs \<Longrightarrow> c \<in> set (sv_calls s) \<or> call_inv s c"
    and old: "\<And>c. c = StopReturned \<or> (\<exists>e. c = Returned e) \<Longrightarrow> c \<in> set (sv_calls s) \<Longrightarrow> c \<in> set cs"
  shows "life_inv (s\<lparr>sv_calls := cs\<rparr>) \<and> onward s (s\<lparr>sv_calls := cs\<rparr>)"
proof -
  have o: "onward s (s\<lparr>sv_calls := cs\<rparr>)" by (simp add: onward_def)
  have "list_all (call_inv (s\<lparr>sv_calls := cs\<rparr>)) cs"
    using inv new call_inv_onward [OF o] unfolding life_inv_def list_all_iff by blast
  moreover have "cut_short s \<Longrightarrow> cut_short (s\<lparr>sv_calls := cs\<rparr>)" using old by (auto simp: cut_short_def)
  ultimately show ?thesis using inv o by (auto simp: life_inv_def)
qed

lemma step_tick: "life_inv s \<Longrightarrow> life_inv (s\<lparr>sv_clock := t\<rparr>) \<and> onward s (s\<lparr>sv_clock := t\<rparr>)"
proof -
  assume inv: "life_inv s"
  have o: "onward s (s\<lparr>sv_clock := t\<rparr>)" by (simp add: onward_def work_done_def maintenance_done_def)
  have "ctl_inv (s\<lparr>sv_clock := t\<rparr>) = ctl_inv s" "work_inv (s\<lparr>sv_clock := t\<rparr>) = work_inv s" "maintenance_inv (s\<lparr>sv_clock := t\<rparr>) = maintenance_inv s"
    "work_done (s\<lparr>sv_clock := t\<rparr>) = work_done s" "cut_short (s\<lparr>sv_clock := t\<rparr>) = cut_short s"
    by (simp_all add: inv_defs work_done_def cut_short_def)
  moreover have "list_all (call_inv (s\<lparr>sv_clock := t\<rparr>)) (sv_calls s)"
    using inv call_inv_onward [OF o] unfolding life_inv_def list_all_iff by blast
  ultimately show ?thesis using inv o by (simp add: life_inv_def)
qed

lemma step_caller: "caller_step s t \<Longrightarrow> life_inv s \<Longrightarrow> life_inv t \<and> onward s t"
proof (induction rule: caller_step.induct)
  case (enter c s)
  then show ?case by (intro step_calls) auto
next
  case (advance s xs c ys c' s')
  then show ?case by (intro step_advance) auto
next
  case (interrupt s xs ys)
  then have "sv_state s \<noteq> stateNew" by (simp add: life_inv_def)
  with interrupt show ?case by (intro step_calls) auto
next
  case (tick s t)
  then show ?case by (intro step_tick)
qed

lemma step_life: "lifecycle_step s t \<Longrightarrow> life_inv s \<Longrightarrow> life_inv t \<and> onward s t"
  unfolding lifecycle_step_def using step_work step_maintenance step_caller by blast

lemma lives_inv: "lives s \<Longrightarrow> life_inv s"
proof (induction rule: lives.induct)
  case (new store handler c w ms now)
  show ?case by (simp add: New_def Let_def life_inv_def inv_defs)
next
  case (step s t)
  then show ?case using step_life by blast
qed

end
