(* ===== verification/ServerExact.thy ===== *)
theory ServerExact
  imports ServerSpec
begin

text \<open>
  The exact outcome of the server's loops on a store that answers every request and that nobody else
  disturbs: what becomes of a job, of the tasks whose leases have expired, and of one dispatcher round.
\<close>

text \<open>What a job turns its message into, given the handler's error.\<close>

definition outcome :: "gerr option \<Rightarrow> gotime \<Rightarrow> TaskMessage \<Rightarrow> TaskMessage" where
  "outcome err now m = (case err of
     None \<Rightarrow> completed_at now m
   | Some e \<Rightarrow>
       if errors_Is e ErrNonRetryable \<or> RetryCount m \<ge> MaxRetry m then archived_for (error_text e) m
       else retried_at now (error_text e) (m\<lparr>RetryCount := wrap64 (RetryCount m + 1)\<rparr>))"

text \<open>What a job counts: the failure, and the transition if the store made it.\<close>

definition counted :: "gerr option \<Rightarrow> TaskMessage \<Rightarrow> bool \<Rightarrow> Metrics option \<Rightarrow> Metrics option" where
  "counted err m made M = (case err of
     None \<Rightarrow> if made then RecordProcessed M else M
   | Some e \<Rightarrow>
       let M = RecordFailed M in
       if \<not> made then M
       else if errors_Is e ErrNonRetryable \<or> RetryCount m \<ge> MaxRetry m then RecordArchived M
       else RecordRetried M)"

text \<open>What recovery turns a task with an expired lease into.\<close>

definition recovered :: "gotime \<Rightarrow> TaskMessage \<Rightarrow> TaskMessage" where
  "recovered now t =
     (if RetryCount t \<ge> MaxRetry t then archived_for lease_expired t
      else retried_at now lease_expired (t\<lparr>RetryCount := wrap64 (RetryCount t + 1)\<rparr>))"

text \<open>The tasks of a queue after some of them were recovered.\<close>

definition recovered_all :: "string \<Rightarrow> string set \<Rightarrow> tmap \<Rightarrow> tmap \<Rightarrow> bool" where
  "recovered_all q ids T T' \<longleftrightarrow> (\<forall>q' i. if q' = q \<and> i \<in> ids
     then \<exists>t now. T q i = Some t \<and> T' q i = Some (recovered now t) else T' q' i = T q' i)"

text \<open>A limiter that leaves the tasks and the calm of the store alone.\<close>

definition quiet :: "('w \<Rightarrow> bool) \<Rightarrow> ('w \<Rightarrow> bool) \<Rightarrow> ('w \<Rightarrow> tmap) \<Rightarrow> 'w Config \<Rightarrow> bool" where
  "quiet ok sure held c \<longleftrightarrow> (\<forall>l x w. TokenBucket c = Some l \<longrightarrow> ok w \<longrightarrow> sure w \<longrightarrow>
     ok (snd (lim_Acquire l x w)) \<and> sure (snd (lim_Acquire l x w)) \<and> held (snd (lim_Acquire l x w)) = held w)"


section \<open>Lemmas\<close>

lemma owns_retry [simp]: "owns T (m\<lparr>RetryCount := n\<rparr>) = owns T m"
  by (simp add: owns_def)

lemma Marshal_RetryCount [simp]: "Marshal (m\<lparr>RetryCount := n\<rparr>) = None \<longleftrightarrow> Marshal m = None"
  by (simp add: Marshal_def)

lemma put_same: "put m T (Queue m) (ID m) = Some m"
  by (simp add: put_def)

lemma claims_active: "claims T q m T' \<Longrightarrow> State m = StateActive"
proof -
  assume "claims T q m T'"
  then obtain t where "m = t\<lparr>State := StateActive, AttemptID := AttemptID m\<rparr>" by (auto simp only: claims_def)
  then have "State m = State (t\<lparr>State := StateActive, AttemptID := AttemptID m\<rparr>)" by (rule arg_cong)
  then show ?thesis by simp
qed

context reliable_store
begin

lemma process_sure:
  assumes w: "ok (world s)" "sure (world s)" and h: "handler (handler_context hctx (at_timeout t) msg) msg = (err, m)"
    and m: "named (Queue m)" "Marshal m \<noteq> None"
  shows "\<exists>now. held (world (process ts c handler hctx t msg s)) =
       (if owns (held (world s)) m then put (outcome err now m) (held (world s)) else held (world s))"
    and "metrics (process ts c handler hctx t msg s) =
       RecordDuration (time_Sub (at_end t) (at_start t)) (counted err m (owns (held (world s)) m) (metrics s))"
    and "errors (process ts c handler hctx t msg s) =
       errors s @ (if owns (held (world s)) m \<or> \<not> HasErrorHandler c then [] else [ErrInvalidTransition])"
    and "ok (world (process ts c handler hctx t msg s)) \<and> sure (world (process ts c handler hctx t msg s))"
proof -
  let ?r = "m\<lparr>RetryCount := wrap64 (RetryCount m + 1)\<rparr>" and ?T = "held (world s)"
  have mr: "named (Queue ?r)" "Marshal ?r \<noteq> None" using m by simp_all
  define call where "call = (case err of
      None \<Rightarrow> ts_AckSuccess ts m (world s)
    | Some e \<Rightarrow> if errors_Is e ErrNonRetryable \<or> RetryCount m \<ge> MaxRetry m then ts_Archive ts (error_text e) m (world s)
        else ts_ScheduleRetry ts (at_failure t + retry_delay c (luck t) (RetryCount m)) (error_text e) ?r (world s))"
  obtain e m' w' where call: "call = ((e, m'), w')" by (metis prod.exhaust)
  have c: "ok w' \<and> sure w' \<and> (\<exists>now. ended_surely ?T m (outcome err now m) e (held w'))"
  proof (cases err)
    case None
    then have x: "ts_AckSuccess ts m (world s) = ((e, m'), w')" using call by (simp add: call_def)
    from ack [OF w(1) m(1) x] ack_sure [OF w m x] None show ?thesis by (auto simp: outcome_def)
  next
    case (Some f)
    show ?thesis
    proof (cases "errors_Is f ErrNonRetryable \<or> RetryCount m \<ge> MaxRetry m")
      case True
      then have x: "ts_Archive ts (error_text f) m (world s) = ((e, m'), w')" using call Some by (simp add: call_def)
      from archive [OF w(1) m(1) x] archive_sure [OF w m x] Some True show ?thesis by (auto simp: outcome_def)
    next
      case False
      then have x: "ts_ScheduleRetry ts (at_failure t + retry_delay c (luck t) (RetryCount m)) (error_text f) ?r (world s)
          = ((e, m'), w')" using call Some by (simp add: call_def)
      from retry [OF w(1) mr(1) x] retry_sure [OF w mr x] Some False show ?thesis
        by (auto simp: outcome_def ended_surely_def)
    qed
  qed
  have p: "world (process ts c handler hctx t msg s) = w'"
    "metrics (process ts c handler hctx t msg s) =
       RecordDuration (time_Sub (at_end t) (at_start t)) (counted err m (e = None) (metrics s))"
    "errors (process ts c handler hctx t msg s) = errors s @ (case e of Some x \<Rightarrow> if HasErrorHandler c then [x] else [] | None \<Rightarrow> [])"
    using call by (cases err; cases "errors_Is (the err) ErrNonRetryable \<or> RetryCount m \<ge> MaxRetry m";
      simp add: process_def h call_def counted_def Let_def)+
  show "\<exists>now. held (world (process ts c handler hctx t msg s)) = (if owns ?T m then put (outcome err now m) ?T else ?T)"
    using c p(1) by (auto simp: ended_surely_def)
  have e: "e = (if owns ?T m then None else Some ErrInvalidTransition)" using c by (auto simp: ended_surely_def)
  show "metrics (process ts c handler hctx t msg s) =
       RecordDuration (time_Sub (at_end t) (at_start t)) (counted err m (owns ?T m) (metrics s))"
    and "errors (process ts c handler hctx t msg s) =
       errors s @ (if owns ?T m \<or> \<not> HasErrorHandler c then [] else [ErrInvalidTransition])"
    unfolding p(2,3) e by simp_all
  show "ok (world (process ts c handler hctx t msg s)) \<and> sure (world (process ts c handler hctx t msg s))" using c p(1) by simp
qed

lemma ended_surely_put:
  "ended_surely T m x e T' \<Longrightarrow> owns T m \<Longrightarrow> e = None \<and> T' = put x T"
  by (simp add: ended_surely_def)

lemma recover_task_sure:
  assumes w: "ok (world s)" "sure (world s)" "named q"
    and t: "held (world s) q i = Some t" "State t = StateActive" "Marshal t \<noteq> None"
  shows "\<exists>now'. held (world (recover_task ts c now ch q i s)) = put (recovered now' t) (held (world s))"
    and "ok (world (recover_task ts c now ch q i s)) \<and> sure (world (recover_task ts c now ch q i s))"
proof -
  let ?r = "t\<lparr>RetryCount := wrap64 (RetryCount t + 1)\<rparr>"
  obtain g w' where g0: "ts_Get ts q i (world s) = (g, w')" by (metis prod.exhaust)
  from get_sure [OF w g0] t(1) have g1: "g = Inr t" "sure w'" "held w' = held (world s)" by simp_all
  from get [OF w(1,3) g0] g0 g1 have g: "ts_Get ts q i (world s) = (Inr t, w')" "ok w'" "sure w'" "held w' = held (world s)"
    by simp_all
  have l: "Queue t = q" "ID t = i" using located [OF w(1) t(1)] by auto
  have o: "owns (held w') t" using t l g(4) by (simp add: owns_def)
  have n: "named (Queue t)" "named (Queue ?r)" "Marshal ?r \<noteq> None" using w(3) l t(3) by simp_all
  have "(\<exists>now'. held (world (recover_task ts c now ch q i s)) = put (recovered now' t) (held w'))
    \<and> ok (world (recover_task ts c now ch q i s)) \<and> sure (world (recover_task ts c now ch q i s))"
  proof (cases "RetryCount t \<ge> MaxRetry t")
    case True
    obtain e m' w2 where x: "ts_Archive ts lease_expired t w' = ((e, m'), w2)" by (metis prod.exhaust)
    have "ok w2" "sure w2" "held w2 = put (archived_for lease_expired t) (held w')"
      using archive [OF g(2) n(1) x] archive_sure [OF g(2,3) n(1) t(3) x] ended_surely_put [OF _ o] by blast+
    then show ?thesis using True t(2) by (simp add: recover_task_def g(1) x recovered_def)
  next
    case False
    define at_time where "at_time = now + retry_delay c ch (wrap64 (RetryCount ?r - 1))"
    obtain e m' w2 where x: "ts_ScheduleRetry ts at_time lease_expired ?r w' = ((e, m'), w2)" by (metis prod.exhaust)
    have "world (recover_task ts c now ch q i s) = w2"
      using False t(2) x [unfolded at_time_def] by (simp add: recover_task_def g(1) Let_def)
    moreover obtain now' where "held w2 = put (retried_at now' lease_expired ?r) (held w')"
      using retry_sure [OF g(2,3) n(2,3) x] ended_surely_put [of "held w'" ?r] o by auto
    moreover have "ok w2" "sure w2" using retry [OF g(2) n(2) x] retry_sure [OF g(2,3) n(2,3) x] by blast+
    ultimately show ?thesis using False by (auto simp: recovered_def)
  qed
  then show "\<exists>now'. held (world (recover_task ts c now ch q i s)) = put (recovered now' t) (held (world s))"
    and "ok (world (recover_task ts c now ch q i s)) \<and> sure (world (recover_task ts c now ch q i s))"
    using g(4) by simp_all
qed

lemma recover_ids_sure:
  assumes "ok (world s)" "sure (world s)" "named q" and "distinct ids"
    and "\<And>i. i \<in> set ids \<Longrightarrow> \<exists>t. held (world s) q i = Some t \<and> State t = StateActive \<and> Marshal t \<noteq> None"
  shows "recovered_all q (set ids) (held (world s)) (held (world (recover_ids ts c now ch q ids s)))
    \<and> ok (world (recover_ids ts c now ch q ids s)) \<and> sure (world (recover_ids ts c now ch q ids s))"
  using assms
proof (induction ids arbitrary: s ch)
  case Nil
  then show ?case by (simp add: recovered_all_def)
next
  case (Cons i ids)
  from Cons.prems(5) [of i] obtain t where t: "held (world s) q i = Some t" "State t = StateActive" "Marshal t \<noteq> None"
    by (metis list.set_intros(1))
  define s1 where "s1 = recover_task ts c now (ch 0) q i s"
  obtain now' where n: "held (world s1) = put (recovered now' t) (held (world s))"
    using recover_task_sure(1) [OF Cons.prems(1-3) t] s1_def by blast
  have k: "ok (world s1)" "sure (world s1)" using recover_task_sure(2) [OF Cons.prems(1-3) t] s1_def by simp_all
  have "Queue (recovered now' t) = q" "ID (recovered now' t) = i"
    using located [OF Cons.prems(1) t(1)] by (simp_all add: recovered_def archived_for_def retried_at_def)
  then have h: "held (world s1) q' j = (if q' = q \<and> j = i then Some (recovered now' t) else held (world s) q' j)" for q' j
    by (simp add: n put_def)
  have "\<exists>t. held (world s1) q j = Some t \<and> State t = StateActive \<and> Marshal t \<noteq> None" if "j \<in> set ids" for j
    using Cons.prems(4,5) that by (auto simp: h)
  from Cons.IH [OF k Cons.prems(3) _ this, of "\<lambda>k. ch (Suc k)"] Cons.prems(4)
  have r: "recovered_all q (set ids) (held (world s1)) (held (world (recover_ids ts c now ch q (i # ids) s)))"
    and k': "ok (world (recover_ids ts c now ch q (i # ids) s))" "sure (world (recover_ids ts c now ch q (i # ids) s))"
    by (simp_all add: s1_def)
  have "recovered_all q (set (i # ids)) (held (world s)) (held (world (recover_ids ts c now ch q (i # ids) s)))"
    unfolding recovered_all_def
  proof (intro allI)
    fix q' j
    from r [unfolded recovered_all_def, rule_format, of q' j] t(1) Cons.prems(4)
    show "if q' = q \<and> j \<in> set (i # ids)
       then \<exists>t n. held (world s) q j = Some t \<and>
         held (world (recover_ids ts c now ch q (i # ids) s)) q j = Some (recovered n t)
       else held (world (recover_ids ts c now ch q (i # ids) s)) q' j = held (world s) q' j"
      by (auto simp: h split: if_splits simp del: recover_ids.simps)
  qed
  with k' show ?case by blast
qed

lemma recovery_tick_sure:
  assumes w: "ok (world s)" "sure (world s)" "named q"
    and m: "\<And>i t. held (world s) q i = Some t \<Longrightarrow> Marshal t \<noteq> None"
  shows "recovered_all q (set (expired_ids (world s) now q)) (held (world s)) (held (world (recovery_tick ts c now ch [q] s)))"
proof -
  obtain r w' where r: "ts_ExpiredIDs ts now q 100 (world s) = (r, w')" by (metis prod.exhaust)
  from expired [OF w(1,3) r] expired_sure [OF w r] r
  have x: "ts_ExpiredIDs ts now q 100 (world s) = (Inr (expired_ids (world s) now q), w')" "ok w'" "sure w'"
    "held w' = held (world s)" by simp_all
  have "\<exists>t. held w' q i = Some t \<and> State t = StateActive \<and> Marshal t \<noteq> None" if "i \<in> set (expired_ids (world s) now q)" for i
    using expired_active [OF w(1,3) that] m x(4) by auto
  with recover_ids_sure [of "s\<lparr>world := w'\<rparr>" q "expired_ids (world s) now q"] x w(3) expired_distinct [OF w(1,3)]
  show ?thesis by simp
qed

lemma any_pending_sure:
  assumes "ok (world s)" "sure (world s)" "list_all named qs" and "any_pending ts c qs s = (p, s')"
  shows "p = (\<exists>q \<in> set qs. has_pending (held (world s)) q) \<and> ok (world s') \<and> sure (world s') \<and> held (world s') = held (world s)"
  using assms
proof (induction qs arbitrary: s)
  case (Cons q qs)
  have n: "named q" "list_all named qs" using Cons.prems(3) by simp_all
  obtain r w where x: "ts_PendingCount ts q (world s) = (r, w)" by (metis prod.exhaust)
  from pending_sure [OF Cons.prems(1,2) n(1) x] pending [OF Cons.prems(1) n(1) x]
  obtain k where k: "ok w" "sure w" "held w = held (world s)" "r = Inr k" "0 < k \<longleftrightarrow> has_pending (held (world s)) q" by auto
  show ?case
  proof (cases "0 < k")
    case True
    then show ?thesis using Cons.prems(4) k x by auto
  next
    case False
    then have a: "any_pending ts c qs (s\<lparr>world := w\<rparr>) = (p, s')" using Cons.prems(4) k x by simp
    from Cons.IH [of "s\<lparr>world := w\<rparr>"] k n a False show ?thesis by simp
  qed
qed simp

lemma claim_first_sure:
  assumes "ok (world s)" "sure (world s)" "list_all named qs" and "claim_first ts c now qs s = (r, s')"
  shows "ok (world s') \<and> sure (world s') \<and>
    (case find (has_pending (held (world s))) qs of
       None \<Rightarrow> r = None \<and> held (world s') = held (world s)
     | Some q \<Rightarrow> \<exists>m. r = Some m \<and> claims (held (world s)) q m (held (world s')))"
  using assms
proof (induction qs arbitrary: s now)
  case (Cons q qs)
  have n: "named q" "list_all named qs" using Cons.prems(3) by simp_all
  obtain x w where x: "ts_Claim ts q (now 0) (LeaseDuration c) (world s) = (x, w)" by (metis prod.exhaust)
  note cl = claim_sure [OF Cons.prems(1,2) n(1) x] claim [OF Cons.prems(1) n(1) x]
  show ?case
  proof (cases "has_pending (held (world s)) q")
    case True
    then show ?thesis using Cons.prems(4) x cl by auto
  next
    case False
    then have f: "claim_first ts c (\<lambda>k. now (Suc k)) qs (s\<lparr>world := w\<rparr>) = (r, s')" using cl(1) Cons.prems(4) x by simp
    have w: "ok w" "sure w" "held w = held (world s)" using cl False by simp_all
    from Cons.IH [of "s\<lparr>world := w\<rparr>", OF _ _ n(2) f] w False show ?thesis by (simp split: option.splits)
  qed
qed simp

lemma acquire_sure:
  assumes "ok (world s)" "sure (world s)" and "quiet ok sure held c" and "acquire_token c s = (a, s')"
  shows "ok (world s') \<and> sure (world s') \<and> held (world s') = held (world s)"
proof (cases "TokenBucket c")
  case None
  then show ?thesis using assms by (simp add: acquire_token_def)
next
  case (Some l)
  obtain r w where l: "lim_Acquire l (TokenAmount c) (world s) = (r, w)" by (metis prod.exhaust)
  have "ok w \<and> sure w \<and> held w = held (world s)"
    using assms(3) [unfolded quiet_def, rule_format, OF Some assms(1,2), of "TokenAmount c"] by (simp add: l)
  then show ?thesis using assms(4) by (cases r) (auto simp: acquire_token_def Some l)
qed

lemma dispatch_sure:
  assumes w: "ok (world s)" "sure (world s)" and qs: "list_all named qs" and "quiet ok sure held c"
    and d: "dispatch_round ts c qs now False taken s = (r, s')"
  shows "\<exists>s1. readied (held (world s)) (held (world s1)) \<and>
    (case find (has_pending (held (world s1))) qs of
       None \<Rightarrow> r = Waits (PollInterval c) \<and> held (world s') = held (world s1)
     | Some q \<Rightarrow> (case fst (acquire_token c s1) of
         Some d \<Rightarrow> r = Waits d \<and> held (world s') = held (world s1)
       | None \<Rightarrow> \<exists>m T. claims (held (world s1)) q m T \<and>
           (if taken then r = Dispatched m \<and> held (world s') = T
            else r = StoppedWith m \<and> held (world s') = put (pending_again m) T)))"
proof -
  obtain k w1 where m: "ts_MoveReady ts (now 0) 100 qs (world s) = (k, w1)" by (metis prod.exhaust)
  note mv = move [OF w(1) qs m] move_sure [OF w qs m]
  obtain p s1 where p: "any_pending ts c qs (s\<lparr>world := w1\<rparr>) = (p, s1)" by (metis prod.exhaust)
  have s1: "p = (\<exists>q \<in> set qs. has_pending (held w1) q)" "ok (world s1)" "sure (world s1)" "held (world s1) = held w1"
    using any_pending_sure [OF _ _ qs p] mv by auto
  obtain a s2 where a: "acquire_token c s1 = (a, s2)" by (metis prod.exhaust)
  note s2 = acquire_sure [OF s1(2,3) assms(4) a]
  obtain x s3 where x: "claim_first ts c (\<lambda>k. now (Suc k)) qs s2 = (x, s3)" by (metis prod.exhaust)
  have s3: "ok (world s3)" "sure (world s3)" "case find (has_pending (held (world s1))) qs of
       None \<Rightarrow> x = None \<and> held (world s3) = held (world s1)
     | Some q \<Rightarrow> \<exists>m. x = Some m \<and> claims (held (world s1)) q m (held (world s3))"
    using claim_first_sure [OF _ _ qs x] s2 by (simp_all split: option.splits)
  obtain n where k: "k = (n, None)" using mv by (cases k) simp
  have round: "dispatch_round ts c qs now False taken s =
    (if \<not> p then (Waits (PollInterval c), s1)
     else case a of Some d \<Rightarrow> (Waits d, s2)
     | None \<Rightarrow> (case x of None \<Rightarrow> (Waits (PollInterval c), s3)
       | Some msg \<Rightarrow> if taken then (Dispatched msg, s3)
           else (case ts_Requeue ts msg (world s3) of
                  ((Some e, _), w) \<Rightarrow> (StoppedWith msg, reportError c e (s3\<lparr>world := w\<rparr>))
                | ((None, _), w) \<Rightarrow> (StoppedWith msg, s3\<lparr>world := w\<rparr>))))"
    by (simp add: dispatch_round_def m k p a x split: option.splits)
  have rd: "readied (held (world s)) (held (world s1))" using mv s1(4) by simp
  show ?thesis
  proof (cases "find (has_pending (held (world s1))) qs")
    case None
    then have "\<not> p" using s1(1,4) by (simp add: find_None_iff)
    with None rd d round show ?thesis by (intro exI [of _ s1]) simp
  next
    case (Some q)
    then have q: "p" "q \<in> set qs" using s1(1,4) by (auto simp: find_Some_iff)
    show ?thesis
    proof (cases a)
      case (Some da)
      then have "r = Waits da" "s' = s2" using d round q(1) by simp_all
      with Some \<open>find _ qs = Some q\<close> rd s2 a show ?thesis by (intro exI [of _ s1]) simp
    next
      case None
      obtain msg where msg: "x = Some msg" "claims (held (world s1)) q msg (held (world s3))" using s3(3) Some by auto
      obtain e m' w' where rq: "ts_Requeue ts msg (world s3) = ((e, m'), w')" by (metis prod.exhaust)
      have nm: "named (Queue msg)" using msg(2) q(2) qs by (simp add: claims_def list_all_iff)
      have h3: "held (world s3) = put msg (held (world s1))" using msg(2) by (simp add: claims_def)
      have act: "State msg = StateActive" by (rule claims_active [OF msg(2)])
      have o: "owns (held (world s3)) msg" using h3 act by (simp add: owns_def put_same)
      have "held w' = put (pending_again msg) (held (world s3))"
        using requeue_sure [OF s3(1,2) nm rq] o h3 by (simp add: put_same ended_surely_def)
      then have "(r, held (world s')) = (if taken then (Dispatched msg, held (world s3))
          else (StoppedWith msg, put (pending_again msg) (held (world s3))))"
        using d [unfolded round] q(1) None msg(1) rq by (cases taken; cases e) auto
      with Some None rd a msg(2) show ?thesis by (intro exI [of _ s1]) (auto split: if_splits)
    qed
  qed
qed

end

end
