(* ===== verification/RedisContract.thy ===== *)
theory RedisContract
  imports ServerExact StoreMaintenance
begin

text \<open>
  The Redis store keeps the contract of \<open>TaskStore\<close>: on any server that behaves as documented, under
  interference that keeps the store well formed, whatever becomes of the requests; and it is a reliable
  store for a caller whose requests are answered and whom nobody disturbs.
\<close>

text \<open>The durable tasks of the queues with proper names.\<close>

definition held_tasks :: "keyspace \<Rightarrow> tmap" where
  "held_tasks ks q = (if queue_name_ok q then tasks ks q else (\<lambda>_. None))"

definition durable :: "('db \<Rightarrow> keyspace) \<Rightarrow> 'db world \<Rightarrow> tmap" where
  "durable view w = held_tasks (view (w_db w))"

text \<open>A well-formed store among clients that keep it so and act within \<open>R\<close>.\<close>

definition fair :: "('db \<Rightarrow> keyspace) \<Rightarrow> (tmap \<Rightarrow> tmap \<Rightarrow> bool) \<Rightarrow> 'db world \<Rightarrow> bool" where
  "fair view R w \<longleftrightarrow> store_ok (view (w_db w)) \<and> (\<forall>n d. store_ok (view d) \<longrightarrow>
     store_ok (view (fst (w_wires w n) d)) \<and> R (held_tasks (view d)) (held_tasks (view (fst (w_wires w n) d))))"

text \<open>Every request is answered, nobody else acts, random bytes are to be had, and the clock shows a year JSON can hold.\<close>

definition calm :: "'db world \<Rightarrow> bool" where
  "calm w \<longleftrightarrow> (\<forall>n. w_wires w n = direct \<and> (\<exists>bytes. w_entropy w n = Inr bytes) \<and> time_marshals (w_clock w n))"

text \<open>The tasks whose lease has expired, earliest first, at most 100.\<close>

definition lease_ids :: "('db \<Rightarrow> keyspace) \<Rightarrow> 'db world \<Rightarrow> gotime \<Rightarrow> string \<Rightarrow> string list" where
  "lease_ids view w now q = take 100 (due (UnixMilli now) (q_lease (queue_view q (view (w_db w)))))"


section \<open>Lemmas\<close>

lemma owns_held: "queue_name_ok (Queue m) \<Longrightarrow> owns (held_tasks ks) m \<longleftrightarrow> owner ks (Queue m) (ID m) = Some (AttemptID m)"
  by (auto simp: owns_def held_tasks_def owner_def split: option.splits)

lemma held_put:
  assumes "queue_name_ok (Queue x)" and "tasks ks' (Queue x) = (tasks ks (Queue x))(ID x \<mapsto> x)"
    and "\<And>q. queue_name_ok q \<Longrightarrow> q \<noteq> Queue x \<Longrightarrow> tasks ks' q = tasks ks q"
  shows "held_tasks ks' = put x (held_tasks ks)"
  using assms by (auto simp: held_tasks_def put_def fun_eq_iff)

lemma held_same:
  assumes "tasks ks' q = tasks ks q" and "\<And>q'. queue_name_ok q' \<Longrightarrow> q' \<noteq> q \<Longrightarrow> tasks ks' q' = tasks ks q'"
  shows "held_tasks ks' = held_tasks ks"
  using assms by (auto simp: held_tasks_def fun_eq_iff)

lemma untouched_tasks: "untouched q ks ks' \<Longrightarrow> tasks ks' q = tasks ks q"
  by (simp add: untouched_def becomes_def tasks_fun)

lemma located_tasks: "store_ok ks \<Longrightarrow> held_tasks ks q i = Some t \<Longrightarrow> Queue t = q \<and> ID t = i"
proof -
  assume ok: "store_ok ks" and h: "held_tasks ks q i = Some t"
  then have q: "queue_name_ok q" "q_lookup (queue_view q ks) i = Some t"
    by (auto simp: held_tasks_def tasks_def split: if_splits)
  from store_okD [OF ok q(1)] have "qinv q (queue_view q ks)" by blast
  from q_lookup_reads [OF this q(2)] obtain h where "reads q i h t" .
  then show ?thesis unfolding reads_def by blast
qed

lemma held_named: "queue_name_ok q \<Longrightarrow> held_tasks ks q = tasks ks q"
  by (simp add: held_tasks_def)

lemma owned_located:
  assumes ok: "store_ok ks" "queue_name_ok q" and o: "owner ks q i = Some a"
  shows "Queue (the (tasks ks q i)) = q \<and> ID (the (tasks ks q i)) = i"
proof -
  from o obtain t where t: "tasks ks q i = Some t" by (auto simp: owner_def split: option.splits)
  then have "held_tasks ks q i = Some t" by (simp add: held_named [OF ok(2)])
  from located_tasks [OF ok(1) this] t show ?thesis by simp
qed

lemma readied_refl [simp]: "readied T T"
  by (simp add: readied_def)

lemma readied_trans: "readied T T' \<Longrightarrow> readied T' T'' \<Longrightarrow> readied T T''"
proof -
  assume a: "readied T T'" and b: "readied T' T''"
  show ?thesis unfolding readied_def
  proof (intro allI)
    fix q i
    note ab = a [unfolded readied_def, rule_format, of q i] b [unfolded readied_def, rule_format, of q i]
    show "T'' q i = T q i \<or>
      (\<exists>t. T q i = Some t \<and> State t \<in> {StateScheduled, StateRetry} \<and> T'' q i = Some (pending_again t))"
    proof (cases "T' q i = T q i")
      case True
      with ab(2) show ?thesis by simp
    next
      case False
      with ab(1) obtain t where t: "T q i = Some t" "State t \<in> {StateScheduled, StateRetry}" "T' q i = Some (pending_again t)"
        by blast
      then have "T'' q i = T' q i" using ab(2) by (auto simp: pending_again_def)
      with t show ?thesis by simp
    qed
  qed
qed

lemma fair_start:
  "fair view R w \<Longrightarrow> store_ok (view (fst (w_wires w 0) (w_db w)))
     \<and> R (durable view w) (held_tasks (view (fst (w_wires w 0) (w_db w))))"
  by (simp add: fair_def durable_def)

lemma fair_next:
  "fair view R w \<Longrightarrow> store_ok (view (snd (f (snd (w_wires w 0)) (fst (w_wires w 0) (w_db w))))) \<Longrightarrow>
   fair view R (snd (one_request f w))"
  by (simp add: fair_def one_request_sel)

lemma durable_next:
  "durable view (snd (one_request f w)) = held_tasks (view (snd (f (snd (w_wires w 0)) (fst (w_wires w 0) (w_db w)))))"
  by (simp add: durable_def one_request_sel)

lemma calm_wire: "calm w \<Longrightarrow> w_wires w n = (\<lambda>d. d, Delivered)"
  by (simp add: calm_def direct_def)

lemma calm_next: "calm w \<Longrightarrow> calm (snd (one_request f w))"
  by (simp add: calm_def one_request_sel)

lemma Marshal_ended:
  assumes "Marshal m \<noteq> None" and "time_marshals now"
  shows "Marshal (m\<lparr>State := s, AttemptID := a, CompletedAt := now\<rparr>) \<noteq> None"
    "Marshal (m\<lparr>State := s, AttemptID := a, LastError := e, LastFailedAt := now\<rparr>) \<noteq> None"
    "Marshal (m\<lparr>State := s, AttemptID := a, LastError := e\<rparr>) \<noteq> None"
  using assms by (auto simp: Marshal_def split: if_splits)

text \<open>A request that ends an attempt when the caller owns it and does nothing otherwise.\<close>

lemma ended_by:
  assumes q: "queue_name_ok (Queue m)" and x: "owner ks (Queue m) (ID m) = Some (AttemptID m) \<Longrightarrow> Queue x = Queue m \<and> ID x = ID m"
    and own: "owner ks (Queue m) (ID m) = Some (AttemptID m) \<Longrightarrow>
      r = reported what ft m (None, m') \<and> tasks ks' (Queue m) = left_by ft (tasks ks (Queue m)) ((tasks ks (Queue m))(ID m \<mapsto> x))"
    and other: "owner ks (Queue m) (ID m) \<noteq> Some (AttemptID m) \<Longrightarrow>
      r = reported what ft m (Some ErrInvalidTransition, m) \<and> untouched (Queue m) ks ks'"
    and elsewhere: "\<And>q. queue_name_ok q \<Longrightarrow> q \<noteq> Queue m \<Longrightarrow> tasks ks' q = tasks ks q"
  shows "ended (held_tasks ks) m x (fst r) (held_tasks ks')"
    and "ft = Delivered \<Longrightarrow> ended_surely (held_tasks ks) m x (fst r) (held_tasks ks')"
proof -
  have put: "held_tasks ks' = put x (held_tasks ks)"
    if "tasks ks' (Queue m) = (tasks ks (Queue m))(ID m \<mapsto> x)" "owner ks (Queue m) (ID m) = Some (AttemptID m)"
    using held_put [of x ks' ks] q x that elsewhere by simp
  have same: "held_tasks ks' = held_tasks ks" if "tasks ks' (Queue m) = tasks ks (Queue m)"
    by (rule held_same [OF that elsewhere])
  have "ended (held_tasks ks) m x (fst r) (held_tasks ks')
      \<and> (ft = Delivered \<longrightarrow> ended_surely (held_tasks ks) m x (fst r) (held_tasks ks'))"
  proof (cases "owner ks (Queue m) (ID m) = Some (AttemptID m)")
    case True
    with own put same owns_held [OF q] show ?thesis
      by (cases ft) (simp_all add: ended_def ended_surely_def reported_def)
  next
    case False
    with other same untouched_tasks owns_held [OF q] show ?thesis
      by (cases ft) (simp_all add: ended_def ended_surely_def reported_def)
  qed
  then show "ended (held_tasks ks) m x (fst r) (held_tasks ks')"
    and "ft = Delivered \<Longrightarrow> ended_surely (held_tasks ks) m x (fst r) (held_tasks ks')" by simp_all
qed

text \<open>One request, from the world in which it starts to the world in which the caller has its answer.\<close>

lemma request_effect:
  assumes "fair view R w" and "one_request f w = (r, w')"
  obtains d ft where "store_ok (view d)" and "R (durable view w) (held_tasks (view d))" and "r = fst (f ft d)"
    and "durable view w' = held_tasks (view (snd (f ft d)))"
    and "store_ok (view (snd (f ft d))) \<Longrightarrow> fair view R w'"
    and "calm w \<Longrightarrow> ft = Delivered \<and> d = w_db w \<and> calm w'"
proof -
  have r: "r = fst (one_request f w)" "w' = snd (one_request f w)" using assms(2) by simp_all
  show thesis
    by (rule that [of "fst (w_wires w 0) (w_db w)" "snd (w_wires w 0)"])
      (use fair_start [OF assms(1)] fair_next [OF assms(1), of f] in
        \<open>simp_all add: r durable_next calm_wire calm_next one_request_sel(1)\<close>)
qed

lemma answered:
  assumes "calm w" and "one_request f w = (r, w')"
  shows "calm w' \<and> r = fst (f Delivered (w_db w)) \<and> durable view w' = held_tasks (view (snd (f Delivered (w_db w))))"
proof -
  have r: "r = fst (one_request f w)" "w' = snd (one_request f w)" using assms(2) by simp_all
  show ?thesis using assms(1) by (simp add: r durable_next calm_wire calm_next one_request_sel(1))
qed

lemma fair_located: "fair view R w \<Longrightarrow> durable view w q i = Some t \<Longrightarrow> Queue t = q \<and> ID t = i"
  unfolding fair_def durable_def using located_tasks by blast

context redis_server
begin

lemma finish_elsewhere:
  assumes ok: "store_ok (view d)" "queue_name_ok (Queue m)" and q: "queue_name_ok q" "q \<noteq> Queue m"
  shows "tasks (view (snd (AckSuccess call ft now m d))) q = tasks (view d) q"
    and "tasks (view (snd (ScheduleRetry call ft now m runAt reason d))) q = tasks (view d) q"
    and "tasks (view (snd (Archive call ft now m reason d))) q = tasks (view d) q"
    and "tasks (view (snd (Requeue call ft m d))) q = tasks (view d) q"
proof -
  note t = store_okD [OF ok, THEN conjunct1] and i = store_okD [OF ok, THEN conjunct2]
  note b = becomes_tasks(2) [OF _ ok(2) q]
  show "tasks (view (snd (AckSuccess call ft now m d))) q = tasks (view d) q"
    using b [OF AckSuccess_effect(2) [OF t refl refl _ refl, where now = now]]
    by (cases "Marshal (m\<lparr>State := ''completed'', AttemptID := [], CompletedAt := now\<rparr>)") (simp_all add: AckSuccess_def)
  show "tasks (view (snd (ScheduleRetry call ft now m runAt reason d))) q = tasks (view d) q"
    using b [OF ScheduleRetry_effect(2) [OF t refl refl _ refl, where now = now and reason = reason]]
    by (cases "Marshal (m\<lparr>State := ''retry'', AttemptID := [], LastError := reason, LastFailedAt := now\<rparr>)")
      (simp_all add: ScheduleRetry_def)
  show "tasks (view (snd (Archive call ft now m reason d))) q = tasks (view d) q"
    using b [OF Archive_effect(2) [OF t refl refl _ refl, where now = now and reason = reason]]
    by (cases "Marshal (m\<lparr>State := ''archived'', AttemptID := [], LastError := reason\<rparr>)") (simp_all add: Archive_def)
  show "tasks (view (snd (Requeue call ft m d))) q = tasks (view d) q"
    by (rule b [OF Requeue_effect(2) [OF t refl i refl]])
qed

lemma finish_ended:
  assumes ok: "store_ok (view d)" "queue_name_ok (Queue m)"
  shows "ended (held_tasks (view d)) m (completed_at now m) (fst (fst (AckSuccess call ft now m d)))
      (held_tasks (view (snd (AckSuccess call ft now m d))))" (is ?ack)
    and "ended (held_tasks (view d)) m (retried_at now reason m) (fst (fst (ScheduleRetry call ft now m runAt reason d)))
      (held_tasks (view (snd (ScheduleRetry call ft now m runAt reason d))))" (is ?retry)
    and "ended (held_tasks (view d)) m (archived_for reason m) (fst (fst (Archive call ft now m reason d)))
      (held_tasks (view (snd (Archive call ft now m reason d))))" (is ?archive)
    and "ended (held_tasks (view d)) m (pending_again (the (held_tasks (view d) (Queue m) (ID m))))
      (fst (fst (Requeue call ft m d))) (held_tasks (view (snd (Requeue call ft m d))))" (is ?requeue)
proof -
  show ?ack
  proof (cases "Marshal (m\<lparr>State := ''completed'', AttemptID := [], CompletedAt := now\<rparr>)")
    case None
    then show ?thesis by (simp add: AckSuccess_def ended_def)
  next
    case (Some j)
    show ?thesis unfolding completed_at_def StateCompleted_def
      by (rule ended_by(1) [OF ok(2) _ finish_owner(1) [OF ok _ refl] finish_other(1) [OF ok] finish_elsewhere(1) [OF ok]])
        (simp_all add: Some)
  qed
  show ?retry
  proof (cases "Marshal (m\<lparr>State := ''retry'', AttemptID := [], LastError := reason, LastFailedAt := now\<rparr>)")
    case None
    then show ?thesis by (simp add: ScheduleRetry_def ended_def)
  next
    case (Some j)
    show ?thesis unfolding retried_at_def StateRetry_def
      by (rule ended_by(1) [OF ok(2) _ finish_owner(2) [OF ok _ refl] finish_other(2) [OF ok] finish_elsewhere(2) [OF ok]])
        (simp_all add: Some)
  qed
  show ?archive
  proof (cases "Marshal (m\<lparr>State := ''archived'', AttemptID := [], LastError := reason\<rparr>)")
    case None
    then show ?thesis by (simp add: Archive_def ended_def)
  next
    case (Some j)
    show ?thesis unfolding archived_for_def StateArchived_def
      by (rule ended_by(1) [OF ok(2) _ finish_owner(3) [OF ok _ refl] finish_other(3) [OF ok] finish_elsewhere(3) [OF ok]])
        (simp_all add: Some)
  qed
  show ?requeue unfolding pending_again_def StatePending_def held_named [OF ok(2)]
    by (rule ended_by(1) [OF ok(2) _ finish_owner(4) [OF ok] finish_other(4) [OF ok] finish_elsewhere(4) [OF ok]])
      (simp_all add: owned_located [OF ok])
qed

lemma finish_surely:
  assumes ok: "store_ok (view d)" "queue_name_ok (Queue m)"
  shows "Marshal m \<noteq> None \<Longrightarrow> time_marshals now \<Longrightarrow> ended_surely (held_tasks (view d)) m (completed_at now m)
      (fst (fst (AckSuccess call Delivered now m d))) (held_tasks (view (snd (AckSuccess call Delivered now m d))))"
    and "Marshal m \<noteq> None \<Longrightarrow> time_marshals now \<Longrightarrow> ended_surely (held_tasks (view d)) m (retried_at now reason m)
      (fst (fst (ScheduleRetry call Delivered now m runAt reason d)))
      (held_tasks (view (snd (ScheduleRetry call Delivered now m runAt reason d))))"
    and "Marshal m \<noteq> None \<Longrightarrow> time_marshals now \<Longrightarrow> ended_surely (held_tasks (view d)) m (archived_for reason m)
      (fst (fst (Archive call Delivered now m reason d))) (held_tasks (view (snd (Archive call Delivered now m reason d))))"
    and "ended_surely (held_tasks (view d)) m (pending_again (the (held_tasks (view d) (Queue m) (ID m))))
      (fst (fst (Requeue call Delivered m d))) (held_tasks (view (snd (Requeue call Delivered m d))))"
  unfolding completed_at_def retried_at_def archived_for_def pending_again_def held_named [OF ok(2)]
    StateCompleted_def StateRetry_def StateArchived_def StatePending_def
  by (rule ended_by(2) [OF ok(2) _ finish_owner(1) [OF ok _ refl] finish_other(1) [OF ok] finish_elsewhere(1) [OF ok] refl],
        simp_all del: option.simps add: Marshal_ended,
      rule ended_by(2) [OF ok(2) _ finish_owner(2) [OF ok _ refl] finish_other(2) [OF ok] finish_elsewhere(2) [OF ok] refl],
        simp_all del: option.simps add: Marshal_ended,
      rule ended_by(2) [OF ok(2) _ finish_owner(3) [OF ok _ refl] finish_other(3) [OF ok] finish_elsewhere(3) [OF ok] refl],
        simp_all del: option.simps add: Marshal_ended,
      rule ended_by(2) [OF ok(2) _ finish_owner(4) [OF ok] finish_other(4) [OF ok] finish_elsewhere(4) [OF ok] refl],
        simp_all add: owned_located [OF ok])

lemma Claim_claims:
  assumes ok: "store_ok (view d)" "queue_name_ok q"
  shows "case fst (Claim call s ft rnd q now lease d) of
      Inr m \<Rightarrow> claims (held_tasks (view d)) q m (held_tasks (view (snd (Claim call s ft rnd q now lease d))))
    | Inl e \<Rightarrow> held_tasks (view (snd (Claim call s ft rnd q now lease d))) = held_tasks (view d) \<or>
        (\<exists>m. claims (held_tasks (view d)) q m (held_tasks (view (snd (Claim call s ft rnd q now lease d)))))"
    and "rnd = Inr bytes \<Longrightarrow> ft = Delivered \<Longrightarrow>
      if has_pending (held_tasks (view d)) q then \<exists>m. fst (Claim call s ft rnd q now lease d) = Inr m \<and>
        claims (held_tasks (view d)) q m (held_tasks (view (snd (Claim call s ft rnd q now lease d))))
      else fst (Claim call s ft rnd q now lease d) = Inl ErrQueueEmpty \<and>
        held_tasks (view (snd (Claim call s ft rnd q now lease d))) = held_tasks (view d)"
proof -
  let ?r = "Claim call s ft rnd q now lease d" and ?T = "held_tasks (view d)"
  note t = store_okD [OF ok, THEN conjunct1] and i = store_okD [OF ok, THEN conjunct2]
  have pend: "has_pending ?T q \<longleftrightarrow> (\<exists>i t. tasks (view d) q i = Some t \<and> State t = ''pending'')"
    by (simp add: has_pending_def held_named [OF ok(2)])
  have *: "(case fst ?r of
      Inr m \<Rightarrow> claims ?T q m (held_tasks (view (snd ?r)))
    | Inl e \<Rightarrow> held_tasks (view (snd ?r)) = ?T \<or> (\<exists>m. claims ?T q m (held_tasks (view (snd ?r)))))
    \<and> (ft = Delivered \<longrightarrow> (if has_pending ?T q then \<exists>m. fst ?r = Inr m \<and> claims ?T q m (held_tasks (view (snd ?r)))
      else fst ?r = Inl ErrQueueEmpty \<and> held_tasks (view (snd ?r)) = ?T))" if a: "newAttemptID rnd = Inr a" for a
  proof -
    have el: "tasks (view (snd ?r)) q' = tasks (view d) q'" if "queue_name_ok q'" "q' \<noteq> q" for q'
      by (rule becomes_tasks(2) [OF Claim_effect(2) [OF t refl i a refl refl] ok(2) that])
    show ?thesis
    proof (cases "has_pending ?T q")
      case True
      then obtain j u where u: "tasks (view d) q j = Some u" "State u = ''pending''" unfolding pend by blast
      obtain k v where v: "best_pending (view d) q k v"
        "fst ?r = (case ft of Delivered \<Rightarrow> Inr (v\<lparr>State := ''active'', AttemptID := a\<rparr>)
         | NotSent e \<Rightarrow> Inl (wrap_err ''claim task'' e) | ReplyLost e \<Rightarrow> Inl (wrap_err ''claim task'' e))"
        "tasks (view (snd ?r)) q = left_by ft (tasks (view d) q) ((tasks (view d) q)(k \<mapsto> v\<lparr>State := ''active'', AttemptID := a\<rparr>))"
        using Claim_pending [OF ok a u refl, where ft = ft and s = s and now = now and lease = lease] by blast
      let ?m = "v\<lparr>State := ''active'', AttemptID := a\<rparr>"
      have b: "tasks (view d) q k = Some v" "State v = ''pending''" "ID v = k" "Queue v = q"
        using v(1) unfolding best_pending_def by blast+
      have c: "claims ?T q ?m (held_tasks (view (snd ?r)))"
        if "tasks (view (snd ?r)) q = (tasks (view d) q)(k \<mapsto> ?m)"
        using that b el held_put [of ?m "view (snd ?r)" "view d"] ok(2) by (simp add: claims_def held_named [OF ok(2)])
      have n: "held_tasks (view (snd ?r)) = ?T" if "tasks (view (snd ?r)) q = tasks (view d) q"
        by (rule held_same [OF that el])
      show ?thesis using v(2,3) c n True by (cases ft) auto
    next
      case False
      then have none: "\<And>i t. tasks (view d) q i = Some t \<Longrightarrow> State t \<noteq> ''pending''" unfolding pend by blast
      note e = Claim_empty [OF ok a none, where ft = ft and s = s and now = now and lease = lease]
      have "held_tasks (view (snd ?r)) = ?T" by (rule held_same [OF untouched_tasks [OF e(2)] el])
      with e(1) False show ?thesis by (cases ft) auto
    qed
  qed
  show "case fst ?r of Inr m \<Rightarrow> claims ?T q m (held_tasks (view (snd ?r)))
    | Inl e \<Rightarrow> held_tasks (view (snd ?r)) = ?T \<or> (\<exists>m. claims ?T q m (held_tasks (view (snd ?r))))"
  proof (cases "newAttemptID rnd")
    case (Inl e)
    then show ?thesis by (simp add: Claim_def)
  next
    case (Inr a)
    then show ?thesis using * by blast
  qed
  show "if has_pending ?T q then \<exists>m. fst ?r = Inr m \<and> claims ?T q m (held_tasks (view (snd ?r)))
      else fst ?r = Inl ErrQueueEmpty \<and> held_tasks (view (snd ?r)) = ?T" if "rnd = Inr bytes" "ft = Delivered"
  proof -
    have "newAttemptID rnd = Inr (hex_EncodeToString (map bytes [0..<16]))" using that(1) by (simp add: newAttemptID_def)
    from * [OF this] that(2) show ?thesis by blast
  qed
qed

lemma move_readied:
  assumes ok: "store_ok (view d)" "queue_name_ok q" "0 \<le> most"
    and r: "r = script_Run call ft (moveReadyScript (source_key src q) (PendingKey q) (PendingRankKey q)
          (Num now) most (queuePrefix q @ ''task:'')) d"
  shows "readied (held_tasks (view d)) (held_tasks (view (snd r)))" and "store_ok (view (snd r))"
    and "ft = Delivered \<Longrightarrow> \<exists>n. fst r = Inr n"
proof -
  let ?Q = "queue_view q (view d)"
  note t = store_okD [OF ok(1,2), THEN conjunct1] and i = store_okD [OF ok(1,2), THEN conjunct2]
  note e = move_request_effect [OF t refl i r]
  show "store_ok (view (snd r))"
    by (rule left_by_keeps [OF ok(1,2) e(2) moveReadyScript_refines(2) [OF t refl i]])
  show "ft = Delivered \<Longrightarrow> \<exists>n. fst r = Inr n" using e(1) by simp
  define ids where "ids = take (nat most) (due now (source_zset src ?Q))"
  have el: "tasks (view (snd r)) q' = tasks (view d) q'" if "queue_name_ok q'" "q' \<noteq> q" for q'
    by (rule becomes_tasks(2) [OF e(2) ok(2) that])
  have ready: "State u \<in> {StateScheduled, StateRetry}" if "k \<in> set ids" "tasks (view d) q k = Some u" for k u
  proof -
    have "k \<in> set (zmembers (source_zset src ?Q))"
      using that(1) due_zscore [OF source_zset_ok [OF i]] zscore_member unfolding ids_def
      by (metis in_set_takeD option.distinct(1))
    then have "k \<in> in_state ?Q ''scheduled'' \<or> k \<in> in_state ?Q ''retry''"
      using qinv_containers(8,10) [OF i] by (cases src) auto
    then show ?thesis using that(2) unfolding in_state_lookup [OF i] by (auto simp: tasks_def)
  qed
  have q: "tasks (view (snd r)) q k = tasks (view d) q k \<or>
      (\<exists>u. tasks (view d) q k = Some u \<and> State u \<in> {StateScheduled, StateRetry} \<and> tasks (view (snd r)) q k = Some (pending_again u))" for k
  proof -
    have "tasks (view (snd r)) q k = left_by ft (tasks (view d) q k)
        (if k \<in> set ids then map_option make_ready (tasks (view d) q k) else tasks (view d) q k)"
      using becomes_tasks(1) [OF e(2)] q_move_ready_spec(2) [OF i ok(3) ids_def]
      by (cases ft) (simp_all add: tasks_def)
    moreover have "make_ready u = pending_again u" for u by (simp add: make_ready_def pending_again_def)
    ultimately show ?thesis using ready [of k]
      by (cases ft; cases "k \<in> set ids"; cases "tasks (view d) q k") simp_all
  qed
  show "readied (held_tasks (view d)) (held_tasks (view (snd r)))"
    unfolding readied_def
  proof (intro allI)
    fix q' k
    show "held_tasks (view (snd r)) q' k = held_tasks (view d) q' k \<or> (\<exists>t. held_tasks (view d) q' k = Some t \<and>
        State t \<in> {StateScheduled, StateRetry} \<and> held_tasks (view (snd r)) q' k = Some (pending_again t))"
      using q [of k] el [of q'] by (cases "q' = q"; cases "queue_name_ok q'") (simp_all add: held_tasks_def)
  qed
qed

lemma MoveReady_loop_readied:
  assumes w: "\<And>n d. store_ok (view d) \<Longrightarrow>
      store_ok (view (fst (w n) d)) \<and> R (held_tasks (view d)) (held_tasks (view (fst (w n) d)))"
    and "store_ok (view d)" "0 \<le> most"
    and "\<And>q k. (q, k) \<in> set qs \<Longrightarrow> queue_name_ok q \<and> (\<exists>src. k = source_key src q)"
  shows "(\<lambda>T T'. R T T' \<or> readied T T')\<^sup>*\<^sup>* (held_tasks (view d))
      (held_tasks (view (snd (MoveReady_loop call w now most qs moved d))))
    \<and> ((\<forall>n. w n = direct) \<longrightarrow> snd (fst (MoveReady_loop call w now most qs moved d)) = None
        \<and> readied (held_tasks (view d)) (held_tasks (view (snd (MoveReady_loop call w now most qs moved d)))))"
  using assms
proof (induction qs arbitrary: w moved d)
  case (Cons p qs)
  obtain q k where p: "p = (q, k)" by fastforce
  with Cons.prems(4) obtain src where q: "queue_name_ok q" and k: "k = source_key src q" by auto
  let ?d = "fst (w 0) d" and ?w = "\<lambda>n. w (Suc n)" and ?S = "\<lambda>T T'. R T T' \<or> readied T T'"
  define r where "r = script_Run call (snd (w 0)) (moveReadyScript (source_key src q) (PendingKey q) (PendingRankKey q)
      (Num (UnixMilli now)) most (queuePrefix q @ ''task:'')) ?d"
  have d: "store_ok (view ?d)" "R (held_tasks (view d)) (held_tasks (view ?d))" using Cons.prems(1,2) by blast+
  note m = move_readied [OF d(1) q Cons.prems(3) r_def]
  have two: "?S\<^sup>*\<^sup>* (held_tasks (view d)) (held_tasks (view (snd r)))"
    by (rule converse_rtranclp_into_rtranclp [of ?S, OF disjI1 [OF d(2)] r_into_rtranclp [of ?S, OF disjI2 [OF m(1)]]])
  have IH: "?S\<^sup>*\<^sup>* (held_tasks (view (snd r))) (held_tasks (view (snd (MoveReady_loop call ?w now most qs n (snd r)))))"
    "(\<forall>n. w n = direct) \<Longrightarrow> snd (fst (MoveReady_loop call ?w now most qs n (snd r))) = None
      \<and> readied (held_tasks (view (snd r))) (held_tasks (view (snd (MoveReady_loop call ?w now most qs n (snd r)))))" for n
    using Cons.IH [of ?w "snd r" n, OF Cons.prems(1) m(2) Cons.prems(3)] Cons.prems(4) by auto
  show ?case
  proof (cases "fst r")
    case (Inl e)
    then have x: "MoveReady_loop call w now most (p # qs) moved d = ((moved, Some (wrap_err ''move ready tasks'' e)), snd r)"
      by (cases r) (simp add: p k request_def flip: r_def)
    have "snd (w 0) = Delivered" if "\<forall>n. w n = direct" using that by (simp add: direct_def)
    with m(3) Inl have "\<not> (\<forall>n. w n = direct)" by (metis sum.distinct(1))
    then show ?thesis unfolding x using two by simp
  next
    case (Inr n)
    then have x: "MoveReady_loop call w now most (p # qs) moved d = MoveReady_loop call ?w now most qs (moved + n) (snd r)"
      by (cases r) (simp add: p k request_def flip: r_def)
    have "readied (held_tasks (view d)) (held_tasks (view (snd r)))" if "\<forall>n. w n = direct"
      using m(1) that by (simp add: direct_def)
    then show ?thesis unfolding x using two IH [of "moved + n"] readied_trans by (meson rtranclp_trans)
  qed
qed simp

text \<open>The methods in one request, and \<open>MoveReady\<close>, on a whole world.\<close>

lemma MoveReady_readied:
  assumes f: "fair view R w" and qs: "list_all queue_name_ok qs"
    and m: "ts_MoveReady (redis_task_store call s) now limit qs w = (k, w')"
  shows "fair view R w'" and "(\<lambda>T T'. R T T' \<or> readied T T')\<^sup>*\<^sup>* (durable view w) (durable view w')"
    and "calm w \<Longrightarrow> calm w' \<and> snd k = None \<and> readied (durable view w) (durable view w')"
proof -
  let ?m = "MoveReady call (w_wires w) now limit qs (w_db w)"
  have w': "w' = advance (2 * length qs) w (snd ?m)" "k = fst ?m"
    using m by (simp_all add: redis_task_store_def split: prod.splits)
  have q: "queue_name_ok q \<and> (\<exists>src. k = source_key src q)"
    if "(q, k) \<in> set (concat (map (\<lambda>q. [(q, ScheduledKey q), (q, RetryKey q)]) qs))" for q k
    using qs that by (auto simp: list_all_iff intro: exI [of _ Scheduled] exI [of _ Retry])
  have st: "store_ok (view (w_db w))" and wr: "\<And>n d. store_ok (view d) \<Longrightarrow>
      store_ok (view (fst (w_wires w n) d)) \<and> R (held_tasks (view d)) (held_tasks (view (fst (w_wires w n) d)))"
    using f by (simp_all add: fair_def)
  have "store_ok (view (snd ?m))" using wr qs by (intro MoveReady_keeps [OF _ st]) (auto simp: list_all_iff)
  then show "fair view R w'" using wr by (simp add: fair_def w' advance_def)
  have mx: "0 \<le> (if limit \<le> 0 then 100 else limit)" by simp
  note l = MoveReady_loop_readied [where w = "w_wires w" and moved = 0 and now = now
      and qs = "concat (map (\<lambda>q. [(q, ScheduledKey q), (q, RetryKey q)]) qs)", OF wr st mx q, folded MoveReady_def]
  show "(\<lambda>T T'. R T T' \<or> readied T T')\<^sup>*\<^sup>* (durable view w) (durable view w')"
    using l by (simp add: durable_def w' advance_def)
  show "calm w' \<and> snd k = None \<and> readied (durable view w) (durable view w')" if "calm w"
    using l that by (simp add: durable_def w' advance_def calm_def)
qed

lemma ExtendLease_held:
  assumes ok: "store_ok (view d)" "queue_name_ok q"
  shows "held_tasks (view (snd (ExtendLease call s ft q ts now lease d))) = held_tasks (view d)"
proof -
  note t = store_okD [OF ok, THEN conjunct1]
  show ?thesis
    by (rule held_same [OF ExtendLease_lease(2) [OF ok refl] becomes_tasks(2) [OF ExtendLease_effect(2) [OF t refl refl refl] ok(2)]])
qed

lemma Get_read:
  assumes ok: "store_ok (view d)" "queue_name_ok q"
  shows "fst (Get call ft q i d) = Inr t \<Longrightarrow> held_tasks (view d) q i = Some t"
    and "fst (Get call Delivered q i d) = (case held_tasks (view d) q i of None \<Rightarrow> Inl ErrTaskNotFound | Some t \<Rightarrow> Inr t)"
proof -
  note t = store_okD [OF ok, THEN conjunct1] and i = store_okD [OF ok, THEN conjunct2]
  note g = Get_effect(1) [OF t refl i, of _ i]
  show "fst (Get call ft q i d) = Inr t \<Longrightarrow> held_tasks (view d) q i = Some t"
    unfolding g held_named [OF ok(2)] tasks_def by (cases ft) (simp_all split: option.splits)
  show "fst (Get call Delivered q i d) = (case held_tasks (view d) q i of None \<Rightarrow> Inl ErrTaskNotFound | Some t \<Rightarrow> Inr t)"
    unfolding g held_named [OF ok(2)] tasks_def by simp
qed

lemma finish_law:
  assumes f: "fair view R w" and q: "queue_name_ok (Queue m)"
  shows "one_request (\<lambda>ft. AckSuccess call ft (w_clock w 0) m) w = ((e, m'), w') \<Longrightarrow> fair view R w' \<and>
      (\<exists>T now. R (durable view w) T \<and> ended T m (completed_at now m) e (durable view w'))"
    and "one_request (\<lambda>ft. ScheduleRetry call ft (w_clock w 0) m runAt reason) w = ((e, m'), w') \<Longrightarrow> fair view R w' \<and>
      (\<exists>T now. R (durable view w) T \<and> ended T m (retried_at now reason m) e (durable view w'))"
    and "one_request (\<lambda>ft. Archive call ft (w_clock w 0) m reason) w = ((e, m'), w') \<Longrightarrow> fair view R w' \<and>
      (\<exists>T. R (durable view w) T \<and> ended T m (archived_for reason m) e (durable view w'))"
    and "one_request (\<lambda>ft. Requeue call ft m) w = ((e, m'), w') \<Longrightarrow> fair view R w' \<and>
      (\<exists>T. R (durable view w) T \<and> ended T m (pending_again (the (T (Queue m) (ID m)))) e (durable view w'))"
proof -
  show "fair view R w' \<and> (\<exists>T now. R (durable view w) T \<and> ended T m (completed_at now m) e (durable view w'))"
    if "one_request (\<lambda>ft. AckSuccess call ft (w_clock w 0) m) w = ((e, m'), w')"
    using request_effect [OF f that] finish_ended(1) [OF _ q] finish_keeps(1) [OF _ q] by (metis fst_conv)
  show "fair view R w' \<and> (\<exists>T now. R (durable view w) T \<and> ended T m (retried_at now reason m) e (durable view w'))"
    if "one_request (\<lambda>ft. ScheduleRetry call ft (w_clock w 0) m runAt reason) w = ((e, m'), w')"
    using request_effect [OF f that] finish_ended(2) [OF _ q] finish_keeps(2) [OF _ q] by (metis fst_conv)
  show "fair view R w' \<and> (\<exists>T. R (durable view w) T \<and> ended T m (archived_for reason m) e (durable view w'))"
    if "one_request (\<lambda>ft. Archive call ft (w_clock w 0) m reason) w = ((e, m'), w')"
    using request_effect [OF f that] finish_ended(3) [OF _ q] finish_keeps(3) [OF _ q] by (metis fst_conv)
  show "fair view R w' \<and> (\<exists>T. R (durable view w) T \<and> ended T m (pending_again (the (T (Queue m) (ID m)))) e (durable view w'))"
    if "one_request (\<lambda>ft. Requeue call ft m) w = ((e, m'), w')"
    using request_effect [OF f that] finish_ended(4) [OF _ q] finish_keeps(4) [OF _ q] by (metis fst_conv)
qed

lemma claim_law:
  assumes f: "fair view R w" and q: "queue_name_ok q"
    and c: "one_request (\<lambda>ft. Claim call s ft (w_entropy w 0) q now lease) w = (r, w')"
  shows "fair view R w' \<and> (\<exists>T. R (durable view w) T \<and>
      (case r of Inr m \<Rightarrow> claims T q m (durable view w')
       | Inl e \<Rightarrow> durable view w' = T \<or> (\<exists>m. claims T q m (durable view w'))))"
  using request_effect [OF f c] Claim_claims(1) [OF _ q] Claim_keeps [OF _ q] by metis

lemma read_law:
  assumes f: "fair view R w" and q: "queue_name_ok q"
  shows "one_request (\<lambda>ft. Get call ft q i) w = (r, w') \<Longrightarrow> fair view R w' \<and> R (durable view w) (durable view w') \<and>
      (case r of Inr t \<Rightarrow> durable view w' q i = Some t | Inl e \<Rightarrow> True)"
    and "one_request (\<lambda>ft. ExpiredIDs call ft now q limit) w = (ids, w') \<Longrightarrow> fair view R w' \<and> R (durable view w) (durable view w')"
    and "one_request (\<lambda>ft. PendingCount call ft q) w = (n, w') \<Longrightarrow> fair view R w' \<and> R (durable view w) (durable view w')"
    and "one_request (\<lambda>ft. ExtendLease call s ft q ts now lease) w = (e, w') \<Longrightarrow>
      fair view R w' \<and> R (durable view w) (durable view w')"
proof -
  show "fair view R w' \<and> R (durable view w) (durable view w') \<and> (case r of Inr t \<Rightarrow> durable view w' q i = Some t | Inl e \<Rightarrow> True)"
    if g: "one_request (\<lambda>ft. Get call ft q i) w = (r, w')"
  proof -
    obtain d ft where d: "store_ok (view d)" "R (durable view w) (held_tasks (view d))" "r = fst (Get call ft q i d)"
      "durable view w' = held_tasks (view (snd (Get call ft q i d)))"
      "store_ok (view (snd (Get call ft q i d))) \<Longrightarrow> fair view R w'"
      using request_effect [OF f g] by metis
    with reads_keep(1) [OF d(1) q] Get_read(1) [OF d(1) q] show ?thesis by (simp split: sum.splits)
  qed
  show "fair view R w' \<and> R (durable view w) (durable view w')" if "one_request (\<lambda>ft. ExpiredIDs call ft now q limit) w = (ids, w')"
    using request_effect [OF f that] reads_keep(3) [OF _ q] by metis
  show "fair view R w' \<and> R (durable view w) (durable view w')" if "one_request (\<lambda>ft. PendingCount call ft q) w = (n, w')"
    using request_effect [OF f that] counts_effect(4) [OF store_okD [OF _ q, THEN conjunct1] refl] by metis
  show "fair view R w' \<and> R (durable view w) (durable view w')"
    if "one_request (\<lambda>ft. ExtendLease call s ft q ts now lease) w = (e, w')"
    using request_effect [OF f that] ExtendLease_held [OF _ q] ExtendLease_keeps [OF _ q] by metis
qed

lemma redis_task_store_contract:
  "task_store (redis_task_store call s) (fair view R) (durable view) R queue_name_ok"
proof (unfold_locales, unfold redis_ts, goal_cases)
  case 1 then show ?case by (rule finish_law(1))
next
  case 2 then show ?case by (rule finish_law(2))
next
  case 3 then show ?case by (rule finish_law(3))
next
  case 4 then show ?case by (rule finish_law(4))
next
  case 5 then show ?case by (rule claim_law)
next
  case 6 then show ?case using MoveReady_readied(1,2) by blast
next
  case 7 then show ?case by (rule read_law(1))
next
  case 8 then show ?case by (rule read_law(2))
next
  case 9 then show ?case by (rule read_law(3))
next
  case 10 then show ?case by (rule read_law(4))
next
  case 11 then show ?case by (rule fair_located)
qed

lemma finish_surely_law:
  assumes f: "fair view R w" and c: "calm w" and q: "queue_name_ok (Queue m)"
  shows "Marshal m \<noteq> None \<Longrightarrow> one_request (\<lambda>ft. AckSuccess call ft (w_clock w 0) m) w = ((e, m'), w') \<Longrightarrow>
      calm w' \<and> (\<exists>now. ended_surely (durable view w) m (completed_at now m) e (durable view w'))"
    and "Marshal m \<noteq> None \<Longrightarrow> one_request (\<lambda>ft. ScheduleRetry call ft (w_clock w 0) m runAt reason) w = ((e, m'), w') \<Longrightarrow>
      calm w' \<and> (\<exists>now. ended_surely (durable view w) m (retried_at now reason m) e (durable view w'))"
    and "Marshal m \<noteq> None \<Longrightarrow> one_request (\<lambda>ft. Archive call ft (w_clock w 0) m reason) w = ((e, m'), w') \<Longrightarrow>
      calm w' \<and> ended_surely (durable view w) m (archived_for reason m) e (durable view w')"
    and "one_request (\<lambda>ft. Requeue call ft m) w = ((e, m'), w') \<Longrightarrow>
      calm w' \<and> ended_surely (durable view w) m (pending_again (the (durable view w (Queue m) (ID m)))) e (durable view w')"
proof -
  have ok: "store_ok (view (w_db w))" using f by (simp add: fair_def)
  have now: "time_marshals (w_clock w 0)" using c by (simp add: calm_def)
  note s = finish_surely [OF ok q] and a = answered [OF c]
  show "calm w' \<and> (\<exists>now. ended_surely (durable view w) m (completed_at now m) e (durable view w'))"
    if "Marshal m \<noteq> None" "one_request (\<lambda>ft. AckSuccess call ft (w_clock w 0) m) w = ((e, m'), w')"
    using a [OF that(2)] s(1) [OF that(1) now] by (metis durable_def fst_conv)
  show "calm w' \<and> (\<exists>now. ended_surely (durable view w) m (retried_at now reason m) e (durable view w'))"
    if "Marshal m \<noteq> None" "one_request (\<lambda>ft. ScheduleRetry call ft (w_clock w 0) m runAt reason) w = ((e, m'), w')"
    using a [OF that(2)] s(2) [OF that(1) now] by (metis durable_def fst_conv)
  show "calm w' \<and> ended_surely (durable view w) m (archived_for reason m) e (durable view w')"
    if "Marshal m \<noteq> None" "one_request (\<lambda>ft. Archive call ft (w_clock w 0) m reason) w = ((e, m'), w')"
    using a [OF that(2)] s(3) [OF that(1) now] by (metis durable_def fst_conv)
  show "calm w' \<and> ended_surely (durable view w) m (pending_again (the (durable view w (Queue m) (ID m)))) e (durable view w')"
    if "one_request (\<lambda>ft. Requeue call ft m) w = ((e, m'), w')"
    using a [OF that] s(4) by (metis durable_def fst_conv)
qed

lemma claim_surely_law:
  assumes f: "fair view R w" and c: "calm w" and q: "queue_name_ok q"
    and x: "one_request (\<lambda>ft. Claim call s ft (w_entropy w 0) q now lease) w = (r, w')"
  shows "calm w' \<and> (if has_pending (durable view w) q then \<exists>m. r = Inr m \<and> claims (durable view w) q m (durable view w')
      else r = Inl ErrQueueEmpty \<and> durable view w' = durable view w)"
proof -
  obtain bytes where b: "w_entropy w 0 = Inr bytes" using c by (auto simp: calm_def)
  have ok: "store_ok (view (w_db w))" using f by (simp add: fair_def)
  from answered [OF c x] Claim_claims(2) [OF ok q b refl, of s now lease] show ?thesis
    by (simp add: durable_def)
qed

lemma read_surely_law:
  assumes f: "fair view R w" and c: "calm w" and q: "queue_name_ok q"
  shows "one_request (\<lambda>ft. Get call ft q i) w = (r, w') \<Longrightarrow> calm w' \<and> durable view w' = durable view w \<and>
      r = (case durable view w q i of None \<Rightarrow> Inl ErrTaskNotFound | Some t \<Rightarrow> Inr t)"
    and "one_request (\<lambda>ft. ExpiredIDs call ft now q 100) w = (ids, w') \<Longrightarrow> calm w' \<and> durable view w' = durable view w \<and>
      ids = Inr (lease_ids view w now q)"
    and "one_request (\<lambda>ft. PendingCount call ft q) w = (n, w') \<Longrightarrow> calm w' \<and> durable view w' = durable view w \<and>
      (\<exists>k. n = Inr k \<and> (0 < k \<longleftrightarrow> has_pending (durable view w) q))"
proof -
  have ok: "store_ok (view (w_db w))" using f by (simp add: fair_def)
  note t = store_okD [OF ok q, THEN conjunct1] and i = store_okD [OF ok q, THEN conjunct2]
  note a = answered [OF c] and k = reads_keep [OF ok q]
  show "calm w' \<and> durable view w' = durable view w \<and> r = (case durable view w q i of None \<Rightarrow> Inl ErrTaskNotFound | Some t \<Rightarrow> Inr t)"
    if "one_request (\<lambda>ft. Get call ft q i) w = (r, w')"
    using a [OF that] Get_read(2) [OF ok q] k(1) by (simp add: durable_def)
  show "calm w' \<and> durable view w' = durable view w \<and> ids = Inr (lease_ids view w now q)"
    if "one_request (\<lambda>ft. ExpiredIDs call ft now q 100) w = (ids, w')"
    using a [OF that] ExpiredIDs_effect [OF t refl, of Delivered now 100] by (simp add: durable_def lease_ids_def)
  have "in_state (queue_view q (view (w_db w))) ''pending'' \<noteq> {} \<longleftrightarrow> has_pending (durable view w) q"
    unfolding has_pending_def durable_def held_named [OF q] tasks_def in_state_lookup [OF i] ex_in_conv [symmetric]
      StatePending_def by blast
  then have "q_rank (queue_view q (view (w_db w))) \<noteq> [] \<longleftrightarrow> has_pending (durable view w) q"
    unfolding set_empty [symmetric] qinv_containers(6) [OF i] image_is_empty .
  then show "calm w' \<and> durable view w' = durable view w \<and> (\<exists>k. n = Inr k \<and> (0 < k \<longleftrightarrow> has_pending (durable view w) q))"
    if "one_request (\<lambda>ft. PendingCount call ft q) w = (n, w')"
    using a [OF that] counts_effect(1,4) [OF t refl, of Delivered] by (simp add: durable_def)
qed

lemma lease_ids_active:
  assumes f: "fair view R w" and q: "queue_name_ok q"
  shows "distinct (lease_ids view w now q)"
    and "i \<in> set (lease_ids view w now q) \<Longrightarrow> \<exists>t. durable view w q i = Some t \<and> State t = StateActive"
proof -
  have ok: "store_ok (view (w_db w))" using f by (simp add: fair_def)
  note i = store_okD [OF ok q, THEN conjunct2]
  note z = qinv_containers(11) [OF i]
  show "distinct (lease_ids view w now q)" unfolding lease_ids_def using due_distinct [OF z] by simp
  assume "i \<in> set (lease_ids view w now q)"
  then have "i \<in> set (zmembers (q_lease (queue_view q (view (w_db w)))))"
    unfolding lease_ids_def using due_zscore [OF z] zscore_member by (metis in_set_takeD option.distinct(1))
  then have "i \<in> in_state (queue_view q (view (w_db w))) ''active''" using qinv_containers(12) [OF i] by simp
  then show "\<exists>t. durable view w q i = Some t \<and> State t = StateActive"
    unfolding in_state_lookup [OF i] by (simp add: durable_def held_named [OF q] tasks_def)
qed

lemma redis_reliable_contract:
  "reliable_store (redis_task_store call s) (fair view R) (durable view) R queue_name_ok calm (lease_ids view)"
proof (intro reliable_store.intro redis_task_store_contract, unfold_locales, unfold redis_ts, goal_cases)
  case 1 then show ?case using finish_surely_law(1) by blast
next
  case 2 then show ?case using finish_surely_law(2) by blast
next
  case 3 then show ?case using finish_surely_law(3) by blast
next
  case 4 then show ?case using finish_surely_law(4) by blast
next
  case 5 then show ?case by (rule claim_surely_law)
next
  case 6 then show ?case using MoveReady_readied(3) by blast
next
  case 7 then show ?case by (rule read_surely_law(1))
next
  case 8 then show ?case by (rule read_surely_law(2))
next
  case 9 then show ?case by (rule lease_ids_active(2))
next
  case 10 then show ?case by (rule lease_ids_active(1))
next
  case 11 then show ?case by (rule read_surely_law(3))
qed

end

end
