(* ===== verification/ServerProperties.thy ===== *)
theory ServerProperties
  imports RedisContract StoreProperties
begin

text \<open>
  The server on the Redis store: the properties of its loops, from the contract that the store keeps. The
  concrete instances run on the command reference as the server.
\<close>

section \<open>Sample worlds\<close>

text \<open>The other clients keep the retry budget.\<close>

definition within_budget :: "tmap \<Rightarrow> tmap \<Rightarrow> bool" where
  "within_budget T T' \<longleftrightarrow> (bounded T \<longrightarrow> bounded T')"

definition calm_world :: "keyspace \<Rightarrow> keyspace world" where
  "calm_world ks = \<lparr>w_db = ks, w_wires = (\<lambda>_. direct), w_clock = (\<lambda>_. sample_now), w_entropy = (\<lambda>_. sample_entropy)\<rparr>"

definition sample_server :: "'w Config" where
  "sample_server = applyDefaults \<lparr>Concurrency = 2, Queues = [(''image'', 3)], LeaseDuration = 0, PollInterval = 0,
     ShutdownTimeout = 0, RetryBaseDelay = 0, RetryMaxDelay = 0, RetryJitter = Fin 0, HeartbeatInterval = 0,
     RecoveryInterval = 0, TokenBucket = None, TokenAmount = Fin 0, HasErrorHandler = True\<rparr>"

definition sample_state :: "keyspace \<Rightarrow> keyspace world sstate" where
  "sample_state ks = \<lparr>world = calm_world ks, metrics = None, errors = [], active = []\<rparr>"

definition sample_handler :: Handler where
  "sample_handler c m = (None, m)"

definition sample_moments :: moments where
  "sample_moments = \<lparr>at_start = sample_now, at_timeout = sample_now, at_failure = sample_now, at_end = sample_now,
     luck = \<lparr>rand_Float64 = 0, nan_Duration = 0\<rparr>\<rparr>"

text \<open>The leases of a queue after a heartbeat: renewed where one of the keys owns the task.\<close>

definition renewed :: "activeTaskKey list \<Rightarrow> int \<Rightarrow> keyspace \<Rightarrow> string \<Rightarrow> string \<Rightarrow> int option" where
  "renewed keys expires ks q i =
     (if \<exists>k \<in> set keys. key_queue k = q \<and> key_id k = i \<and> owner ks q i = Some (key_attemptID k)
      then Some (f64_of_int expires) else lease_of ks q i)"


section \<open>Lemmas\<close>

lemma calm_fair: "store_ok (view (w_db w)) \<Longrightarrow> calm w \<Longrightarrow> fair view (\<lambda>_ _. True) w"
  by (simp add: fair_def calm_wire)

lemma calm_world_sel [simp]: "w_db (calm_world ks) = ks" "calm (calm_world ks)"
  by (simp_all add: calm_world_def calm_def sample_entropy_def time_marshals_def sample_now_def)

lemma calm_world_fair: "store_ok ks \<Longrightarrow> fair id within_budget (calm_world ks)"
  by (simp add: fair_def calm_world_def direct_def within_budget_def)

lemma sample_active_marshals: "Marshal sample_active \<noteq> None"
  by (simp add: Marshal_def sample_active_def sample_pending_def sample_task_def time_marshals_def zero_time_def)

lemma redis_budget_store:
  "redis_server call view \<Longrightarrow>
   budget_store (redis_task_store call s) (fair view within_budget) (durable view) within_budget queue_name_ok"
  by (intro budget_store.intro redis_server.redis_task_store_contract budget_store_axioms.intro)
    (auto simp: within_budget_def)

text \<open>The contract on the command reference.\<close>

interpretation redis: reliable_store "redis_task_store redis_doc s" "fair id R" "durable id" R queue_name_ok calm "lease_ids id"
  for s R
  by (rule doc.redis_reliable_contract)

interpretation redis_clients: budget_store "redis_task_store redis_doc s" "fair id within_budget" "durable id" within_budget queue_name_ok
  for s
  by (rule redis_budget_store [OF doc.redis_server_axioms])

context redis_server
begin

lemma extend_step:
  assumes ok: "store_ok (view d)" "queue_name_ok q" and c: "0 < lease"
    and d': "d' = snd (ExtendLease call s Delivered q (map Some (byQueue keys q)) now lease d)"
  shows "fst (ExtendLease call s Delivered q (map Some (byQueue keys q)) now lease d) = None"
    and "store_ok (view d')" and "\<And>q. queue_name_ok q \<Longrightarrow> tasks (view d') q = tasks (view d) q"
    and "lease_of (view d') q i = renewed keys (UnixMilli (now + lease)) (view d) q i"
    and "queue_name_ok q' \<Longrightarrow> q' \<noteq> q \<Longrightarrow> lease_of (view d') q' i = lease_of (view d) q' i"
proof -
  let ?ts = "map Some (byQueue keys q)"
  have ls: "lease = (if lease \<le> 0 then leaseDuration s else lease)" using c by simp
  note t = store_okD [OF ok, THEN conjunct1] and i = store_okD [OF ok, THEN conjunct2]
  note e = ExtendLease_effect [OF t refl ls refl, of Delivered ?ts now]
  note l = ExtendLease_lease [OF ok ls, of Delivered ?ts now]
  show "fst (ExtendLease call s Delivered q ?ts now lease d) = None" using e(1) by simp
  show "store_ok (view d')" unfolding d' by (rule ExtendLease_keeps [OF ok])
  have o: "queue_view q' (view d') = queue_view q' (view d)" if "queue_name_ok q'" "q' \<noteq> q" for q'
    using e(2) other_queue(1) [OF _ ok(2) that] unfolding d' becomes_def by blast
  show "queue_name_ok q' \<Longrightarrow> q' \<noteq> q \<Longrightarrow> lease_of (view d') q' i = lease_of (view d) q' i"
    using o by (simp add: lease_of_def)
  show "tasks (view d') q' = tasks (view d) q'" if "queue_name_ok q'" for q'
    using l(2) o [OF that] by (cases "q' = q") (simp_all add: d' tasks_fun)
  have "(\<exists>t. Some t \<in> set ?ts \<and> ID t = i \<and> owner (view d) q i = Some (AttemptID t)) \<longleftrightarrow>
      (\<exists>k \<in> set keys. key_queue k = q \<and> key_id k = i \<and> owner (view d) q i = Some (key_attemptID k))"
    by (auto simp: byQueue_def)
  with l(1) [of i] show "lease_of (view d') q i = renewed keys (UnixMilli (now + lease)) (view d) q i"
    by (simp add: d' renewed_def)
qed

lemma heartbeat_leases:
  assumes "store_ok (view (w_db (world s)))" and "calm (world s)" and "0 < LeaseDuration c"
    and "distinct order" and "list_all queue_name_ok order"
    and "s' = heartbeat_queues (redis_task_store call st) c now keys order s"
  shows "errors s' = errors s \<and> store_ok (view (w_db (world s'))) \<and>
    (\<forall>q i. queue_name_ok q \<longrightarrow> tasks (view (w_db (world s'))) q = tasks (view (w_db (world s))) q
       \<and> lease_of (view (w_db (world s'))) q i =
           (if q \<in> set order then renewed keys (UnixMilli (now + LeaseDuration c)) (view (w_db (world s))) q i
            else lease_of (view (w_db (world s))) q i))"
  using assms
proof (induction order arbitrary: s)
  case (Cons q order)
  let ?d = "w_db (world s)" and ?ls = "LeaseDuration c"
  let ?f = "\<lambda>ft. ExtendLease call st ft q (map Some (byQueue keys q)) now ?ls"
  define d' where "d' = snd (?f Delivered ?d)"
  define w' where "w' = snd (one_request ?f (world s))"
  have q: "queue_name_ok q" "list_all queue_name_ok order" "q \<notin> set order" "distinct order"
    using Cons.prems(4,5) by simp_all
  note st = extend_step [OF Cons.prems(1) q(1) Cons.prems(3) d'_def]
  have w: "one_request ?f (world s) = (None, w')" "w_db w' = d'" "calm w'"
    using Cons.prems(2) st(1)
    by (simp_all add: prod_eq_iff w'_def d'_def one_request_sel calm_wire calm_next)
  have s': "s' = heartbeat_queues (redis_task_store call st) c now keys order (s\<lparr>world := w'\<rparr>)"
    using Cons.prems(6) w(1) by simp
  have "owner (view d') q' i = owner (view ?d) q' i" if "queue_name_ok q'" for q' i
    using st(3) [OF that] by (simp add: owner_def)
  then have r: "renewed keys n (view d') q' i = renewed keys n (view ?d) q' i"
    if "queue_name_ok q'" "q' \<noteq> q" for n q' i
    using st(5) [OF that] that by (auto simp: renewed_def)
  from Cons.IH [of "s\<lparr>world := w'\<rparr>", OF _ _ Cons.prems(3) q(4,2)] s' w st(2)
  have IH: "errors s' = errors s" "store_ok (view (w_db (world s')))"
    "\<And>q i. queue_name_ok q \<Longrightarrow> tasks (view (w_db (world s'))) q = tasks (view d') q \<and> lease_of (view (w_db (world s'))) q i =
       (if q \<in> set order then renewed keys (UnixMilli (now + ?ls)) (view d') q i else lease_of (view d') q i)"
    by simp_all
  show ?case
  proof (intro conjI allI impI IH(1,2))
    fix q' i assume n: "queue_name_ok q'"
    show "tasks (view (w_db (world s'))) q' = tasks (view ?d) q'" using IH(3) [OF n] st(3) [OF n] by simp
    show "lease_of (view (w_db (world s'))) q' i =
      (if q' \<in> set (q # order) then renewed keys (UnixMilli (now + ?ls)) (view ?d) q' i else lease_of (view ?d) q' i)"
      using IH(3) [OF n, of i] st(4) [of i] st(5) [OF n, of i] r [OF n] q(3) by (cases "q' = q") simp_all
  qed
qed simp

end


lemma sample_world: "w_db (world (sample_state ks)) = ks" "calm (world (sample_state ks))"
  "durable id (world (sample_state ks)) = held_tasks ks" "active (sample_state ks) = []"
  by (simp_all add: sample_state_def durable_def)

lemma db_pending_held: "held_tasks db_pending q i = Some t \<Longrightarrow> t = sample_pending"
proof -
  assume h: "held_tasks db_pending q i = Some t"
  then have q: "queue_name_ok q" by (simp add: held_tasks_def split: if_splits)
  obtain j where j: "Marshal sample_pending = Some j" using sample_marshals(1) by blast
  have "store_ok (id empty_db)" using store_ok_empty by (simp add: empty_db_def)
  then have t: "queue_typed (Queue sample_pending) (id empty_db)" using store_okD sample_ok(1,2) by metis
  have "tasks (id db_pending) q = tasks (id empty_db) q" if "q \<noteq> ''image''"
    using becomes_tasks(2) [OF doc.Enqueue_effect(2) [OF t sample_ok(4) j refl refl, of Delivered] _ q] that
    by (simp add: db_pending_def)
  moreover have "tasks (id empty_db) q i = None" 
    by (simp add: tasks_def q_lookup_def queue_view_def task_view_def empty_db_def)
  ultimately show ?thesis using h q by (cases "q = ''image''") (auto simp: held_named db_pending_ok split: if_splits)
qed

lemma db_active_lease: "lease_of db_active ''image'' ''t1'' = Some (f64_of_int (UnixMilli (sample_now + 30 * second)))"
proof -
  have p: "store_ok (id db_pending)" "tasks (id db_pending) ''image'' ''t1'' = Some sample_pending"
    by (simp_all add: db_pending_ok)
  from doc.Claim_pending [OF p(1) sample_ok(1) sample_attempt_id p(2) sample_ok(5) refl, where ft = Delivered and s = New_Store
      and now = sample_now and lease = 0]
  obtain i t where "best_pending db_pending ''image'' i t"
    "lease_of db_active ''image'' = (lease_of db_pending ''image'')(i \<mapsto> f64_of_int (UnixMilli (sample_now + leaseDuration New_Store)))"
    by (auto simp: db_active_def)
  then show ?thesis by (auto simp: best_pending_def db_pending_ok New_Store_def split: if_splits)
qed

lemma db_active_expired:
  "''t1'' \<in> set (lease_ids id (world (sample_state db_active)) (sample_now + 60 * second) ''image'')"
proof -
  let ?Q = "queue_view ''image'' db_active" and ?n = "UnixMilli (sample_now + 60 * second)"
  have i: "qinv ''image'' ?Q" using store_okD [OF db_active_ok(1) sample_ok(1)] by blast
  note z = qinv_containers(11) [OF i]
  have "in_state ?Q ''active'' \<subseteq> {''t1''}"
    using db_active_ok(2) unfolding subset_iff in_state_lookup [OF i] tasks_fun by (simp split: if_splits)
  moreover have "set (due ?n (q_lease ?Q)) \<subseteq> in_state ?Q ''active''"
    unfolding qinv_containers(12) [OF i, symmetric] due_def zmembers_def by auto
  ultimately have "card (set (due ?n (q_lease ?Q))) \<le> card {''t1''}" by (intro card_mono) auto
  then have "length (due ?n (q_lease ?Q)) \<le> 1" unfolding distinct_card [OF due_distinct [OF z, of ?n]] by simp
  then have t: "take 100 (due ?n (q_lease ?Q)) = due ?n (q_lease ?Q)" by simp
  have "f64_of_int (UnixMilli (sample_now + 30 * second)) \<le> f64_of_int ?n"
    by (rule f64_of_int_mono) (simp add: UnixMilli_def sample_now_def second_def)
  then have "''t1'' \<in> set (due ?n (q_lease ?Q))"
    using db_active_lease due_zscore [OF z] by (auto simp: lease_of_def)
  then show ?thesis by (simp add: lease_ids_def sample_world t)
qed


section \<open>Properties\<close>



text \<open>C9. The retry budget is never exceeded. However the dispatcher, the workers, the heartbeat and the recovery loop of
  a server interleave, with any store errors and lost replies and any other clients that keep the budget themselves,
  every durable task and every task in the hands of a worker has made between 0 and \<open>MaxRetry\<close> retries, provided
  that this holds at the start and that handlers do not tamper with the two counters.\<close>

theorem retry_budget_kept:
  assumes "redis_server call view"
    and "engine_inv (fair view within_budget) (durable view) queue_name_ok x"
    and "(server_step (redis_task_store call s) c handler qs)\<^sup>*\<^sup>* x x'"
    and "list_all queue_name_ok qs" and "respectful queue_name_ok handler"
    and "harmless (kept (fair view within_budget) (durable view)) c"
  shows "(\<forall>q i t. durable view (world (shared x')) q i = Some t \<longrightarrow> 0 \<le> RetryCount t \<and> RetryCount t \<le> MaxRetry t)
     \<and> (\<forall>m \<in> set (waiting x') \<union> set (running x'). 0 \<le> RetryCount m \<and> RetryCount m \<le> MaxRetry m)"
proof -
  have "engine_inv (fair view within_budget) (durable view) queue_name_ok x'"
    by (rule budget_store.server_run_inv [OF redis_budget_store [OF assms(1)] assms(3,2,4-6)])
  then show ?thesis by (auto simp: engine_inv_def kept_def bounded_def in_budget_def)
qed

theorem retry_budget_kept_witness:
  "let x = \<lparr>shared = sample_state db_pending, waiting = [], running = []\<rparr>;
       y = dispatch_round (redis_task_store redis_doc New_Store) sample_server [''image''] (\<lambda>_. sample_now) False True (sample_state db_pending);
       x' = x\<lparr>shared := snd y, waiting := dispatched (fst y)\<rparr>
   in \<forall>q i t. durable id (world (shared x')) q i = Some t \<longrightarrow> 0 \<le> RetryCount t \<and> RetryCount t \<le> MaxRetry t"
proof -
  let ?x = "\<lparr>shared = sample_state db_pending, waiting = [], running = []\<rparr> :: keyspace world engine"
  let ?ts = "redis_task_store redis_doc New_Store"
  define y where "y = dispatch_round ?ts sample_server [''image''] (\<lambda>_. sample_now) False True (sample_state db_pending)"
  have "bounded (held_tasks db_pending)"
    using db_pending_held by (fastforce simp: bounded_def in_budget_def sample_pending_def sample_task_def)
  then have "engine_inv (fair id within_budget) (durable id) queue_name_ok ?x"
    using calm_world_fair [OF db_pending_ok(1)] by (simp add: engine_inv_def kept_def sample_world) (simp add: sample_state_def)
  moreover have "server_step ?ts sample_server sample_handler [''image''] ?x (?x\<lparr>shared := snd y, waiting := waiting ?x @ dispatched (fst y)\<rparr>)"
    by (rule server_step.dispatch [of _ _ _ "\<lambda>_. sample_now" False True]) (simp add: y_def)
  moreover have "respectful queue_name_ok sample_handler" by (simp add: respectful_def sample_handler_def)
  moreover have "harmless P sample_server" for P :: "keyspace world \<Rightarrow> bool"
    by (simp add: harmless_def sample_server_def applyDefaults_def)
  ultimately show ?thesis
    using retry_budget_kept [OF doc.redis_server_axioms, of ?x New_Store sample_server sample_handler "[''image'']"
        "?x\<lparr>shared := snd y, waiting := waiting ?x @ dispatched (fst y)\<rparr>"]
    by (simp add: Let_def y_def r_into_rtranclp)
qed





text \<open>C17. The heartbeat renews what the server is working on and nothing else. One tick sets the lease of a task to
  the lease duration from now exactly when some running attempt of this server still owns it; a task whose
  attempt has been taken over, and every task the server does not hold, keeps its lease, and no task changes.\<close>

theorem heartbeat_renews_owned:
  assumes "redis_server call view" and "store_ok (view (w_db (world s)))" and "calm (world s)"
    and "0 < LeaseDuration c" and "distinct order" and "set order = key_queue ` fst ` set (active s)"
    and "list_all queue_name_ok order" and "queue_name_ok q"
    and s': "s' = heartbeat_tick (redis_task_store call st) c now order s"
  shows "lease_of (view (w_db (world s'))) q i =
       (if \<exists>k \<in> fst ` set (active s). key_queue k = q \<and> key_id k = i
             \<and> owner (view (w_db (world s))) q i = Some (key_attemptID k)
        then Some (f64_of_int (UnixMilli (now + LeaseDuration c))) else lease_of (view (w_db (world s))) q i)
     \<and> tasks (view (w_db (world s'))) q = tasks (view (w_db (world s))) q \<and> errors s' = errors s"
proof -
  note h = redis_server.heartbeat_leases [OF assms(1-5,7) s' [unfolded heartbeat_tick_def]]
  have "lease_of (view (w_db (world s'))) q i =
      (if q \<in> set order then renewed (map fst (active s)) (UnixMilli (now + LeaseDuration c)) (view (w_db (world s))) q i
       else lease_of (view (w_db (world s))) q i)" using h assms(8) by blast
  moreover have "(\<exists>k \<in> fst ` set (active s). key_queue k = q \<and> key_id k = i \<and> P k) \<Longrightarrow> q \<in> set order" for P
    unfolding assms(6) by auto
  ultimately show ?thesis using h assms(8) by (auto simp: renewed_def)
qed

theorem heartbeat_renews_owned_witness:
  "lease_of (w_db (world (heartbeat_tick (redis_task_store redis_doc New_Store) sample_server (sample_now + 10 * second) [''image'']
       ((sample_state db_active)\<lparr>active := [(activeKey sample_active, sample_active)]\<rparr>)))) ''image'' ''t1'' =
     Some (f64_of_int (UnixMilli (sample_now + 40 * second)))"
proof -
  let ?s = "(sample_state db_active)\<lparr>active := [(activeKey sample_active, sample_active)]\<rparr>"
  have w: "store_ok (id (w_db (world ?s)))" "calm (world ?s)" by (simp_all add: sample_world db_active_ok)
  have l: "LeaseDuration sample_server = 30 * second" by (simp add: sample_server_def applyDefaults_def dflt_def)
  from heartbeat_renews_owned [OF doc.redis_server_axioms w, of sample_server "[''image'']" "''image''", OF _ _ _ _ _ refl,
      where i = "''t1''" and st = New_Store and now = "sample_now + 10 * second"]
  show ?thesis by (simp add: l activeKey_def sample_world db_active_owner second_def add.commute)
qed

text \<open>C18. The dispatcher serves the queues in order of priority. After the due tasks have been made pending, one
  round claims a task from the first queue that has one pending, and waits only when no queue has any or when the
  limiter says so; a task claimed while the server is stopping goes back to pending, so no claim is lost.\<close>

theorem dispatcher_serves_first_queue:
  assumes "redis_server call view" and "store_ok (view (w_db (world s)))" and "calm (world s)"
    and "list_all queue_name_ok qs" and "quiet (fair view (\<lambda>_ _. True)) calm (durable view) c"
    and "dispatch_round (redis_task_store call st) c qs now False taken s = (r, s')"
  shows "\<exists>s1. readied (durable view (world s)) (durable view (world s1)) \<and>
    (case find (has_pending (durable view (world s1))) qs of
       None \<Rightarrow> r = Waits (PollInterval c) \<and> durable view (world s') = durable view (world s1)
     | Some q \<Rightarrow> (case fst (acquire_token c s1) of
         Some d \<Rightarrow> r = Waits d \<and> durable view (world s') = durable view (world s1)
       | None \<Rightarrow> \<exists>m T. claims (durable view (world s1)) q m T \<and>
           (if taken then r = Dispatched m \<and> durable view (world s') = T
            else r = StoppedWith m \<and> durable view (world s') = put (pending_again m) T)))"
proof -
  have f: "fair view (\<lambda>_ _. True) (world s)" by (rule calm_fair) fact+
  show ?thesis
    by (rule reliable_store.dispatch_sure [OF redis_server.redis_reliable_contract [OF assms(1)] f assms(3-6)])
qed

theorem dispatcher_serves_first_queue_witness:
  "\<exists>m. fst (dispatch_round (redis_task_store redis_doc New_Store) sample_server [''image''] (\<lambda>_. sample_now) False True
       (sample_state db_pending)) = Dispatched m \<and> ID m = ''t1''"
proof -
  obtain r s' where d: "dispatch_round (redis_task_store redis_doc New_Store) sample_server [''image''] (\<lambda>_. sample_now) False True
       (sample_state db_pending) = (r, s')" by (metis prod.exhaust)
  have w: "store_ok (id (w_db (world (sample_state db_pending))))" by (simp add: sample_world db_pending_ok)
  have b: "TokenBucket (sample_server :: keyspace world Config) = None" by (simp add: sample_server_def applyDefaults_def)
  then have q: "quiet P Q H sample_server" for P Q :: "keyspace world \<Rightarrow> bool" and H by (simp add: quiet_def)
  have t: "acquire_token sample_server s1 = (None, s1)" for s1 :: "keyspace world sstate" by (simp add: acquire_token_def b)
  have l: "list_all queue_name_ok [''image'']" by simp
  from dispatcher_serves_first_queue [OF doc.redis_server_axioms, OF w sample_world(2) l q d] obtain s1 where
    s1: "readied (durable id (world (sample_state db_pending))) (durable id (world s1))"
    and c: "case find (has_pending (durable id (world s1))) [''image''] of
       None \<Rightarrow> r = Waits (PollInterval (sample_server :: keyspace world Config)) \<and> durable id (world s') = durable id (world s1)
     | Some q \<Rightarrow> (case fst (acquire_token sample_server s1) of
         Some d \<Rightarrow> r = Waits d \<and> durable id (world s') = durable id (world s1)
       | None \<Rightarrow> \<exists>m T. claims (durable id (world s1)) q m T \<and>
           (if True then r = Dispatched m \<and> durable id (world s') = T
            else r = StoppedWith m \<and> durable id (world s') = put (pending_again m) T))"
    by blast
  have p: "durable id (world s1) ''image'' i = (if i = ''t1'' then Some sample_pending else None)" for i
    using s1 [unfolded readied_def, rule_format, of "''image''" i]
    by (auto simp: sample_world held_named db_pending_ok split: if_splits)
  have "has_pending (durable id (world s1)) ''image''" by (simp add: has_pending_def p)
  with c t obtain m where m: "claims (durable id (world s1)) ''image'' m (durable id (world s'))" "r = Dispatched m" by auto
  from m(1) have "durable id (world s1) ''image'' (ID m) \<noteq> None" by (auto simp: claims_def)
  with p [of "ID m"] m(2) show ?thesis unfolding d by (auto split: if_splits)
qed

end
