(* ===== verification/LifecycleProperties.thy ===== *)
theory LifecycleProperties
  imports LifecycleInvariant ServerProperties
begin

text \<open>
  What the lifecycle of a server guarantees: that its state only moves forward, that a finished \<open>Shutdown\<close> leaves
  nothing running, that the transitions of running jobs keep their context, and that a stop always drains.
\<close>

section \<open>Work left in a stopped server\<close>

fun dispatcher_left :: "dispatcher option \<Rightarrow> nat" where
  "dispatcher_left (Some DRound) = 7"
| "dispatcher_left (Some (DSend m)) = 6"
| "dispatcher_left (Some DWait) = 4"
| "dispatcher_left (Some DHead) = 3"
| "dispatcher_left (Some DCloseJobs) = 2"
| "dispatcher_left (Some DCloseDone) = 1"
| "dispatcher_left _ = 0"

fun worker_left :: "worker \<Rightarrow> nat" where
  "worker_left (WGot m) = 3"
| "worker_left (WBusy m k) = 2"
| "worker_left WIdle = 1"
| "worker_left WDone = 0"

definition work_left :: "'w Server \<Rightarrow> nat" where
  "work_left s = dispatcher_left (sv_dispatcher s) + sum_list (map worker_left (sv_workers s))"

text \<open>The steps a \<open>Shutdown\<close> can still take, and its deadline.\<close>

fun waiter_left :: "waiter \<Rightarrow> nat" where
  "waiter_left Entering = 1"
| "waiter_left (Armed f) = 0"

fun drain_left :: "drain \<Rightarrow> nat" where
  "drain_left AwaitDispatch = 2"
| "drain_left AwaitWorkers = 1"
| "drain_left Drained = 0"

fun shutdown_left :: "call \<Rightarrow> nat" where
  "shutdown_left CallShutdown = 10"
| "shutdown_left (ShutRequest dl) = 9"
| "shutdown_left (ShutWork dl w p) = 5 + waiter_left w + drain_left p"
| "shutdown_left (ShutCancel dl) = 4"
| "shutdown_left (ShutMaintenance dl w over) = 1 + waiter_left w + (if over then 0 else 1)"
| "shutdown_left ShutAbort = 1"
| "shutdown_left _ = 0"

fun deadline_of :: "call \<Rightarrow> gotime option" where
  "deadline_of (ShutWork dl w p) = Some dl"
| "deadline_of (ShutMaintenance dl w over) = Some dl"
| "deadline_of _ = None"

text \<open>The order of the states.\<close>

fun state_rank :: "serverState \<Rightarrow> nat" where
  "state_rank stateNew = 0"
| "state_rank stateRunning = 1"
| "state_rank stateStopped = 2"


section \<open>Lemmas\<close>

lemma work_left_step: "work_step s t \<Longrightarrow> sv_stopCh s \<Longrightarrow> work_left t < work_left s"
proof (induction rule: work_step.induct)
  case (round s ts now r l)
  then show ?case using round_waits_or_sends [OF round(3)] by (auto simp: work_left_def)
qed (simp_all add: work_left_def)

lemma stopped_call:
  assumes "sv_state s = stateStopped" and "(c', s') \<in> set (call_next c s)"
  shows "labour s' = labour s" and "sv_stopCh s' = sv_stopCh s"
proof -
  have "snd (Start s) = s" "snd (requestStop s) = s" using assms(1) by (simp_all add: Start_def requestStop_def)
  then show "labour s' = labour s" "sv_stopCh s' = sv_stopCh s"
    using assms by (cases c; auto simp: labour_def cancel_def Start_def requestStop_def split: if_splits)+
qed

lemma stopped_caller:
  assumes "caller_step s t" and "sv_state s = stateStopped"
  shows "labour t = labour s \<and> sv_stopCh t = sv_stopCh s"
  using assms
proof (induction rule: caller_step.induct)
  case (advance s xs c ys c' s')
  then show ?case using stopped_call [OF advance(3,2)] by (simp add: labour_def)
qed (simp_all add: labour_def)

lemma labour_left: "labour t = labour s \<Longrightarrow> work_left t = work_left s"
  by (simp add: labour_def work_left_def)

lemma not_done_split: "\<not> set ws \<subseteq> {WDone} \<Longrightarrow> \<exists>xs w ys. ws = xs @ w # ys \<and> w \<noteq> WDone"
  by (metis insertI1 split_list subsetI)

lemma work_progress:
  assumes inv: "life_inv s" and stop: "sv_stopCh s" and more: "\<not> work_done s"
  shows "\<exists>t. work_step s t"
proof -
  have i: "ctl_inv s" "work_inv s" using inv by (simp_all add: life_inv_def)
  have "sv_state s \<noteq> stateNew" using i(1) stop by (auto simp: ctl_inv_def)
  then obtain ts h d where o: "sv_store s = Some ts" "sv_handler s = Some h" "sv_dispatcher s = Some d"
    using i(1) by (auto simp: ctl_inv_def)
  show ?thesis
  proof (cases "d = DDone")
    case False
    obtain r l where "dispatch_round ts (sv_cfg s) (sv_queues s) (\<lambda>_. 0) False True (sv_loops s) = (r, l)" by (metis prod.exhaust)
    with False show ?thesis using o stop by (cases d) (blast intro: work_step.intros)+
  next
    case True
    then have jobs: "sv_jobs s" and "\<not> set (sv_workers s) \<subseteq> {WDone}"
      using i(2) o more work_done_alt [OF i(2)] by (auto simp: work_inv_def)
    then obtain xs w ys where w: "sv_workers s = xs @ w # ys" "w \<noteq> WDone" using not_done_split by blast
    have "\<exists>k l. trackActive m (sv_loops s) = (k, l)" for m by (metis prod.exhaust)
    then show ?thesis using w o jobs by (cases w) (blast intro: work_step.intros)+
  qed
qed

lemma works_stopped:
  assumes "works s n t" and "life_inv s" and "sv_stopCh s"
  shows "life_inv t \<and> sv_stopCh t \<and> n + work_left t \<le> work_left s \<and> (sv_dispatcher s \<noteq> Some DRound \<longrightarrow> sv_dispatcher t \<noteq> Some DRound)
    \<and> sv_cfg t = sv_cfg s"
  using assms(1)
proof (induction rule: works.induct)
  case here
  then show ?case using assms(2,3) by simp
next
  case (work n t u)
  have *: "life_inv u" "onward t u" using step_work [OF work(2)] work.IH by blast+
  have "sv_dispatcher t \<noteq> Some DRound \<Longrightarrow> sv_dispatcher u \<noteq> Some DRound"
    using work(2) work.IH by (induction rule: work_step.induct) auto
  with * work.IH work_left_step [OF work(2)] show ?case by (auto simp: onward_def)
next
  case (other n t u)
  have *: "life_inv u" "onward t u" using other(2) step_maintenance step_caller other.IH by blast+
  have "sv_state t = stateStopped" using other.IH by (auto simp: life_inv_def ctl_inv_def)
  then have "labour u = labour t" using other(2) maintenance_frame stopped_caller by blast
  moreover from this have "sv_dispatcher u = sv_dispatcher t" by (simp add: labour_def)
  ultimately show ?case using * other.IH labour_left [of u t] by (auto simp: onward_def)
qed

lemma work_left_bound: "work_left s \<le> 7 + 3 * length (sv_workers s)"
proof -
  have "worker_left w \<le> 3" for w by (cases w) simp_all
  then have "sum_list (map worker_left ws) \<le> 3 * length ws" for ws by (induction ws) (simp_all add: add_mono)
  moreover have "dispatcher_left d \<le> 7" for d by (cases d rule: dispatcher_left.cases) simp_all
  ultimately show ?thesis unfolding work_left_def by (metis add_mono)
qed

lemma rank_step: "lifecycle_step s t \<Longrightarrow> life_inv s \<Longrightarrow> state_rank (sv_state s) \<le> state_rank (sv_state t)"
proof -
  assume "lifecycle_step s t" "life_inv s"
  then have "onward s t" "ctl_inv s" "ctl_inv t" using step_life by (auto simp: life_inv_def)
  then show ?thesis by (cases "sv_state s"; cases "sv_state t") (auto simp: onward_def ctl_inv_def)
qed

lemma nothing_left:
  assumes "life_inv s" and "work_done s" and "maintenance_done s"
  shows "\<not> work_step s t" and "\<not> maintenance_step s t" and "active (sv_loops s) = []"
proof -
  have i: "work_inv s" "maintenance_inv s" using assms(1) by (simp_all add: life_inv_def)
  show "\<not> work_step s t" using work_done_stable i assms(2) by blast
  show "\<not> maintenance_step s t" using maintenance_upkeep i assms(3) by blast
  have "busy (sv_workers s) = {}" using busy_done work_done_alt [OF i(1)] assms(2) by blast
  then show "active (sv_loops s) = []" using i(1) by (simp add: work_inv_def)
qed

lemma shutdown_left_bound: "shutdown_left c \<le> 10"
proof (cases c)
  case (ShutWork dl w p)
  then show ?thesis by (cases w; cases p) simp_all
next
  case (ShutMaintenance dl w over)
  then show ?thesis by (cases w) simp_all
qed simp_all

lemma shutdown_left_step:
  assumes "(c', s') \<in> set (call_next c s)" and "0 < shutdown_left c"
  shows "shutdown_left c' < shutdown_left c"
proof (cases c)
  case (ShutWork dl w p)
  then show ?thesis using assms(1) by (cases w; cases p) (auto simp: Let_def split: if_splits)
next
  case (ShutMaintenance dl w over)
  then show ?thesis using assms(1) by (cases w) (auto simp: Let_def split: if_splits)
qed (use assms in \<open>auto split: if_splits\<close>)

lemma shutdown_blocked:
  assumes "call_inv s c" and "0 < shutdown_left c" and "call_next c s = []"
  shows "\<exists>dl. deadline_of c = Some dl \<and> sv_clock s < dl \<and> \<not> (work_done s \<and> maintenance_done s)"
proof (cases c)
  case (ShutWork dl w p)
  then show ?thesis using assms by (cases w; cases p) (auto simp: Let_def work_done_def split: if_splits)
next
  case (ShutMaintenance dl w over)
  then show ?thesis using assms by (cases w; cases over) (auto simp: Let_def split: if_splits)
qed (use assms in auto)


text \<open>A claimed task that waits for a worker is not among the tasks whose leases the heartbeat renews.\<close>

lemma waiting_task_not_renewed:
  assumes "lives s" and "sv_dispatcher s = Some (DSend msg)" and "activeKey msg \<notin> busy (sv_workers s)"
  shows "activeKey msg \<notin> fst ` set (active (sv_loops s))"
  using lives_inv [OF assms(1)] assms(3) by (auto simp: life_inv_def work_inv_def)


section \<open>A sample life\<close>

text \<open>A server on Redis is run by one call, interrupted, and shut down while it is idle.\<close>

definition sample_fresh :: "keyspace world Server" where
  "sample_fresh = New (Some (redis_task_store redis_doc New_Store)) (Some sample_handler) (sample_server\<lparr>Concurrency := 1\<rparr>)
     (calm_world empty_db) None sample_now"

definition sample_up :: "keyspace world Server" where
  "sample_up = (snd (Start sample_fresh))\<lparr>sv_calls := [RunSelect True]\<rparr>"

definition sample_stopping :: "keyspace world Server" where
  "sample_stopping = (snd (requestStop sample_up))\<lparr>sv_calls := [ShutWork (sample_now + 8 * second) Entering AwaitDispatch]\<rparr>"

definition sample_drained :: "keyspace world Server" where
  "sample_drained = sample_stopping\<lparr>sv_jobs := True, sv_dispatchDone := True, sv_dispatcher := Some DDone, sv_workers := [WDone],
     sv_calls := [ShutWork (sample_now + 8 * second) Entering Drained]\<rparr>"

definition sample_finished :: "keyspace world Server" where
  "sample_finished = (cancel sample_drained)\<lparr>sv_wheel := Some WheelDone, sv_heartbeat := Some True, sv_recovery := Some True, sv_calls := [Returned None]\<rparr>"

text \<open>A server that \<open>Stop\<close> has stopped, with its worker not yet gone.\<close>

definition sample_cut_off :: "keyspace world Server" where
  "sample_cut_off = (cancel (snd (requestStop sample_up)))\<lparr>sv_calls := [RunSelect True, StopReturned]\<rparr>"

lemma lives_call:
  "lives s \<Longrightarrow> sv_calls s = xs @ c # ys \<Longrightarrow> (c', s') \<in> set (call_next c s) \<Longrightarrow> lives (s'\<lparr>sv_calls := xs @ c' # ys\<rparr>)"
  using lives.step caller_step.advance by (metis lifecycle_step_def)

lemma lives_work: "lives s \<Longrightarrow> work_step s t \<Longrightarrow> lives t"
  and lives_maintenance: "lives s \<Longrightarrow> maintenance_step s t \<Longrightarrow> lives t"
  and lives_enter: "lives s \<Longrightarrow> c \<in> {CallStart, CallStop, CallRun, CallShutdown} \<Longrightarrow> lives (s\<lparr>sv_calls := sv_calls s @ [c]\<rparr>)"
  and lives_interrupt: "lives s \<Longrightarrow> sv_calls s = xs @ RunSelect False # ys \<Longrightarrow> lives (s\<lparr>sv_calls := xs @ RunSelect True # ys\<rparr>)"
  using lives.step caller_step.enter caller_step.interrupt by (metis lifecycle_step_def)+

lemma sample_start:
  "Start sample_fresh = (None, sample_fresh\<lparr>sv_state := stateRunning, sv_wheel := Some WheelLoop, sv_dispatcher := Some DHead,
     sv_workers := [WIdle], sv_heartbeat := Some False, sv_recovery := Some False\<rparr>)"
  by (simp add: Start_def sample_fresh_def New_def Let_def validate_def sample_server_def applyDefaults_def dflt_def second_def)

lemma sample_fresh_sel [simp]:
  "sv_state sample_fresh = stateNew" "sv_calls sample_fresh = []" "sv_clock sample_fresh = sample_now" "\<not> sv_stopCh sample_fresh"
  "\<not> sv_stopOne sample_fresh" "\<not> sv_panic sample_fresh" "\<not> sv_jobs sample_fresh" "\<not> sv_dispatchDone sample_fresh"
  "ShutdownTimeout (sv_cfg sample_fresh) = 8 * second"
  by (simp_all add: sample_fresh_def New_def Let_def sample_server_def applyDefaults_def dflt_def second_def)

lemma sample_up_sel:
  "sample_up = sample_fresh\<lparr>sv_state := stateRunning, sv_wheel := Some WheelLoop, sv_dispatcher := Some DHead,
     sv_workers := [WIdle], sv_heartbeat := Some False, sv_recovery := Some False, sv_calls := [RunSelect True]\<rparr>"
  by (simp add: sample_up_def sample_start)

lemma sample_up_lives: "lives sample_up"
proof -
  have "lives (sample_fresh\<lparr>sv_calls := sv_calls sample_fresh @ [CallRun]\<rparr>)"
    by (rule lives_enter) (simp_all add: sample_fresh_def lives.new)
  moreover have "Start (sample_fresh\<lparr>sv_calls := cs\<rparr>) = map_prod id (\<lambda>s. s\<lparr>sv_calls := cs\<rparr>) (Start sample_fresh)" for cs
    by (simp add: Start_def split: option.splits)
  ultimately have "lives ((snd (Start sample_fresh))\<lparr>sv_calls := [RunSelect False]\<rparr>)"
    using lives_call [of "sample_fresh\<lparr>sv_calls := [CallRun]\<rparr>" "[]" CallRun "[]" "RunSelect False" "(snd (Start sample_fresh))\<lparr>sv_calls := [CallRun]\<rparr>"]
    by (simp add: sample_start)
  from lives_interrupt [OF this, of "[]" "[]"] show ?thesis by (simp add: sample_up_def)
qed

lemma sample_stop:
  "requestStop (sample_up\<lparr>sv_calls := cs\<rparr>) = (True, (snd (requestStop sample_up))\<lparr>sv_calls := cs\<rparr>)"
  by (simp add: requestStop_def close_stopCh_def Let_def sample_up_sel)

lemma sample_stopping_lives: "lives sample_stopping"
proof -
  let ?c = "\<lambda>c. sample_up\<lparr>sv_calls := [c]\<rparr>" and ?dl = "sample_now + 8 * second"
  have "lives (?c CallShutdown)"
    using lives_call [OF sample_up_lives, of "[]" "RunSelect True" "[]" CallShutdown sample_up] by (simp add: sample_up_sel)
  then have "lives (?c (ShutRequest ?dl))"
    using lives_call [of "?c CallShutdown" "[]" CallShutdown "[]" "ShutRequest ?dl" "?c CallShutdown"] by (simp add: sample_up_sel)
  then show ?thesis
    using lives_call [of "?c (ShutRequest ?dl)" "[]" "ShutRequest ?dl" "[]" "ShutWork ?dl Entering AwaitDispatch"
        "(snd (requestStop sample_up))\<lparr>sv_calls := [ShutRequest ?dl]\<rparr>"] by (simp add: sample_stop sample_stopping_def)
qed

lemma sample_cut_off_lives: "lives sample_cut_off"
proof -
  have u: "sv_calls sample_up = [RunSelect True]" by (simp add: sample_up_sel)
  have "lives (sample_up\<lparr>sv_calls := [RunSelect True, CallStop]\<rparr>)"
    using lives_enter [OF sample_up_lives, of CallStop] by (simp add: u)
  then have "lives ((snd (requestStop sample_up))\<lparr>sv_calls := [RunSelect True, StopCancel]\<rparr>)"
    using lives_call [of "sample_up\<lparr>sv_calls := [RunSelect True, CallStop]\<rparr>" "[RunSelect True]" CallStop "[]" StopCancel
        "(snd (requestStop sample_up))\<lparr>sv_calls := [RunSelect True, CallStop]\<rparr>"] by (simp add: sample_stop)
  from lives_call [OF this, of "[RunSelect True]" StopCancel "[]" StopReturned "cancel ((snd (requestStop sample_up))\<lparr>sv_calls := [RunSelect True, StopCancel]\<rparr>)"]
  show ?thesis by (simp add: sample_cut_off_def cancel_def)
qed

lemma sample_stopping_sel:
  "sample_stopping = sample_fresh\<lparr>sv_state := stateStopped, sv_stopOne := True, sv_stopCh := True, sv_handlerCtx := True, sv_panic := False,
     sv_wheel := Some WheelLoop, sv_dispatcher := Some DHead, sv_workers := [WIdle], sv_heartbeat := Some False, sv_recovery := Some False,
     sv_calls := [ShutWork (sample_now + 8 * second) Entering AwaitDispatch]\<rparr>"
  by (simp add: sample_stopping_def sample_up_sel requestStop_def close_stopCh_def Let_def)

lemma sample_drained_lives: "lives sample_drained"
proof -
  let ?s = "sample_stopping" and ?dl = "sample_now + 8 * second"
  have "lives (?s\<lparr>sv_dispatcher := Some DCloseJobs\<rparr>)"
    using lives_work [OF sample_stopping_lives work_step.head] by (simp add: sample_stopping_sel)
  from lives_work [OF this work_step.close_jobs] have "lives (?s\<lparr>sv_jobs := True, sv_dispatcher := Some DCloseDone\<rparr>)"
    by (simp add: sample_stopping_sel sample_fresh_def New_def Let_def)
  from lives_work [OF this work_step.close_done] have "lives (?s\<lparr>sv_jobs := True, sv_dispatchDone := True, sv_dispatcher := Some DDone\<rparr>)"
    by (simp add: sample_stopping_sel sample_fresh_def New_def Let_def)
  from lives_work [OF this work_step.exit [of _ "[]" "[]"]] have "lives (?s\<lparr>sv_jobs := True, sv_dispatchDone := True, sv_dispatcher := Some DDone, sv_workers := [WDone]\<rparr>)" (is "lives ?t")
    by (simp add: sample_stopping_sel sample_fresh_def New_def Let_def)
  then have "lives (?t\<lparr>sv_calls := [ShutWork ?dl Entering AwaitWorkers]\<rparr>)"
    using lives_call [of ?t "[]" "ShutWork ?dl Entering AwaitDispatch" "[]" "ShutWork ?dl Entering AwaitWorkers" ?t] by (simp add: sample_stopping_sel)
  then show ?thesis
    using lives_call [of "?t\<lparr>sv_calls := [ShutWork ?dl Entering AwaitWorkers]\<rparr>" "[]" "ShutWork ?dl Entering AwaitWorkers" "[]"
        "ShutWork ?dl Entering Drained" "?t\<lparr>sv_calls := [ShutWork ?dl Entering AwaitWorkers]\<rparr>"] by (simp add: sample_drained_def)
qed

lemmas sample_lit = cancel_def sample_drained_def sample_stopping_sel sample_fresh_def New_def Let_def

lemma sample_finished_lives: "lives sample_finished"
proof -
  let ?dl = "sample_now + 8 * second"
  let ?c = "\<lambda>c. sample_drained\<lparr>sv_calls := [c]\<rparr>"
  let ?m = "\<lambda>w h r c. (cancel sample_drained)\<lparr>sv_wheel := Some w, sv_heartbeat := Some h, sv_recovery := Some r, sv_calls := [c]\<rparr>"
  have d: "sv_calls sample_drained = [ShutWork ?dl Entering Drained]" "sv_clock sample_drained = sample_now"
    "sv_wheel sample_drained = Some WheelLoop" "sv_heartbeat sample_drained = Some False" "sv_recovery sample_drained = Some False"
    by (simp_all add: sample_drained_def sample_stopping_sel)
  have "lives (?c (ShutWork ?dl (Armed ?dl) Drained))"
    using lives_call [OF sample_drained_lives, of "[]" "ShutWork ?dl Entering Drained" "[]" "ShutWork ?dl (Armed ?dl) Drained" sample_drained]
    by (simp add: d time_Sub_def Let_def second_def)
  then have "lives (?c (ShutCancel ?dl))"
    using lives_call [of "?c (ShutWork ?dl (Armed ?dl) Drained)" "[]" "ShutWork ?dl (Armed ?dl) Drained" "[]" "ShutCancel ?dl" "?c (ShutWork ?dl (Armed ?dl) Drained)"]
    by simp
  then have "lives ((cancel (?c (ShutCancel ?dl)))\<lparr>sv_calls := [ShutMaintenance ?dl Entering False]\<rparr>)" (is "lives ?s")
    using lives_call [of "?c (ShutCancel ?dl)" "[]" "ShutCancel ?dl" "[]" "ShutMaintenance ?dl Entering False" "cancel (?c (ShutCancel ?dl))"] by simp
  also have "?s = ?m WheelLoop False False (ShutMaintenance ?dl Entering False)" by (simp add: cancel_def d)
  finally have t: "lives (?m WheelLoop False False (ShutMaintenance ?dl Entering False))" .
  from lives_maintenance [OF t maintenance_step.wheel_exit] have "lives (?m WheelDone False False (ShutMaintenance ?dl Entering False))"
    by (simp add: sample_lit)
  from lives_maintenance [OF this maintenance_step.heartbeat_exit] have "lives (?m WheelDone True False (ShutMaintenance ?dl Entering False))"
    by (simp add: sample_lit)
  from lives_maintenance [OF this maintenance_step.recovery_exit] have "lives (?m WheelDone True True (ShutMaintenance ?dl Entering False))"
    by (simp add: sample_lit)
  then have "lives (?m WheelDone True True (ShutMaintenance ?dl Entering True))"
    using lives_call [of "?m WheelDone True True (ShutMaintenance ?dl Entering False)" "[]" "ShutMaintenance ?dl Entering False" "[]"
        "ShutMaintenance ?dl Entering True" "?m WheelDone True True (ShutMaintenance ?dl Entering False)"] by (simp add: maintenance_done_def)
  then have "lives (?m WheelDone True True (ShutMaintenance ?dl (Armed ?dl) True))"
    using lives_call [of "?m WheelDone True True (ShutMaintenance ?dl Entering True)" "[]" "ShutMaintenance ?dl Entering True" "[]"
        "ShutMaintenance ?dl (Armed ?dl) True" "?m WheelDone True True (ShutMaintenance ?dl Entering True)"]
    by (simp add: cancel_def d time_Sub_def Let_def second_def)
  then show ?thesis
    using lives_call [of "?m WheelDone True True (ShutMaintenance ?dl (Armed ?dl) True)" "[]" "ShutMaintenance ?dl (Armed ?dl) True" "[]"
        "Returned None" "?m WheelDone True True (ShutMaintenance ?dl (Armed ?dl) True)"] by (simp add: sample_finished_def)
qed


section \<open>Properties\<close>

text \<open>C15. A server lives forward and consistently, whatever its callers do and however the goroutines interleave: no
  channel is ever closed twice; the stop channel is closed and the handlers' context cancelled exactly when the state is
  stopped, the lifecycle context is cancelled only then; a server that was started has exactly \<open>Concurrency\<close> workers,
  and no step takes the state backward, so that a server is started at most once.\<close>

theorem server_life_is_consistent:
  assumes "lives s"
  shows "\<not> sv_panic s \<and> (sv_stopCh s \<longleftrightarrow> sv_state s = stateStopped) \<and> (sv_handlerCtx s \<longleftrightarrow> sv_state s = stateStopped)
    \<and> (sv_ctx s \<longrightarrow> sv_state s = stateStopped)
    \<and> int (length (sv_workers s)) = (if sv_state s = stateNew then 0 else max 0 (Concurrency (sv_cfg s)))
    \<and> (\<forall>t. lifecycle_step s t \<longrightarrow> state_rank (sv_state s) \<le> state_rank (sv_state t))"
proof -
  have inv: "life_inv s" by (rule lives_inv [OF assms])
  then show ?thesis using rank_step [OF _ inv] by (auto simp: life_inv_def ctl_inv_def work_inv_def)
qed

theorem server_life_is_consistent_witness:
  "\<not> sv_panic sample_finished \<and> sv_handlerCtx sample_finished \<and> int (length (sv_workers sample_finished)) = 1"
  using server_life_is_consistent [OF sample_finished_lives]
  by (simp add: sample_finished_def sample_drained_def sample_stopping_sel cancel_def)

text \<open>C12. When \<open>Shutdown\<close> of a started server (and so \<open>Run\<close> or \<open>RunSignals\<close>) returns nil, nothing of the server is left running: the
  dispatcher, every worker and every maintenance goroutine has returned, no task is tracked as active, and no
  goroutine of the server can take another step.\<close>

theorem shutdown_nil_means_finished:
  assumes "lives s" and "Returned None \<in> set (sv_calls s)"
  shows "work_done s \<and> maintenance_done s \<and> active (sv_loops s) = [] \<and> (\<forall>t. \<not> work_step s t \<and> \<not> maintenance_step s t)"
proof -
  have inv: "life_inv s" by (rule lives_inv [OF assms(1)])
  then have "call_inv s (Returned None)" using assms(2) unfolding life_inv_def list_all_iff by blast
  then show ?thesis using nothing_left [OF inv] by simp
qed

theorem shutdown_nil_means_finished_witness:
  "work_done sample_finished \<and> maintenance_done sample_finished \<and> active (sv_loops sample_finished) = []
   \<and> (\<forall>t. \<not> work_step sample_finished t \<and> \<not> maintenance_step sample_finished t)"
  using shutdown_nil_means_finished [OF sample_finished_lives] by (simp add: sample_finished_def)

text \<open>C14. The lifecycle context, which the calls of the store use, outlives the work: as long as the dispatcher or a
  worker has not returned it is cancelled only if somebody cut the work short, by a \<open>Stop\<close> that has returned or a
  \<open>Shutdown\<close> that has returned its timeout error. In an orderly shutdown every running job can still acknowledge, retry or
  archive its task.\<close>

theorem lifecycle_context_outlives_work:
  assumes "lives s" and "sv_ctx s" and "\<not> work_done s"
  shows "StopReturned \<in> set (sv_calls s) \<or> Returned (Some (shutdown_timeout (sv_cfg s))) \<in> set (sv_calls s)"
  using lives_inv [OF assms(1)] assms(2,3) by (simp add: life_inv_def cut_short_def)

theorem lifecycle_context_outlives_work_witness:
  "sv_ctx sample_cut_off \<and> \<not> work_done sample_cut_off
   \<and> (StopReturned \<in> set (sv_calls sample_cut_off) \<or> Returned (Some (shutdown_timeout (sv_cfg sample_cut_off))) \<in> set (sv_calls sample_cut_off))"
proof -
  have "sv_ctx sample_cut_off" "\<not> work_done sample_cut_off"
    by (simp_all add: sample_cut_off_def cancel_def work_done_def sample_up_sel requestStop_def close_stopCh_def Let_def)
  then show ?thesis using lifecycle_context_outlives_work [OF sample_cut_off_lives] by blast
qed

text \<open>C13. A stopped server drains: along every continuation of its life the dispatcher and the workers take at most
  \<open>7 + 3 * Concurrency\<close> steps, as long as they have not all returned one of them can take a step, whatever the other
  goroutines and the callers do, and no new round of claiming begins. A step of a worker is a whole handler
  call, so the bound supposes that handlers return.\<close>

theorem stopped_server_drains:
  assumes "lives s" and "sv_stopCh s" and "works s n t"
  shows "n \<le> 7 + 3 * nat (Concurrency (sv_cfg s)) \<and> (work_done t \<or> (\<exists>u. work_step t u))
    \<and> (sv_dispatcher s \<noteq> Some DRound \<longrightarrow> sv_dispatcher t \<noteq> Some DRound)"
proof -
  have inv: "life_inv s" by (rule lives_inv [OF assms(1)])
  note w = works_stopped [OF assms(3) inv assms(2)]
  have "length (sv_workers s) = nat (Concurrency (sv_cfg s))"
    using inv assms(2) by (auto simp: life_inv_def work_inv_def ctl_inv_def)
  then have "n \<le> 7 + 3 * nat (Concurrency (sv_cfg s))" using w work_left_bound [of s] by simp
  then show ?thesis using w work_progress by blast
qed

theorem stopped_server_drains_witness:
  "works sample_stopping 1 (sample_stopping\<lparr>sv_dispatcher := Some DCloseJobs\<rparr>) \<and> (1::nat) \<le> 7 + 3 * nat (Concurrency (sv_cfg sample_stopping))"
proof -
  have stop: "sv_stopCh sample_stopping" "sv_dispatcher sample_stopping = Some DHead" by (simp_all add: sample_stopping_sel)
  have "works sample_stopping (Suc 0) (sample_stopping\<lparr>sv_dispatcher := Some DCloseJobs\<rparr>)"
    using works.work [OF works.here work_step.head [OF stop(2)]] stop(1) by simp
  then show ?thesis using stopped_server_drains [OF sample_stopping_lives stop(1)] by fastforce
qed



end
