(* ===== verification/DoubleOps.thy ===== *)
theory DoubleOps
  imports Float64
begin

text \<open>
  Arithmetic on doubles over the whole range, as Lua and Go compute it: the exact result is rounded to
  53 significant bits, to a multiple of \<open>2 ^ -1074\<close> below the normal range, and to an infinity from
  \<open>2 ^ 1024\<close> on. The two zeros are one value; no code here divides by a zero.
\<close>

definition round_even :: "rat \<Rightarrow> int" where
  "round_even y = (let q = \<lfloor>y\<rfloor>; r = y - of_int q in if 1 / 2 < r \<or> r = 1 / 2 \<and> odd q then q + 1 else q)"

definition quantum :: rat where
  "quantum = 1 / 2 ^ 1074"

definition huge :: rat where
  "huge = 2 ^ 1024"

definition nearest :: "rat \<Rightarrow> rat" where
  "nearest x = (if \<bar>x\<bar> < 2 ^ 52 * quantum then of_int (round_even (x / quantum)) * quantum else f64 x)"

definition dround :: "rat \<Rightarrow> double" where
  "dround x = (let r = nearest x in if huge \<le> r then PosInf else if r \<le> - huge then NegInf else Fin r)"

text \<open>The finite doubles.\<close>

definition is_double :: "rat \<Rightarrow> bool" where
  "is_double x \<longleftrightarrow> dround x = Fin x"

fun dneg :: "double \<Rightarrow> double" where
  "dneg (Fin a) = Fin (- a)"
| "dneg PosInf = NegInf"
| "dneg NegInf = PosInf"
| "dneg NaN = NaN"

fun dadd :: "double \<Rightarrow> double \<Rightarrow> double" where
  "dadd (Fin a) (Fin b) = dround (a + b)"
| "dadd NaN y = NaN"
| "dadd x NaN = NaN"
| "dadd PosInf NegInf = NaN"
| "dadd NegInf PosInf = NaN"
| "dadd PosInf y = PosInf"
| "dadd x PosInf = PosInf"
| "dadd NegInf y = NegInf"
| "dadd x NegInf = NegInf"

definition dsub :: "double \<Rightarrow> double \<Rightarrow> double" where
  "dsub x y = dadd x (dneg y)"

definition dsgn :: "double \<Rightarrow> int" where
  "dsgn x = (case x of Fin a \<Rightarrow> (if 0 < a then 1 else if a < 0 then - 1 else 0) | PosInf \<Rightarrow> 1 | NegInf \<Rightarrow> - 1 | NaN \<Rightarrow> 0)"

definition signed_inf :: "int \<Rightarrow> double" where
  "signed_inf s = (if 0 < s then PosInf else if s < 0 then NegInf else NaN)"

definition dmul :: "double \<Rightarrow> double \<Rightarrow> double" where
  "dmul x y = (case (x, y) of
     (Fin a, Fin b) \<Rightarrow> dround (a * b)
   | (NaN, _) \<Rightarrow> NaN
   | (_, NaN) \<Rightarrow> NaN
   | _ \<Rightarrow> signed_inf (dsgn x * dsgn y))"

definition ddiv :: "double \<Rightarrow> double \<Rightarrow> double" where
  "ddiv x y = (case (x, y) of
     (NaN, _) \<Rightarrow> NaN
   | (_, NaN) \<Rightarrow> NaN
   | (Fin a, Fin b) \<Rightarrow> if b = 0 then signed_inf (dsgn x) else dround (a / b)
   | (Fin a, _) \<Rightarrow> Fin 0
   | (_, Fin b) \<Rightarrow> signed_inf (if b < 0 then - dsgn x else dsgn x)
   | _ \<Rightarrow> NaN)"

definition dfloor :: "double \<Rightarrow> double" where
  "dfloor x = (case x of Fin a \<Rightarrow> Fin (of_int \<lfloor>a\<rfloor>) | _ \<Rightarrow> x)"

definition dceil :: "double \<Rightarrow> double" where
  "dceil x = (case x of Fin a \<Rightarrow> Fin (of_int \<lceil>a\<rceil>) | _ \<Rightarrow> x)"


section \<open>Lemmas\<close>

lemma round_even_bounds: "of_int (round_even y) - y \<le> 1 / 2" "y - of_int (round_even y) \<le> 1 / 2"
proof -
  define q where "q = \<lfloor>y\<rfloor>"
  have "of_int q \<le> y" "y < of_int q + 1" unfolding q_def by linarith+
  then show "of_int (round_even y) - y \<le> 1 / 2" "y - of_int (round_even y) \<le> 1 / 2"
    unfolding round_even_def Let_def q_def [symmetric] by (auto split: if_splits)
qed

lemma round_even_mono: "x \<le> y \<Longrightarrow> round_even x \<le> round_even y"
proof -
  assume le: "x \<le> y"
  show ?thesis
  proof (cases "\<lfloor>x\<rfloor> = \<lfloor>y\<rfloor>")
    case True
    with le show ?thesis by (auto simp: round_even_def Let_def)
  next
    case False
    then have "\<lfloor>x\<rfloor> + 1 \<le> \<lfloor>y\<rfloor>" using floor_mono [OF le] by linarith
    moreover have "round_even x \<le> \<lfloor>x\<rfloor> + 1" "\<lfloor>y\<rfloor> \<le> round_even y" by (simp_all add: round_even_def Let_def)
    ultimately show ?thesis by linarith
  qed
qed

lemma round_even_int [simp]: "round_even (of_int n) = n"
  by (simp add: round_even_def Let_def)

lemma f64_error:
  assumes "0 \<le> x"
  shows "\<bar>f64 x - x\<bar> \<le> x / 2 ^ 53 + 1 / of_nat f64_unit"
proof -
  define z where "z = x * of_nat f64_unit"
  define m where "m = f64_mant x"
  have u: "(0 :: rat) < of_nat f64_unit" using f64_unit_pos by simp
  have z: "0 \<le> z" using assms u by (simp add: z_def)
  have m2: "\<bar>of_nat m - 2 * z\<bar> \<le> (1 :: rat)"
  proof -
    define q where "q = \<lfloor>z\<rfloor>"
    have "of_nat (nat q) = (of_int q :: rat)" using z by (simp add: q_def)
    moreover have "of_int q \<le> z" "z < of_int q + 1" unfolding q_def by linarith+
    ultimately show ?thesis unfolding m_def f64_mant_def Let_def z_def [symmetric] q_def [symmetric]
      by (simp add: abs_le_iff)
  qed
  have r: "\<bar>of_nat (f64_round_nat m) - of_nat m\<bar> \<le> (of_nat m / 2 ^ 53 :: rat)"
  proof (cases "f64_shift m = 0")
    case True
    then have "f64_round_nat m = m" by (simp add: f64_round_nat_def)
    then show ?thesis by simp
  next
    case False
    then have "2 ^ (52 + f64_shift m) \<le> m" by (intro f64_shift_lower) simp
    then have s: "2 ^ 52 * 2 ^ f64_shift m \<le> (of_nat m :: rat)"
      unfolding power_add [symmetric] by (metis of_nat_le_iff of_nat_numeral of_nat_power)
    have "of_nat (2 * f64_round_nat m) \<le> (of_nat (2 * m + 2 ^ f64_shift m) :: rat)"
      "(of_nat (2 * m) :: rat) \<le> of_nat (2 * f64_round_nat m + 2 ^ f64_shift m)"
      unfolding of_nat_le_iff by (fact f64_round_nat_error)+
    then have "2 * of_nat (f64_round_nat m) \<le> (2 * of_nat m + 2 ^ f64_shift m :: rat)"
      "(2 * of_nat m :: rat) \<le> 2 * of_nat (f64_round_nat m) + 2 ^ f64_shift m" by simp_all
    moreover have "2 ^ f64_shift m / 2 \<le> (of_nat m / 2 ^ 53 :: rat)" using s by (simp add: field_simps)
    ultimately show ?thesis unfolding abs_le_iff by linarith
  qed
  have "f64 x = of_nat (f64_round_nat m) / (2 * of_nat f64_unit)" using assms by (simp add: f64_def m_def)
  moreover have "x = 2 * z / (2 * of_nat f64_unit)" using u by (simp add: z_def)
  ultimately have "f64 x - x = (of_nat (f64_round_nat m) - 2 * z) / (2 * of_nat f64_unit)"
    by (simp add: diff_divide_distrib)
  moreover have "\<bar>of_nat (f64_round_nat m) - 2 * z\<bar> \<le> 2 * z / 2 ^ 53 + 2"
  proof -
    have "of_nat m / 2 ^ 53 \<le> (2 * z + 1) / 2 ^ 53" using m2 by (intro divide_right_mono) (auto simp: abs_le_iff)
    also have "\<dots> \<le> 2 * z / 2 ^ 53 + 1" by simp
    finally show ?thesis using m2 r by linarith
  qed
  ultimately have "\<bar>f64 x - x\<bar> \<le> (2 * z / 2 ^ 53 + 2) / (2 * of_nat f64_unit)"
    using u by (simp add: abs_divide divide_right_mono)
  also have "\<dots> = x / 2 ^ 53 + 1 / of_nat f64_unit" using u by (simp add: z_def add_divide_distrib)
  finally show ?thesis .
qed

lemma quantum_pos [simp]: "0 < quantum" "quantum \<noteq> 0"
  by (simp_all add: quantum_def)

lemma huge_pos [simp]: "0 < huge"
  by (simp add: huge_def)

lemma quantum_unit: "1 / of_nat f64_unit = quantum / 2"
  unfolding quantum_def f64_unit_def by simp

lemma nearest_0 [simp]: "nearest 0 = 0"
  using round_even_int [of 0] by (simp add: nearest_def)

lemma f64_min_normal: "f64 (2 ^ 52 * quantum) = 2 ^ 52 * quantum"
proof -
  have u: "of_nat f64_unit = 2 / quantum" using quantum_unit f64_unit_pos quantum_pos by (simp add: field_simps del: quantum_pos)
  have z: "2 ^ 52 * quantum * of_nat f64_unit = (of_int (2 ^ 53) :: rat)" unfolding u by simp
  have "f64_mant (2 ^ 52 * quantum) = 1 * 2 ^ 54"
    unfolding f64_mant_def Let_def z floor_of_int by simp
  then have "f64_round_nat (f64_mant (2 ^ 52 * quantum)) = 2 ^ 54" using f64_round_nat_fixed [of 1 54] by simp
  moreover have "\<not> 2 ^ 52 * quantum < 0" using quantum_pos(1) by (simp add: not_less less_imp_le del: quantum_pos)
  ultimately have "f64 (2 ^ 52 * quantum) = of_nat (2 ^ 54) / of_nat (2 * f64_unit)" by (simp add: f64_def)
  also have "\<dots> = 2 ^ 52 * quantum" unfolding of_nat_mult u by simp
  finally show ?thesis .
qed

lemma nearest_error:
  assumes "0 \<le> x"
  shows "\<bar>nearest x - x\<bar> \<le> x / 2 ^ 53 + quantum / 2"
proof (cases "\<bar>x\<bar> < 2 ^ 52 * quantum")
  case True
  let ?r = "of_int (round_even (x / quantum)) :: rat"
  have "\<bar>?r - x / quantum\<bar> \<le> 1 / 2" using round_even_bounds [of "x / quantum"] unfolding abs_le_iff by linarith
  then have "\<bar>?r - x / quantum\<bar> * quantum \<le> 1 / 2 * quantum" by (rule mult_right_mono) (simp add: less_imp_le)
  moreover have "nearest x - x = (?r - x / quantum) * quantum" using True by (simp add: nearest_def left_diff_distrib)
  ultimately have "\<bar>nearest x - x\<bar> \<le> quantum / 2" by (simp only: abs_mult abs_of_pos [OF quantum_pos(1)] mult.commute divide_inverse mult_1)
  then show ?thesis using assms by (simp add: add_increasing)
next
  case False
  with f64_error [OF assms] show ?thesis by (simp add: nearest_def quantum_unit)
qed

lemma nearest_mono: "0 \<le> x \<Longrightarrow> x \<le> y \<Longrightarrow> nearest x \<le> nearest y"
proof -
  assume x: "0 \<le> x" and le: "x \<le> y"
  let ?e = "2 ^ 52 * quantum"
  consider "y < ?e" | "x < ?e" "?e \<le> y" | "?e \<le> x" using le by linarith
  then show ?thesis
  proof cases
    case 1
    have "round_even (x / quantum) \<le> round_even (y / quantum)" using le by (intro round_even_mono divide_right_mono) (simp_all add: less_imp_le)
    then have "(of_int (round_even (x / quantum)) :: rat) \<le> of_int (round_even (y / quantum))" by (simp only: of_int_le_iff)
    then show ?thesis using x le 1 by (simp add: nearest_def mult_right_mono less_imp_le)
  next
    case 2
    have "x / quantum \<le> of_int (2 ^ 52)" using 2(1) by (simp add: divide_le_eq)
    then have "round_even (x / quantum) \<le> 2 ^ 52" using round_even_mono round_even_int by metis
    then have "(of_int (round_even (x / quantum)) :: rat) \<le> of_int (2 ^ 52)" by (simp only: of_int_le_iff)
    then have "nearest x \<le> of_int (2 ^ 52) * quantum" using x 2(1) by (simp add: nearest_def mult_right_mono less_imp_le)
    also have "\<dots> \<le> f64 y" using f64_mono [OF 2(2)] f64_min_normal by simp
    finally show ?thesis using x le 2(2) by (simp add: nearest_def)
  next
    case 3
    then show ?thesis using f64_mono [OF le] x le by (simp add: nearest_def)
  qed
qed

lemma nearest_nonneg: "0 \<le> x \<Longrightarrow> 0 \<le> nearest x"
  using nearest_mono [of 0 x] by simp

lemma is_double_nearest: "is_double c \<Longrightarrow> nearest c = c \<and> c < huge"
  by (auto simp: is_double_def dround_def Let_def split: if_splits)

lemma is_double_int: "\<bar>n\<bar> \<le> 2 ^ 53 \<Longrightarrow> is_double (of_int n)"
proof -
  assume n: "\<bar>n\<bar> \<le> 2 ^ 53"
  have big: "(2 :: rat) ^ 53 < huge" unfolding huge_def by (rule power_strict_increasing) simp_all
  have "nearest (of_int n) = of_int n"
  proof (cases "n = 0")
    case False
    have "2 ^ 52 * quantum \<le> 1" unfolding quantum_def by (simp add: power_le_one_iff)
    moreover have "1 \<le> \<bar>of_int n :: rat\<bar>" using False by (simp flip: of_int_abs)
    ultimately show ?thesis using f64_int [OF n] by (simp add: nearest_def)
  qed simp
  moreover have "\<bar>of_int n :: rat\<bar> \<le> 2 ^ 53" using n by (metis of_int_abs of_int_le_iff of_int_numeral of_int_power)
  ultimately show ?thesis using big unfolding is_double_def dround_def Let_def abs_le_iff by simp
qed

lemma dround_below:
  assumes "0 \<le> x" "x \<le> c" "is_double c"
  shows "dround x = Fin (nearest x)" "0 \<le> nearest x" "nearest x \<le> c"
proof -
  show n: "0 \<le> nearest x" "nearest x \<le> c"
    using nearest_nonneg [OF assms(1)] nearest_mono [OF assms(1,2)] is_double_nearest [OF assms(3)] by simp_all
  then show "dround x = Fin (nearest x)"
    using is_double_nearest [OF assms(3)] huge_pos unfolding dround_def Let_def by simp
qed

lemma dround_nonneg: "0 \<le> x \<Longrightarrow> dround x = (if nearest x < huge then Fin (nearest x) else PosInf)"
  using nearest_nonneg [of x] huge_pos unfolding dround_def Let_def by (simp add: not_le)

end
