(* ===== verification/TokenBucket.thy ===== *)
theory TokenBucket
  imports DoubleOps RateLimit TaskStore
begin

text \<open>
  The token bucket of \<^verbatim>\<open>internal/limiter/bucket.go\<close>: its constructors, its Lua script and \<open>Acquire\<close>. Redis
  is a parameter again; \<open>limiter_doc\<close> is what the command reference says of the four commands the script
  uses. A Lua number passed to a command is printed with 17 significant digits and read back
  unchanged, so the fields of the hash hold doubles; printed that way an integer stays an integer up to \<open>10 ^ 17\<close>.
  A Lua number in the reply becomes an integer by a C cast, whose result outside \<open>int64\<close> is the parameter \<open>cast\<close>.
\<close>

section \<open>Redis commands of the script\<close>

datatype lcmd =
    LTIME
  | LHGET string string
  | LHSET string "(string \<times> double) list"
  | LPEXPIRE string double

datatype lreply = Parts int int | Number "double option" | Count int | LError gerr

text \<open>The clock in microseconds, the hashes, and the times (in milliseconds) at which keys expire.\<close>

record lstate =
  lclock :: int
  lhash :: "string \<Rightarrow> (string \<times> double) list"
  lexpiry :: "string \<Rightarrow> int option"

type_synonym 'db lredis = "lcmd \<Rightarrow> 'db \<Rightarrow> lreply \<times> 'db"

definition millis :: "lstate \<Rightarrow> int" where
  "millis st = lclock st div 1000"

definition live :: "lstate \<Rightarrow> string \<Rightarrow> bool" where
  "live st k \<longleftrightarrow> (case lexpiry st k of None \<Rightarrow> True | Some t \<Rightarrow> millis st \<le> t)"

definition lfields :: "lstate \<Rightarrow> string \<Rightarrow> (string \<times> double) list" where
  "lfields st k = (if live st k then lhash st k else [])"

text \<open>The integer a double prints as, if it does.\<close>

definition integer_text :: "double \<Rightarrow> int option" where
  "integer_text x = (case x of Fin a \<Rightarrow> if \<bar>a\<bar> < 10 ^ 17 \<and> of_int \<lfloor>a\<rfloor> = a then Some \<lfloor>a\<rfloor> else None | _ \<Rightarrow> None)"

fun limiter_doc :: "lcmd \<Rightarrow> lstate \<Rightarrow> lreply \<times> lstate" where
  "limiter_doc LTIME st = (Parts (lclock st div 1000000) (lclock st mod 1000000), st)"
| "limiter_doc (LHGET k f) st = (Number (map_of (lfields st k) f), st)"
| "limiter_doc (LHSET k kv) st =
     (Count (int (length (filter (\<lambda>p. map_of (lfields st k) (fst p) = None) kv))),
      st\<lparr>lhash := (lhash st)(k := fold (\<lambda>p. AList.update (fst p) (snd p)) kv (lfields st k)),
         lexpiry := (lexpiry st)(k := if live st k then lexpiry st k else None)\<rparr>)"
| "limiter_doc (LPEXPIRE k x) st = (case integer_text x of
     None \<Rightarrow> (LError (RedisError ''ERR value is not an integer or out of range''), st)
   | Some n \<Rightarrow>
       if lfields st k = [] then (Count 0, st)
       else if n \<le> 0 then (Count 1, st\<lparr>lhash := (lhash st)(k := []), lexpiry := (lexpiry st)(k := None)\<rparr>)
       else (Count 1, st\<lparr>lexpiry := (lexpiry st)(k \<mapsto> millis st + n)\<rparr>))"

text \<open>A server that behaves as documented.\<close>

locale limiter_server =
  fixes lcall :: "'db lredis" and lview :: "'db \<Rightarrow> lstate"
  assumes ldocumented: "map_prod id lview (lcall c d) = limiter_doc c (lview d)"

interpretation ldoc: limiter_server limiter_doc id
  by unfold_locales (simp add: prod.map_id)


section \<open>Construction\<close>

record TokenBucket =
  has_client :: bool
  bucket_key :: string
  capacity :: double
  ratePerSecond :: double

text \<open>A panic is \<open>Inl\<close> its message.\<close>

definition NewTokenBucket :: "bool \<Rightarrow> string \<Rightarrow> double \<Rightarrow> double \<Rightarrow> string + TokenBucket" where
  "NewTokenBucket client key cap rate =
     (if dle cap (Fin 0) \<or> IsNaN cap \<or> IsInf cap then Inl ''token bucket capacity must be finite and positive''
      else if dlt rate (Fin 0) \<or> IsNaN rate \<or> IsInf rate then Inl ''token bucket rate must be finite and non-negative''
      else Inr \<lparr>has_client = client, bucket_key = key, capacity = cap, ratePerSecond = rate\<rparr>)"

definition ScopeKey :: "string \<Rightarrow> string + string" where
  "ScopeKey scope = (if scope = '''' then Inl ''token bucket scope cannot be empty'' else Inr (''gte:limiter:'' @ scope))"

definition NewScopedTokenBucket :: "bool \<Rightarrow> string \<Rightarrow> double \<Rightarrow> double \<Rightarrow> string + TokenBucket" where
  "NewScopedTokenBucket client scope cap rate =
     (case ScopeKey scope of Inl p \<Rightarrow> Inl p | Inr key \<Rightarrow> NewTokenBucket client key cap rate)"

definition limiter_config_error :: "string \<Rightarrow> gerr" where
  "limiter_config_error what = Errorf (error_text LimiterErrInvalidConfig @ '': '' @ what) [LimiterErrInvalidConfig]"

definition bucket_Validate :: "TokenBucket option \<Rightarrow> gerr option" where
  "bucket_Validate b = (case b of
     None \<Rightarrow> Some (limiter_config_error ''client is nil'')
   | Some b \<Rightarrow>
       if \<not> has_client b then Some (limiter_config_error ''client is nil'')
       else if bucket_key b = '''' then Some (limiter_config_error ''key is empty'')
       else if dle (capacity b) (Fin 0) \<or> IsNaN (capacity b) \<or> IsInf (capacity b)
         then Some (limiter_config_error ''capacity must be finite and positive'')
       else if dlt (ratePerSecond b) (Fin 0) \<or> IsNaN (ratePerSecond b) \<or> IsInf (ratePerSecond b)
         then Some (limiter_config_error ''rate must be finite and non-negative'')
       else None)"

definition Capacity :: "TokenBucket option \<Rightarrow> double" where
  "Capacity b = (case b of None \<Rightarrow> Fin 0 | Some b \<Rightarrow> capacity b)"

definition RatePerSecond :: "TokenBucket option \<Rightarrow> double" where
  "RatePerSecond b = (case b of None \<Rightarrow> Fin 0 | Some b \<Rightarrow> ratePerSecond b)"


section \<open>The script\<close>

text \<open>Lua's \<open>math.min\<close> keeps its first argument unless the second is smaller.\<close>

definition lua_min :: "double \<Rightarrow> double \<Rightarrow> double" where
  "lua_min x y = (if dlt y x then y else x)"

definition script_now :: "int \<Rightarrow> int \<Rightarrow> double" where
  "script_now s u = dadd (dmul (Fin (of_int s)) (Fin 1000)) (dfloor (ddiv (Fin (of_int u)) (Fin 1000)))"

definition refilled :: "double \<Rightarrow> double \<Rightarrow> double \<Rightarrow> double \<Rightarrow> double \<Rightarrow> double" where
  "refilled cap rate tokens since now =
     (if dlt (Fin 0) rate then lua_min cap (dadd tokens (dmul (ddiv (dsub now since) (Fin 1000)) rate)) else tokens)"

text \<open>\<open>allowed\<close>, \<open>retry\<close> and the tokens left.\<close>

definition take_tokens :: "double \<Rightarrow> double \<Rightarrow> double \<Rightarrow> bool \<times> double \<times> double" where
  "take_tokens rate amount tokens =
     (if dle amount tokens then (True, Fin 0, dsub tokens amount)
      else if dlt (Fin 0) rate then (False, dceil (dmul (ddiv (dsub amount tokens) rate) (Fin 1000)), tokens)
      else (False, Fin 31536000000, tokens))"

definition expire_after :: "double \<Rightarrow> double \<Rightarrow> double" where
  "expire_after cap rate = dceil (dmul (ddiv cap rate) (Fin 2000))"

text \<open>A reply of another kind than the command gives is a script error.\<close>

definition lua_error :: gerr where
  "lua_error = RedisError ''ERR Error running script''"

definition lua_time :: "'db lredis \<Rightarrow> 'db \<Rightarrow> (gerr + int \<times> int) \<times> 'db" where
  "lua_time lcall d = (case lcall LTIME d of
     (Parts s u, d) \<Rightarrow> (Inr (s, u), d) | (LError e, d) \<Rightarrow> (Inl e, d) | (_, d) \<Rightarrow> (Inl lua_error, d))"

definition lua_hget :: "'db lredis \<Rightarrow> string \<Rightarrow> string \<Rightarrow> 'db \<Rightarrow> (gerr + double option) \<times> 'db" where
  "lua_hget lcall k f d = (case lcall (LHGET k f) d of
     (Number x, d) \<Rightarrow> (Inr x, d) | (LError e, d) \<Rightarrow> (Inl e, d) | (_, d) \<Rightarrow> (Inl lua_error, d))"

definition lua_do :: "'db lredis \<Rightarrow> lcmd \<Rightarrow> 'db \<Rightarrow> (gerr + unit) \<times> 'db" where
  "lua_do lcall c d = (case lcall c d of (LError e, d) \<Rightarrow> (Inl e, d) | (_, d) \<Rightarrow> (Inr (), d))"

definition acquireScript ::
  "'db lredis \<Rightarrow> string \<Rightarrow> double \<Rightarrow> double \<Rightarrow> double \<Rightarrow> 'db \<Rightarrow> (gerr + bool \<times> double \<times> double) \<times> 'db" where
  "acquireScript lcall key cap rate amount d = (case lua_time lcall d of
     (Inl e, d) \<Rightarrow> (Inl e, d)
   | (Inr (s, u), d) \<Rightarrow> (case lua_hget lcall key ''tokens'' d of
       (Inl e, d) \<Rightarrow> (Inl e, d)
     | (Inr tokens, d) \<Rightarrow> (case lua_hget lcall key ''last_ms'' d of
         (Inl e, d) \<Rightarrow> (Inl e, d)
       | (Inr since, d) \<Rightarrow>
           let now = script_now s u;
               (tokens, since) = (case (tokens, since) of (Some t, Some l) \<Rightarrow> (t, l) | _ \<Rightarrow> (cap, now));
               (allowed, retry, tokens) = take_tokens rate amount (refilled cap rate tokens since now)
           in (case lua_do lcall (LHSET key [(''tokens'', tokens), (''last_ms'', now)]) d of
                 (Inl e, d) \<Rightarrow> (Inl e, d)
               | (Inr _, d) \<Rightarrow>
                   if dlt (Fin 0) rate
                   then (case lua_do lcall (LPEXPIRE key (expire_after cap rate)) d of
                           (Inl e, d) \<Rightarrow> (Inl e, d)
                         | (Inr _, d) \<Rightarrow> (Inr (allowed, retry, tokens), d))
                   else (Inr (allowed, retry, tokens), d)))))"


section \<open>Acquire\<close>

text \<open>The integer of the reply for a Lua number.\<close>

definition reply_int :: "(double \<Rightarrow> int) \<Rightarrow> double \<Rightarrow> int" where
  "reply_int cast x = (case x of Fin a \<Rightarrow> if int64_range (trunc a) then trunc a else cast x | _ \<Rightarrow> cast x)"

definition Acquire ::
  "'db lredis \<Rightarrow> (double \<Rightarrow> int) \<Rightarrow> TokenBucket option \<Rightarrow> fate \<Rightarrow> double \<Rightarrow> 'db \<Rightarrow> (gerr + Result) \<times> 'db" where
  "Acquire lcall cast b ft amount d = (case b of
     None \<Rightarrow> (Inl (ErrorsNew ''token bucket client is nil''), d)
   | Some b \<Rightarrow>
       if \<not> has_client b then (Inl (ErrorsNew ''token bucket client is nil''), d)
       else if dle amount (Fin 0) \<or> IsNaN amount \<or> IsInf amount
         then (Inl (ErrorsNew ''token amount must be finite and positive''), d)
       else (case ft of
         NotSent e \<Rightarrow> (Inl (wrap_err ''acquire token'' e), d)
       | ReplyLost e \<Rightarrow>
           (Inl (wrap_err ''acquire token'' e), snd (acquireScript lcall (bucket_key b) (capacity b) (ratePerSecond b) amount d))
       | Delivered \<Rightarrow> (case acquireScript lcall (bucket_key b) (capacity b) (ratePerSecond b) amount d of
           (Inl e, d) \<Rightarrow> (Inl (wrap_err ''acquire token'' e), d)
         | (Inr (allowed, retry, tokens), d) \<Rightarrow>
             (Inr \<lparr>Allowed = allowed, RetryAfter = wrap64 (reply_int cast retry * 1000000),
                   Tokens = Fin (of_int (f64_of_int (reply_int cast tokens)))\<rparr>, d))))"

text \<open>The bucket as the \<open>Limiter\<close> of a server, on the state of the store.\<close>

definition bucket_limiter :: "'db lredis \<Rightarrow> (double \<Rightarrow> int) \<Rightarrow> TokenBucket option \<Rightarrow> 'db world Limiter" where
  "bucket_limiter lcall cast b =
     \<lparr>lim_Acquire = (\<lambda>amount. one_request (\<lambda>ft. Acquire lcall cast b ft amount)),
      lim_Validate = bucket_Validate b, lim_Capacity = Capacity b\<rparr>"

end
