(* ===== verification/BucketBounds.thy ===== *)
theory BucketBounds
  imports TokenBucket
begin

text \<open>
  What the token bucket guarantees, over the rounding of doubles: the tokens stay between zero and the
  capacity, and over any run the amount granted is at most the capacity plus what the rate allows in the
  time that passed, up to a bound on the rounding of each request.
\<close>

text \<open>The tokens and the time of the last request as they were written, even if the key has expired since.\<close>

definition recorded :: "lstate \<Rightarrow> string \<Rightarrow> (double \<times> double) option" where
  "recorded st k = (case (map_of (lhash st k) ''tokens'', map_of (lhash st k) ''last_ms'') of
     (Some t, Some l) \<Rightarrow> Some (t, l) | _ \<Rightarrow> None)"

text \<open>A bucket of capacity \<open>c\<close> and rate \<open>r\<close> under key \<open>k\<close>, on a server whose clock is in the exact range of a double.\<close>

definition bucket_ok :: "rat \<Rightarrow> rat \<Rightarrow> string \<Rightarrow> lstate \<Rightarrow> bool" where
  "bucket_ok c r k st \<longleftrightarrow> 0 \<le> lclock st \<and> millis st \<le> 2 ^ 53
     \<and> (\<forall>t l. recorded st k = Some (t, l) \<longrightarrow>
          (\<exists>x m. t = Fin x \<and> l = Fin (of_int m) \<and> 0 \<le> x \<and> x \<le> c \<and> 0 \<le> m \<and> m \<le> millis st))
     \<and> (\<forall>e. lexpiry st k = Some e \<longrightarrow> 0 < r \<and>
          (\<exists>x m n. recorded st k = Some (Fin x, Fin (of_int m)) \<and> integer_text (expire_after (Fin c) (Fin r)) = Some n \<and> e = m + n))"

text \<open>What the bucket may still grant: the tokens written and what has come in since.\<close>

definition leeway :: rat where
  "leeway = 1 / 2 ^ 51"

definition credit :: "rat \<Rightarrow> rat \<Rightarrow> string \<Rightarrow> lstate \<Rightarrow> rat" where
  "credit c r k st = (case recorded st k of
     Some (Fin x, Fin m) \<Rightarrow> x + (of_int (millis st) - m) / 1000 * r * (1 + leeway)
   | _ \<Rightarrow> c)"

text \<open>The rounding of one request.\<close>

definition slack :: "rat \<Rightarrow> rat \<Rightarrow> rat" where
  "slack c r = 2 * c / 2 ^ 53 + (4 * r + 2) * quantum"


section \<open>Lemmas: one refill\<close>

lemma nearest_upper: "0 \<le> x \<Longrightarrow> nearest x \<le> x + x / 2 ^ 53 + quantum / 2"
  and nearest_lower: "0 \<le> x \<Longrightarrow> x - x / 2 ^ 53 - quantum / 2 \<le> nearest x"
  using nearest_error [of x] unfolding abs_le_iff by linarith+

lemma quantum_small: "quantum \<le> 1 / 2 ^ 53"
  unfolding quantum_def by (intro divide_left_mono power_increasing) simp_all

lemma is_double_0 [simp]: "is_double 0"
  using is_double_int [of 0] by simp

lemma script_now_millis:
  assumes "0 \<le> lclock st" and "millis st \<le> 2 ^ 53"
  shows "script_now (lclock st div 1000000) (lclock st mod 1000000) = Fin (of_int (millis st))"
proof -
  define s where "s = lclock st div 1000000"
  define u where "u = lclock st mod 1000000"
  define k where "k = u div 1000"
  have u: "0 \<le> u" "u < 1000000" by (simp_all add: u_def)
  have k: "0 \<le> k" "k < 1000" "k * 1000 \<le> u" "u < (k + 1) * 1000" using u by (auto simp: k_def)
  have "lclock st = u + (s * 1000) * 1000" by (simp add: s_def u_def)
  then have m: "millis st = s * 1000 + k" unfolding millis_def k_def by simp
  have s: "0 \<le> s" using assms(1) by (simp add: s_def pos_imp_zdiv_nonneg_iff)
  have k5: "u \<le> k * 1000 + 999" using k(4) by presburger
  define v where "v = (of_int u / 1000 :: rat)"
  have "of_int (k * 1000) \<le> (of_int u :: rat)" "(of_int u :: rat) \<le> of_int (k * 1000 + 999)" "(of_int u :: rat) \<le> of_int 1000000"
    using k(3) k5 u(2) by (simp_all only: of_int_le_iff)
  then have v: "0 \<le> v" "of_int k \<le> v" "v \<le> of_int k + 999 / 1000" "v \<le> 1000"
    unfolding v_def using u(1) by (simp_all add: field_simps)
  have d: "is_double (of_int 1000)" "is_double (of_int k)" using k by (intro is_double_int; simp)+
  have "of_int k \<le> nearest v" using nearest_mono [OF _ v(2)] is_double_nearest [OF d(2)] k(1) by simp
  moreover have "nearest v < of_int k + 1" using nearest_upper [OF v(1)] v(3,4) quantum_small by (simp add: field_simps)
  ultimately have "\<lfloor>nearest v\<rfloor> = k" by (simp add: floor_eq_iff)
  then have "dfloor (ddiv (Fin (of_int u)) (Fin 1000)) = Fin (of_int k)"
    using dround_below(1) [OF v(1) _ d(1)] v(4) by (simp add: ddiv_def dfloor_def v_def)
  moreover have "dmul (Fin (of_int s)) (Fin 1000) = Fin (of_int (s * 1000))"
  proof -
    have "is_double (of_int (s * 1000))" using s k(1) m assms(2) by (intro is_double_int) linarith
    then show ?thesis by (simp add: dmul_def is_double_def)
  qed
  moreover have "dadd (Fin (of_int (s * 1000))) (Fin (of_int k)) = Fin (of_int (millis st))"
  proof -
    have "is_double (of_int (millis st))" using s k(1) m assms(2) by (intro is_double_int) linarith
    then show ?thesis by (simp add: m is_double_def)
  qed
  ultimately show ?thesis unfolding script_now_def s_def [symmetric] u_def [symmetric] by simp
qed

text \<open>Adding a nonnegative income to the tokens, capped.\<close>

lemma capped_add:
  assumes c: "is_double c" "0 \<le> x" "x \<le> c" and v: "0 \<le> v"
  shows "\<exists>y. lua_min (Fin c) (dadd (Fin x) (dround v)) = Fin y \<and> 0 \<le> y \<and> y \<le> c
    \<and> y \<le> x + v + v / 2 ^ 53 + c / 2 ^ 53 + quantum"
proof -
  note cn = is_double_nearest [OF c(1)]
  show ?thesis
  proof (cases "nearest v < huge")
    case False
    then have m: "lua_min (Fin c) (dadd (Fin x) (dround v)) = Fin c" by (simp add: dround_nonneg [OF v] lua_min_def)
    have "c \<le> v + v / 2 ^ 53 + quantum / 2" using nearest_upper [OF v] False cn by linarith
    moreover have "0 \<le> c / 2 ^ 53" using c by simp
    ultimately have "c \<le> x + v + v / 2 ^ 53 + c / 2 ^ 53 + quantum" using c quantum_pos(1) by linarith
    with m show ?thesis using c by auto
  next
    case True
    define n where "n = nearest v"
    have n: "0 \<le> n" "n \<le> v + v / 2 ^ 53 + quantum / 2"
      using nearest_nonneg [OF v] nearest_upper [OF v] by (simp_all add: n_def)
    have z: "dadd (Fin x) (dround v) = dround (x + n)" using True by (simp add: dround_nonneg [OF v] n_def)
    have xn: "0 \<le> x + n" using n c by simp
    show ?thesis
    proof (cases "x + n \<le> c")
      case True
      note b = dround_below [OF xn True c(1)]
      have m: "lua_min (Fin c) (dround (x + n)) = Fin (nearest (x + n))"
        using b(3) by (auto simp: b(1) lua_min_def)
      have "(x + n) / 2 ^ 53 \<le> c / 2 ^ 53" using True by (intro divide_right_mono) simp_all
      moreover have "nearest (x + n) \<le> x + n + (x + n) / 2 ^ 53 + quantum / 2" by (rule nearest_upper [OF xn])
      ultimately have "nearest (x + n) \<le> x + v + v / 2 ^ 53 + c / 2 ^ 53 + quantum" using n(2) by linarith
      with m show ?thesis unfolding z using b(2,3) by auto
    next
      case False
      then have "c \<le> nearest (x + n)" using nearest_mono [of c "x + n"] cn c by simp
      then have m: "lua_min (Fin c) (dround (x + n)) = Fin c" by (simp add: dround_nonneg [OF xn] lua_min_def)
      have "0 \<le> c / 2 ^ 53" using c by simp
      then have "c \<le> x + v + v / 2 ^ 53 + c / 2 ^ 53 + quantum" using False n(2) quantum_pos(1) by linarith
      with m show ?thesis unfolding z using c by auto
    qed
  qed
qed

lemma refilled_bounds:
  assumes c: "is_double c" "0 \<le> x" "x \<le> c" and r: "0 < r" and m: "0 \<le> m" "m \<le> n" "n \<le> 2 ^ 53"
  shows "\<exists>y. refilled (Fin c) (Fin r) (Fin x) (Fin (of_int m)) (Fin (of_int n)) = Fin y \<and> 0 \<le> y \<and> y \<le> c
    \<and> y \<le> x + (of_int n - of_int m) / 1000 * r * (1 + leeway) + c / 2 ^ 53 + (r + 1) * quantum"
proof -
  define e where "e = n - m"
  have "0 \<le> e" "e \<le> 2 ^ 53" using m by (simp_all add: e_def)
  then have e: "0 \<le> e" "is_double (of_int e)" by (simp_all add: is_double_int)
  have e1: "0 \<le> (of_int e / 1000 :: rat)" "(of_int e / 1000 :: rat) \<le> of_int e" using e(1) by (simp_all add: field_simps)
  define s where "s = nearest (of_int e / 1000)"
  have s: "0 \<le> s" "s \<le> of_int e / 1000 + of_int e / 1000 / 2 ^ 53 + quantum / 2"
    using nearest_nonneg [OF e1(1)] nearest_upper [OF e1(1)] by (simp_all add: s_def)
  have "dsub (Fin (of_int n)) (Fin (of_int m)) = Fin (of_int e)" using e(2) by (simp add: dsub_def e_def is_double_def)
  then have z: "refilled (Fin c) (Fin r) (Fin x) (Fin (of_int m)) (Fin (of_int n)) =
      lua_min (Fin c) (dadd (Fin x) (dround (s * r)))"
    using dround_below(1) [OF e1 e(2)] r by (simp add: refilled_def ddiv_def dmul_def s_def)
  have sr: "0 \<le> s * r" using s r by simp
  have "s * r \<le> (of_int e / 1000 + of_int e / 1000 / 2 ^ 53 + quantum / 2) * r" using s r by (intro mult_right_mono) simp_all
  also have "\<dots> = of_int e / 1000 * r + of_int e / 1000 * r / 2 ^ 53 + quantum * r / 2" by (simp add: field_simps)
  finally have w: "s * r \<le> of_int e / 1000 * r + of_int e / 1000 * r / 2 ^ 53 + quantum * r / 2" .
  define i where "i = of_int e / 1000 * r"
  have i: "0 \<le> i" using e1 r by (simp add: i_def)
  have qr: "0 \<le> quantum * r" using r quantum_pos(1) by (simp add: less_imp_le)
  have "s * r + s * r / 2 ^ 53 \<le> i * (1 + leeway) + quantum * r"
    using w i qr unfolding i_def [symmetric] leeway_def by (simp add: field_simps)
  moreover obtain y where y: "lua_min (Fin c) (dadd (Fin x) (dround (s * r))) = Fin y" "0 \<le> y" "y \<le> c"
    and "y \<le> x + s * r + s * r / 2 ^ 53 + c / 2 ^ 53 + quantum" using capped_add [OF c sr] by blast
  moreover have "(of_int n - of_int m) / 1000 * r * (1 + leeway) = i * (1 + leeway)" by (simp add: i_def e_def)
  moreover have "(r + 1) * quantum = quantum * r + quantum" by (simp add: algebra_simps)
  ultimately have "y \<le> x + (of_int n - of_int m) / 1000 * r * (1 + leeway) + c / 2 ^ 53 + (r + 1) * quantum" by linarith
  with y show ?thesis unfolding z by blast
qed

text \<open>A key expires only after the rate could have filled the bucket.\<close>

lemma expire_long:
  assumes c: "0 \<le> c" and r: "0 < r" and n: "integer_text (expire_after (Fin c) (Fin r)) = Some n"
  shows "c \<le> of_int n / 1000 * r + 2 * r * quantum"
proof -
  define p where "p = nearest (c / r)"
  have cr: "0 \<le> c / r" using c r by simp
  have p: "0 \<le> p" "c / r - c / r / 2 ^ 53 - quantum / 2 \<le> p"
    using nearest_nonneg [OF cr] nearest_lower [OF cr] by (simp_all add: p_def)
  have "ddiv (Fin c) (Fin r) = Fin p"
    using n r by (auto simp: expire_after_def ddiv_def dround_nonneg [OF cr] p_def dmul_def signed_inf_def dsgn_def dceil_def
        integer_text_def split: if_splits)
  then have e: "expire_after (Fin c) (Fin r) = dceil (dround (p * 2000))" by (simp add: expire_after_def dmul_def)
  have p2: "0 \<le> p * 2000" using p(1) by simp
  have "n = \<lceil>nearest (p * 2000)\<rceil>"
    using n unfolding e dround_nonneg [OF p2] by (auto simp: dceil_def integer_text_def split: if_splits)
  then have "nearest (p * 2000) \<le> of_int n" by simp
  with nearest_lower [OF p2] have "p * 2000 - p * 2000 / 2 ^ 53 - quantum / 2 \<le> of_int n" by linarith
  moreover have "(c / r - c / r / 2 ^ 53 - quantum / 2) * (2000 - 2000 / 2 ^ 53) \<le> p * (2000 - 2000 / 2 ^ 53)"
    using p(2) by (intro mult_right_mono) simp_all
  moreover define t where "t = c / r"
  ultimately have "t * 1000 - quantum * 1001 \<le> of_int n"
    using cr unfolding t_def [symmetric] by (simp add: field_simps) (use quantum_pos(1) in linarith)
  then have "c / r * 1000 - quantum * 1001 \<le> of_int n" by (simp only: t_def)
  then have "(c / r * 1000 - quantum * 1001) / 1000 * r \<le> of_int n / 1000 * r" using r by (intro mult_right_mono) simp_all
  moreover have "(c / r * 1000 - quantum * 1001) / 1000 * r = c - r * quantum * 1001 / 1000" using r by (simp add: field_simps)
  moreover have "r * quantum * 1001 / 1000 \<le> 2 * r * quantum" using r quantum_pos(1) by simp
  ultimately show ?thesis by linarith
qed

lemma credit_nonneg: "bucket_ok c r k st \<Longrightarrow> 0 \<le> c \<Longrightarrow> 0 \<le> r \<Longrightarrow> 0 \<le> credit c r k st"
proof (cases "recorded st k")
  case (Some p)
  assume ok: "bucket_ok c r k st" "0 \<le> c" "0 \<le> r"
  then obtain x m where x: "p = (Fin x, Fin (of_int m))" "0 \<le> x" "m \<le> millis st"
    using Some unfolding bucket_ok_def by (cases p) blast
  have "0 \<le> (of_int (millis st) - of_int m) / 1000 * r * (1 + leeway)"
    using x(3) ok(3) by (intro mult_nonneg_nonneg) (simp_all add: leeway_def)
  with x Some show ?thesis by (simp add: credit_def)
qed (simp add: credit_def)

text \<open>The tokens and the time a request starts from.\<close>

definition start_of :: "rat \<Rightarrow> string \<Rightarrow> lstate \<Rightarrow> double \<times> double" where
  "start_of c k st = (case (map_of (lfields st k) ''tokens'', map_of (lfields st k) ''last_ms'') of
     (Some t, Some l) \<Rightarrow> (t, l) | _ \<Rightarrow> (Fin c, Fin (of_int (millis st))))"

lemma start_bounds:
  assumes ok: "bucket_ok c r k st" and c: "0 \<le> c" "0 \<le> r"
  shows "\<exists>x m. start_of c k st = (Fin x, Fin (of_int m)) \<and> 0 \<le> x \<and> x \<le> c \<and> 0 \<le> m \<and> m \<le> millis st
    \<and> x + (of_int (millis st) - of_int m) / 1000 * r * (1 + leeway) \<le> credit c r k st + 2 * r * quantum"
proof -
  have q: "0 \<le> 2 * r * quantum" using c(2) quantum_pos(1) by (simp add: less_imp_le)
  have st: "0 \<le> millis st" using ok by (simp add: bucket_ok_def millis_def pos_imp_zdiv_nonneg_iff)
  consider (live) "live st k" "recorded st k \<noteq> None" | (gone) "\<not> live st k" | (none) "live st k" "recorded st k = None" by blast
  then show ?thesis
  proof cases
    case live
    then obtain t l where tl: "recorded st k = Some (t, l)" by auto
    with ok obtain x m where x: "t = Fin x" "l = Fin (of_int m)" "0 \<le> x" "x \<le> c" "0 \<le> m" "m \<le> millis st"
      unfolding bucket_ok_def by blast
    have "start_of c k st = (t, l)"
      using tl live(1) by (auto simp: start_of_def recorded_def lfields_def split: option.splits)
    with x tl q show ?thesis by (auto simp: credit_def)
  next
    case gone
    then obtain e where e: "lexpiry st k = Some e" "e < millis st" by (auto simp: live_def split: option.splits)
    with ok obtain x m n where x: "0 < r" "recorded st k = Some (Fin x, Fin (of_int m))"
      "integer_text (expire_after (Fin c) (Fin r)) = Some n" "e = m + n" "0 \<le> x" "m \<le> millis st"
      unfolding bucket_ok_def by (metis double.inject of_int_eq_iff)
    have "of_int n / 1000 * r \<le> (of_int (millis st) - of_int m) / 1000 * r"
      using e(2) x(1,4) by (intro mult_right_mono divide_right_mono) (simp_all flip: of_int_diff)
    moreover have "(of_int (millis st) - of_int m) / 1000 * r \<le> (of_int (millis st) - of_int m) / 1000 * r * (1 + leeway)"
    proof -
      have "0 \<le> (of_int (millis st) - of_int m) / 1000 * r" using x(1,6) by simp
      from mult_left_mono [OF _ this, of 1 "1 + leeway"] show ?thesis by (simp add: leeway_def)
    qed
    ultimately have "c \<le> credit c r k st + 2 * r * quantum"
      using expire_long [OF c(1) x(1,3)] x(2,5) by (simp add: credit_def)
    moreover have "start_of c k st = (Fin c, Fin (of_int (millis st)))" using gone by (simp add: start_of_def lfields_def)
    ultimately show ?thesis using c st by auto
  next
    case none
    then have "start_of c k st = (Fin c, Fin (of_int (millis st)))" "credit c r k st = c"
      by (auto simp: start_of_def recorded_def lfields_def credit_def split: option.splits)
    then show ?thesis using c st q by auto
  qed
qed

text \<open>Taking tokens.\<close>

lemma take_bounds:
  assumes "is_double c" "0 \<le> y" "y \<le> c" "0 < a" and t: "take_tokens rate (Fin a) (Fin y) = (al, re, t)"
  shows "\<exists>z. t = Fin z \<and> 0 \<le> z \<and> z \<le> c \<and> z + (if al then a else 0) \<le> y + c / 2 ^ 53 + quantum / 2 \<and> (al \<longrightarrow> a \<le> y)"
proof (cases "a \<le> y")
  case True
  have ya: "0 \<le> y - a" "y - a \<le> c" using True assms by linarith+
  note b = dround_below [OF ya assms(1)]
  have al: "al" "t = Fin (nearest (y - a))" using t True b(1) by (simp_all add: take_tokens_def dsub_def)
  have "(y - a) / 2 ^ 53 \<le> c / 2 ^ 53" using ya by (intro divide_right_mono) simp_all
  moreover have "nearest (y - a) \<le> y - a + (y - a) / 2 ^ 53 + quantum / 2" by (rule nearest_upper [OF ya(1)])
  ultimately have "nearest (y - a) + a \<le> y + c / 2 ^ 53 + quantum / 2" by linarith
  with al show ?thesis using b(2,3) True by simp
next
  case False
  then have "\<not> al" "t = Fin y" using t by (auto simp: take_tokens_def split: if_splits)
  moreover have "0 \<le> c / 2 ^ 53 + quantum / 2" using assms quantum_pos(1) by (intro add_nonneg_nonneg) (simp_all add: less_imp_le)
  ultimately show ?thesis using assms by auto
qed

text \<open>The state after the tokens are written, and after the expiry is set.\<close>

lemma recorded_written:
  "recorded (st\<lparr>lhash := (lhash st)(k := fold (\<lambda>p. AList.update (fst p) (snd p)) [(''tokens'', t), (''last_ms'', l)] kv),
     lexpiry := e\<rparr>) k = Some (t, l)"
  by (simp add: recorded_def AList.update_conv')

lemma acquireScript_doc:
  assumes "0 \<le> lclock st" "millis st \<le> 2 ^ 53"
    and y: "refilled (Fin c) (Fin r) (fst (start_of c k st)) (snd (start_of c k st)) (Fin (of_int (millis st))) = y"
    and t: "take_tokens (Fin r) (Fin a) y = (al, re, t)"
    and st1: "st1 = snd (limiter_doc (LHSET k [(''tokens'', t), (''last_ms'', Fin (of_int (millis st)))]) st)"
  shows "acquireScript limiter_doc k (Fin c) (Fin r) (Fin a) st =
    (if 0 < r then (case limiter_doc (LPEXPIRE k (expire_after (Fin c) (Fin r))) st1 of
        (LError e, st2) \<Rightarrow> (Inl e, st2) | (_, st2) \<Rightarrow> (Inr (al, re, t), st2))
     else (Inr (al, re, t), st1))"
proof -
  note now = script_now_millis [OF assms(1,2)]
  have lt: "lua_time limiter_doc st = (Inr (lclock st div 1000000, lclock st mod 1000000), st)" by (simp add: lua_time_def)
  have lg: "lua_hget limiter_doc k f st = (Inr (map_of (lfields st k) f), st)" for f by (simp add: lua_hget_def)
  have ls: "lua_do limiter_doc (LHSET k [(''tokens'', t), (''last_ms'', Fin (of_int (millis st)))]) st = (Inr (), st1)"
    by (simp add: lua_do_def st1)
  obtain x st2 where lp: "limiter_doc (LPEXPIRE k (expire_after (Fin c) (Fin r))) st1 = (x, st2)" by (metis prod.exhaust)
  define tl where "tl = start_of c k st"
  have tl: "(case map_of (lfields st k) ''tokens'' of None \<Rightarrow> (Fin c, Fin (of_int (millis st)))
     | Some t \<Rightarrow> (case map_of (lfields st k) ''last_ms'' of None \<Rightarrow> (Fin c, Fin (of_int (millis st))) | Some l \<Rightarrow> (t, l))) = tl"
    by (simp add: start_of_def tl_def)
  note y' = y [folded tl_def]
  have "acquireScript limiter_doc k (Fin c) (Fin r) (Fin a) st =
     (case lua_do limiter_doc (LHSET k [(''tokens'', t), (''last_ms'', Fin (of_int (millis st)))]) st of
                 (Inl e, d) \<Rightarrow> (Inl e, d)
               | (Inr _, d) \<Rightarrow>
                   if dlt (Fin 0) (Fin r)
                   then (case lua_do limiter_doc (LPEXPIRE k (expire_after (Fin c) (Fin r))) d of
                           (Inl e, d) \<Rightarrow> (Inl e, d)
                         | (Inr _, d) \<Rightarrow> (Inr (al, re, t), d))
                   else (Inr (al, re, t), d))"
    unfolding acquireScript_def lt lg prod.case sum.case Let_def now tl
    by (cases tl) (use y' t in simp)
  then show ?thesis unfolding ls by (cases x) (simp_all add: lua_do_def lp del: limiter_doc.simps)
qed

lemma written_ok:
  assumes "0 \<le> lclock st" "millis st \<le> 2 ^ 53" "0 \<le> z" "z \<le> c"
    and "recorded st' k = Some (Fin z, Fin (of_int (millis st)))" "lclock st' = lclock st"
  shows "lexpiry st' k = None \<or> (\<exists>n. 0 < r \<and> integer_text (expire_after (Fin c) (Fin r)) = Some n \<and>
      lexpiry st' k = Some (millis st + n)) \<Longrightarrow> bucket_ok c r k st'"
    and "credit c r k st' = z"
proof -
  have m: "millis st' = millis st" "0 \<le> millis st" using assms(1,6) by (simp_all add: millis_def pos_imp_zdiv_nonneg_iff)
  show "credit c r k st' = z" using assms(5) m by (simp add: credit_def)
  show "bucket_ok c r k st'" if "lexpiry st' k = None \<or> (\<exists>n. 0 < r \<and> integer_text (expire_after (Fin c) (Fin r)) = Some n \<and>
      lexpiry st' k = Some (millis st + n))"
    using assms m that unfolding bucket_ok_def by auto
qed

text \<open>The tokens a request finds after the refill.\<close>

lemma found_tokens:
  assumes ok: "bucket_ok c r k st" and c: "is_double c" "0 \<le> c" "0 \<le> r"
  shows "\<exists>y. refilled (Fin c) (Fin r) (fst (start_of c k st)) (snd (start_of c k st)) (Fin (of_int (millis st))) = Fin y
    \<and> 0 \<le> y \<and> y \<le> c \<and> y \<le> credit c r k st + c / 2 ^ 53 + quantum + 3 * (r * quantum)"
proof -
  have st: "millis st \<le> 2 ^ 53" using ok by (simp add: bucket_ok_def)
  obtain x m where x: "start_of c k st = (Fin x, Fin (of_int m))" "0 \<le> x" "x \<le> c" "0 \<le> m" "m \<le> millis st"
    and cr: "x + (of_int (millis st) - of_int m) / 1000 * r * (1 + leeway) \<le> credit c r k st + 2 * r * quantum"
    using start_bounds [OF ok c(2,3)] by blast
  obtain y where y: "refilled (Fin c) (Fin r) (Fin x) (Fin (of_int m)) (Fin (of_int (millis st))) = Fin y" "0 \<le> y" "y \<le> c"
    and y2: "y \<le> x + (of_int (millis st) - of_int m) / 1000 * r * (1 + leeway) + c / 2 ^ 53 + (r + 1) * quantum"
  proof (cases "0 < r")
    case True
    show thesis using refilled_bounds [OF c(1) x(2,3) True x(4,5) st] that by blast
  next
    case False
    then have "r = 0" using c(3) by simp
    moreover have "0 \<le> c / 2 ^ 53 + quantum" using c quantum_pos(1) by (intro add_nonneg_nonneg) (simp_all add: less_imp_le)
    ultimately show thesis using x(2,3) by (intro that [of x]) (simp_all add: refilled_def)
  qed
  have "y \<le> credit c r k st + c / 2 ^ 53 + quantum + 3 * (r * quantum)"
    using y2 cr by (simp add: distrib_right)
  then show ?thesis using x(1) y by auto
qed

text \<open>Setting the expiry of a bucket just written: it stays as it is, or its capacity is next to nothing and it is deleted.\<close>

lemma expiry_step:
  assumes ok: "bucket_ok c r k st" and c: "0 \<le> c" "0 < r" and z: "0 \<le> z" "z \<le> c"
    and s1: "recorded st1 k = Some (Fin z, Fin (of_int (millis st)))" "lclock st1 = lclock st"
      "lexpiry st1 k = (if live st k then lexpiry st k else None)"
    and p: "limiter_doc (LPEXPIRE k (expire_after (Fin c) (Fin r))) st1 = (x, st2)"
  shows "bucket_ok c r k st2 \<and> lclock st2 = lclock st \<and>
    (credit c r k st2 = z \<or> credit c r k st2 = c \<and> c \<le> 2 * (r * quantum))"
proof -
  have st: "0 \<le> lclock st" "millis st \<le> 2 ^ 53" using ok by (simp_all add: bucket_ok_def)
  note written = written_ok [OF st z]
  have s2: "millis st1 = millis st" using s1(2) by (simp add: millis_def)
  have f1: "lfields st1 k \<noteq> []" using s1 s2 by (auto simp: lfields_def live_def recorded_def split: option.splits)
  show ?thesis
  proof (cases "integer_text (expire_after (Fin c) (Fin r))")
    case None
    then have "st2 = st1" using p by auto
    moreover have "lexpiry st1 k = None" using ok None unfolding s1(3) bucket_ok_def by (cases "lexpiry st k") auto
    ultimately show ?thesis using written [OF s1(1,2)] s1(2) by simp
  next
    case (Some n)
    show ?thesis
    proof (cases "n \<le> 0")
      case False
      then have e: "st2 = st1\<lparr>lexpiry := (lexpiry st1)(k \<mapsto> millis st + n)\<rparr>" using p Some f1 s2 by simp
      have "recorded st2 k = Some (Fin z, Fin (of_int (millis st)))" "lclock st2 = lclock st" "lexpiry st2 k = Some (millis st + n)"
        using s1 by (simp_all add: e recorded_def)
      with written [OF this(1,2)] show ?thesis using c(2) Some by simp
    next
      case True
      then have "st2 = st1\<lparr>lhash := (lhash st1)(k := []), lexpiry := (lexpiry st1)(k := None)\<rparr>" using p Some f1 by simp
      then have "recorded st2 k = None" "lclock st2 = lclock st" "lexpiry st2 k = None" using s1 by (simp_all add: recorded_def)
      moreover from this have "bucket_ok c r k st2" "credit c r k st2 = c" using st by (simp_all add: bucket_ok_def credit_def millis_def)
      moreover have "of_int n / 1000 * r \<le> 0" using True c(2) by (simp add: mult_nonpos_nonneg divide_nonpos_pos)
      ultimately show ?thesis using expire_long [OF c Some] by simp
    qed
  qed
qed

lemma acquire_step:
  assumes ok: "bucket_ok c r k st" and c: "is_double c" "0 \<le> c" "0 \<le> r" and a: "0 < a"
    and run: "acquireScript limiter_doc k (Fin c) (Fin r) (Fin a) st = (res, st')"
  shows "bucket_ok c r k st' \<and> lclock st' = lclock st
    \<and> credit c r k st' + (case res of Inr (True, _) \<Rightarrow> a | _ \<Rightarrow> 0) \<le> credit c r k st + slack c r"
proof -
  have st: "0 \<le> lclock st" "millis st \<le> 2 ^ 53" using ok by (simp_all add: bucket_ok_def)
  obtain y where y: "refilled (Fin c) (Fin r) (fst (start_of c k st)) (snd (start_of c k st)) (Fin (of_int (millis st))) = Fin y"
    "0 \<le> y" "y \<le> c" "y \<le> credit c r k st + c / 2 ^ 53 + quantum + 3 * (r * quantum)" using found_tokens [OF ok c] by blast
  obtain al re t where t: "take_tokens (Fin r) (Fin a) (Fin y) = (al, re, t)" by (metis prod.exhaust)
  obtain z where z: "t = Fin z" "0 \<le> z" "z \<le> c" "z + (if al then a else 0) \<le> y + c / 2 ^ 53 + quantum / 2" "al \<Longrightarrow> a \<le> y"
    using take_bounds [OF c(1) y(2,3) a t] by blast
  define st1 where "st1 = snd (limiter_doc (LHSET k [(''tokens'', t), (''last_ms'', Fin (of_int (millis st)))]) st)"
  obtain x st2 where p: "limiter_doc (LPEXPIRE k (expire_after (Fin c) (Fin r))) st1 = (x, st2)" by (metis prod.exhaust)
  have s1: "recorded st1 k = Some (Fin z, Fin (of_int (millis st)))" "lclock st1 = lclock st"
    "lexpiry st1 k = (if live st k then lexpiry st k else None)"
    unfolding st1_def limiter_doc.simps snd_conv z(1) recorded_written by simp_all
  have q: "0 \<le> r * quantum" "0 < quantum" "0 \<le> c / 2 ^ 53" using c quantum_pos(1) by (simp_all add: less_imp_le)
  have slack: "slack c r = 2 * (c / 2 ^ 53) + 2 * quantum + 4 * (r * quantum)" by (simp add: slack_def algebra_simps)
  have st': "bucket_ok c r k st' \<and> lclock st' = lclock st \<and>
    (credit c r k st' = z \<or> credit c r k st' = c \<and> c \<le> 2 * (r * quantum))"
  proof (cases "0 < r")
    case True
    then have "st' = st2" using run unfolding acquireScript_doc [OF st y(1) t st1_def] p by (auto split: lreply.splits)
    then show ?thesis using expiry_step [OF ok c(2) True z(2,3) s1 p] by simp
  next
    case False
    then have e: "st' = st1" using run unfolding acquireScript_doc [OF st y(1) t st1_def] by simp
    have "lexpiry st1 k = None" using ok False unfolding s1(3) bucket_ok_def by (cases "lexpiry st k") auto
    then show ?thesis unfolding e using written_ok [OF st z(2,3) s1(1,2)] s1(2) by simp
  qed
  define g where "g = (case res of Inr (True, _) \<Rightarrow> a | _ \<Rightarrow> 0)"
  have g: "g \<le> (if al then a else 0)"
    using run a unfolding g_def acquireScript_doc [OF st y(1) t st1_def] p
    by (auto split: if_splits lreply.splits sum.splits bool.splits)
  have "g \<le> c" using g z(5) y(3) c(2) by (auto split: if_splits)
  then have "credit c r k st' + g \<le> credit c r k st + slack c r"
    using st' z(4) y(4) g q slack credit_nonneg [OF ok c(2,3)] by linarith
  then show ?thesis using st' unfolding g_def by blast
qed


section \<open>Lemmas: requests and runs\<close>

context limiter_server
begin

lemma lcall_doc: "lcall c d = (r, d') \<Longrightarrow> limiter_doc c (lview d) = (r, lview d')"
  using ldocumented [of c d] by simp

lemma lua_documented:
  "map_prod id lview (lua_time lcall d) = lua_time limiter_doc (lview d)"
  "map_prod id lview (lua_hget lcall k f d) = lua_hget limiter_doc k f (lview d)"
  "map_prod id lview (lua_do lcall c d) = lua_do limiter_doc c (lview d)"
proof -
  obtain r1 d1 r2 d2 r3 d3 where c: "lcall LTIME d = (r1, d1)" "lcall (LHGET k f) d = (r2, d2)" "lcall c d = (r3, d3)"
    by (metis prod.exhaust)
  note l = c [THEN lcall_doc]
  show "map_prod id lview (lua_time lcall d) = lua_time limiter_doc (lview d)"
    unfolding lua_time_def c(1) l(1) by (cases r1) simp_all
  show "map_prod id lview (lua_hget lcall k f d) = lua_hget limiter_doc k f (lview d)"
    unfolding lua_hget_def c(2) l(2) by (cases r2) simp_all
  show "map_prod id lview (lua_do lcall c d) = lua_do limiter_doc c (lview d)"
    unfolding lua_do_def c(3) l(3) by (cases r3) simp_all
qed

lemma lua_doc:
  "lua_time lcall d = (r1, d1) \<Longrightarrow> lua_time limiter_doc (lview d) = (r1, lview d1)"
  "lua_hget lcall k f d = (r2, d2) \<Longrightarrow> lua_hget limiter_doc k f (lview d) = (r2, lview d2)"
  "lua_do lcall c d = (r3, d3) \<Longrightarrow> lua_do limiter_doc c (lview d) = (r3, lview d3)"
  by (simp_all flip: lua_documented)

lemma acquireScript_documented:
  "map_prod id lview (acquireScript lcall k cap rate a d) = acquireScript limiter_doc k cap rate a (lview d)"
proof -
  obtain r1 d1 where c1: "lua_time lcall d = (r1, d1)" by (metis prod.exhaust)
  obtain r2 d2 where c2: "lua_hget lcall k ''tokens'' d1 = (r2, d2)" by (metis prod.exhaust)
  obtain r3 d3 where c3: "lua_hget lcall k ''last_ms'' d2 = (r3, d3)" by (metis prod.exhaust)
  show ?thesis
  proof (cases "(\<exists>e. r1 = Inl e) \<or> (\<exists>e. r2 = Inl e) \<or> (\<exists>e. r3 = Inl e)")
    case True
    then show ?thesis unfolding acquireScript_def c1 lua_doc(1) [OF c1] 
      by (cases r1; cases r2) (auto simp: c2 c3 lua_doc(2) [OF c2] lua_doc(2) [OF c3])
  next
    case False
    then obtain s u t l where r: "r1 = Inr (s, u)" "r2 = Inr t" "r3 = Inr l" by (metis old.sum.exhaust prod.exhaust)
    define now where "now = script_now s u"
    obtain t0 l0 where tl: "(case (t, l) of (Some t, Some l) \<Rightarrow> (t, l) | _ \<Rightarrow> (cap, now)) = (t0, l0)" by (metis prod.exhaust)
    obtain al re t1 where tk: "take_tokens rate a (refilled cap rate t0 l0 now) = (al, re, t1)" by (metis prod.exhaust)
    obtain r4 d4 where c4: "lua_do lcall (LHSET k [(''tokens'', t1), (''last_ms'', now)]) d3 = (r4, d4)" by (metis prod.exhaust)
    obtain r5 d5 where c5: "lua_do lcall (LPEXPIRE k (expire_after cap rate)) d4 = (r5, d5)" by (metis prod.exhaust)
    show ?thesis
      unfolding acquireScript_def c1 lua_doc(1) [OF c1] r(1) prod.case sum.case c2 lua_doc(2) [OF c2] r(2)
        c3 lua_doc(2) [OF c3] r(3) Let_def now_def [symmetric]
      using tl by (cases r4; cases r5) (simp_all add: tk c4 c5 lua_doc(3) [OF c4] lua_doc(3) [OF c5])
  qed
qed

end

end
