(* ===== verification/BucketProperties.thy ===== *)
theory BucketProperties
  imports BucketBounds
begin

text \<open>
  The properties of the token bucket as its callers see it, on any server that behaves as documented.
\<close>

text \<open>Time passes and nobody else touches the key.\<close>

definition waits :: "string \<Rightarrow> lstate \<Rightarrow> lstate \<Rightarrow> bool" where
  "waits k st st' \<longleftrightarrow> lclock st \<le> lclock st' \<and> lhash st' k = lhash st k \<and> lexpiry st' k = lexpiry st k"

definition granted :: "rat \<Rightarrow> gerr + Result \<Rightarrow> rat" where
  "granted a r = (case r of Inr res \<Rightarrow> if Allowed res then a else 0 | Inl e \<Rightarrow> 0)"

text \<open>A run of \<open>n\<close> requests that are granted \<open>g\<close> in all, each with any fate, with any waits in between.\<close>

inductive bucket_run ::
  "'db lredis \<Rightarrow> ('db \<Rightarrow> lstate) \<Rightarrow> (double \<Rightarrow> int) \<Rightarrow> TokenBucket \<Rightarrow> 'db \<Rightarrow> nat \<Rightarrow> rat \<Rightarrow> 'db \<Rightarrow> bool"
  for lcall lview cast b d where
  start: "bucket_run lcall lview cast b d 0 0 d"
| request: "bucket_run lcall lview cast b d n g d1 \<Longrightarrow> waits (bucket_key b) (lview d1) (lview d2) \<Longrightarrow>
    millis (lview d2) \<le> 2 ^ 53 \<Longrightarrow> Acquire lcall cast (Some b) ft (Fin a) d2 = (r, d3) \<Longrightarrow>
    bucket_run lcall lview cast b d (Suc n) (g + granted a r) d3"


section \<open>Lemmas\<close>

lemma waits_ok:
  assumes "bucket_ok c r k st" and "waits k st st'" and "millis st' \<le> 2 ^ 53" and "0 \<le> r"
  shows "bucket_ok c r k st'"
    and "credit c r k st' \<le> credit c r k st + (of_int (millis st') - of_int (millis st)) / 1000 * r * (1 + leeway)"
proof -
  have m: "millis st \<le> millis st'" "0 \<le> lclock st'"
    using assms(1,2) by (auto simp: millis_def waits_def bucket_ok_def intro: zdiv_mono1)
  have rec: "recorded st' k = recorded st k" "lexpiry st' k = lexpiry st k"
    using assms(2) by (simp_all add: recorded_def waits_def)
  show "bucket_ok c r k st'"
    using assms(1,3) m order_trans [OF _ m(1)] unfolding bucket_ok_def rec by blast
  define i where "i = (of_int (millis st') - of_int (millis st)) / 1000 * r * (1 + leeway)"
  have i: "0 \<le> i" unfolding i_def using m assms(4) by (intro mult_nonneg_nonneg) (simp_all add: leeway_def)
  have "credit c r k st' \<le> credit c r k st + i"
  proof (cases "recorded st k")
    case None
    then show ?thesis using i by (simp add: credit_def rec)
  next
    case (Some p)
    then obtain x l where p: "recorded st k = Some (Fin x, Fin (of_int l))" using assms(1) unfolding bucket_ok_def by (cases p) blast
    have "(of_int (millis st') - of_int l) / 1000 * r * (1 + leeway) =
        (of_int (millis st) - of_int l) / 1000 * r * (1 + leeway) + i" by (simp add: i_def algebra_simps diff_divide_distrib)
    then show ?thesis by (simp add: credit_def rec p)
  qed
  then show "credit c r k st' \<le> credit c r k st + (of_int (millis st') - of_int (millis st)) / 1000 * r * (1 + leeway)"
    unfolding i_def .
qed

lemma slack_nonneg: "0 \<le> c \<Longrightarrow> 0 \<le> r \<Longrightarrow> 0 \<le> slack c r"
  unfolding slack_def using quantum_pos(1) by (intro add_nonneg_nonneg mult_nonneg_nonneg) (simp_all add: less_imp_le)

context limiter_server
begin

lemma Acquire_step:
  assumes ok: "bucket_ok c r k (lview d)" and c: "is_double c" "0 \<le> c" "0 \<le> r"
    and b: "bucket_key b = k" "capacity b = Fin c" "ratePerSecond b = Fin r"
    and run: "Acquire lcall cast (Some b) ft (Fin a) d = (res, d')"
  shows "bucket_ok c r k (lview d') \<and> lclock (lview d') = lclock (lview d)
    \<and> credit c r k (lview d') + granted a res \<le> credit c r k (lview d) + slack c r"
proof -
  obtain q d1 where s: "acquireScript lcall k (Fin c) (Fin r) (Fin a) d = (q, d1)" by (metis prod.exhaust)
  have doc: "acquireScript limiter_doc k (Fin c) (Fin r) (Fin a) (lview d) = (q, lview d1)"
    using acquireScript_documented [of k "Fin c" "Fin r" "Fin a" d] by (simp add: s)
  consider (none) "d' = d" "\<exists>e. res = Inl e"
    | (sent) "0 < a" "d' = d1" "granted a res = (case q of Inr (True, _) \<Rightarrow> a | _ \<Rightarrow> 0) \<or> granted a res = 0"
    using run b s by (cases ft; cases q) (auto simp: Acquire_def granted_def split: if_splits bool.splits)
  then show ?thesis
  proof cases
    case none
    then show ?thesis using ok slack_nonneg [OF c(2,3)] by (auto simp: granted_def)
  next
    case sent
    note st = acquire_step [OF ok c sent(1) doc]
    have "0 \<le> (case q of Inr (True, _) \<Rightarrow> a | _ \<Rightarrow> 0)" using sent(1) by (auto split: sum.splits bool.splits)
    then show ?thesis using st sent(2,3) by auto
  qed
qed

lemma bucket_run_bound:
  assumes run: "bucket_run lcall lview cast b d n g d'" and ok: "bucket_ok c r k (lview d)"
    and c: "is_double c" "0 \<le> c" "0 \<le> r" and b: "bucket_key b = k" "capacity b = Fin c" "ratePerSecond b = Fin r"
  shows "bucket_ok c r k (lview d') \<and> g + credit c r k (lview d') \<le> credit c r k (lview d)
    + (of_int (millis (lview d')) - of_int (millis (lview d))) / 1000 * r * (1 + leeway) + of_nat n * slack c r"
  using run
proof (induction rule: bucket_run.induct)
  case start
  then show ?case using ok by simp
next
  case (request n g d1 d2 ft a res d3)
  define I where "I x y = (of_int (millis (lview y)) - of_int (millis (lview x))) / 1000 * r * (1 + leeway)" for x y
  note w = waits_ok [OF request.IH [THEN conjunct1] request.hyps(2) [unfolded b(1)] request.hyps(3) c(3), folded I_def]
  note s = Acquire_step [OF w(1) c b request.hyps(4)]
  have m: "millis (lview d3) = millis (lview d2)" using s by (simp add: millis_def)
  have "I d d2 = I d d1 + I d1 d2" by (simp add: I_def algebra_simps diff_divide_distrib)
  moreover have "of_nat (Suc n) * slack c r = of_nat n * slack c r + slack c r" by (simp add: algebra_simps)
  moreover have "I d d3 = I d d2" by (simp add: I_def m)
  moreover have "g + credit c r k (lview d1) \<le> credit c r k (lview d) + I d d1 + of_nat n * slack c r"
    using request.IH by (simp add: I_def)
  ultimately have "g + granted a res + credit c r k (lview d3) \<le> credit c r k (lview d) + I d d3 + of_nat (Suc n) * slack c r"
    using s w(2) by linarith
  then show ?case using s unfolding I_def by blast
qed

end

lemma valid_bucket:
  assumes "bucket_Validate (Some b) = None"
  obtains c r where "capacity b = Fin c" "ratePerSecond b = Fin r" "0 < c" "0 \<le> r" "has_client b"
  using assms by (cases "capacity b"; cases "ratePerSecond b")
    (auto simp: bucket_Validate_def IsNaN_def IsInf_def split: if_splits)

lemma fresh_bucket_ok:
  assumes "lhash st k = []" and "lexpiry st k = None" and "0 \<le> lclock st" and "millis st \<le> 2 ^ 53"
  shows "bucket_ok c r k st" and "credit c r k st = c"
  using assms by (simp_all add: bucket_ok_def credit_def recorded_def)

lemma reply_int_zero [simp]: "wrap64 (reply_int cast (Fin 0) * 1000000) = 0"
  by (simp add: reply_int_def trunc_def int64_range_def wrap64_def)

text \<open>A bucket that is full stays full.\<close>

lemma refilled_full: "is_double c \<Longrightarrow> refilled (Fin c) (Fin r) (Fin c) (Fin m) (Fin m) = Fin c"
  using is_double_0 by (simp add: refilled_def ddiv_def dsub_def dmul_def lua_min_def is_double_def)

lemma take_full:
  assumes "is_double c" "0 < a"
  shows "fst (take_tokens (Fin r) (Fin a) (Fin c)) \<longleftrightarrow> a \<le> c"
    and "a \<le> c \<Longrightarrow> fst (snd (take_tokens (Fin r) (Fin a) (Fin c))) = Fin 0"
  by (auto simp: take_tokens_def)

lemma fresh_acquire:
  assumes "lhash st k = []" and "lexpiry st k = None" and "0 \<le> lclock st" and "millis st \<le> 2 ^ 53"
    and "is_double c" and t: "take_tokens (Fin r) (Fin a) (Fin c) = (al, re, t)"
  shows "fst (acquireScript limiter_doc k (Fin c) (Fin r) (Fin a) st) =
    (if 0 < r \<and> integer_text (expire_after (Fin c) (Fin r)) = None
     then Inl (RedisError ''ERR value is not an integer or out of range'') else Inr (al, re, t))"
proof -
  have f: "lfields st k = []" using assms(1) by (simp add: lfields_def)
  then have "start_of c k st = (Fin c, Fin (of_int (millis st)))" by (simp add: start_of_def)
  then have y: "refilled (Fin c) (Fin r) (fst (start_of c k st)) (snd (start_of c k st)) (Fin (of_int (millis st))) = Fin c"
    using refilled_full [OF assms(5)] by simp
  show ?thesis unfolding acquireScript_doc [OF assms(3,4) y t refl]
    by (auto split: option.splits)
qed


section \<open>Properties\<close>

text \<open>C19. Whatever the clients do, a bucket does not overspend: on a server that behaves as documented, from a key
  that does not exist yet, any number \<open>n\<close> of requests of any amounts with any waits in between and with any of the
  requests or replies lost is granted in all at most the capacity plus what the rate brings in during the time that
  passed, up to the rounding of doubles: a factor of \<open>1 + 2^-51\<close> on the income and the slack of each request.\<close>

theorem bucket_never_overspends:
  assumes "limiter_server lcall lview" and "bucket_Validate (Some b) = None"
    and "capacity b = Fin c" and "ratePerSecond b = Fin r" and "is_double c"
    and "lhash (lview d) (bucket_key b) = []" and "lexpiry (lview d) (bucket_key b) = None"
    and "0 \<le> lclock (lview d)" and "millis (lview d) \<le> 2 ^ 53"
    and "bucket_run lcall lview cast b d n g d'"
  shows "g \<le> c + (of_int (millis (lview d')) - of_int (millis (lview d))) / 1000 * r * (1 + leeway) + of_nat n * slack c r"
proof -
  have c: "0 \<le> c" "0 \<le> r" using valid_bucket [OF assms(2)] assms(3,4) by fastforce+
  note fresh = fresh_bucket_ok [OF assms(6-9), of c r]
  note bound = limiter_server.bucket_run_bound [OF assms(1,10) fresh(1) assms(5) c refl assms(3,4)]
  have "0 \<le> credit c r (bucket_key b) (lview d')" using bound c by (blast intro: credit_nonneg)
  with bound show ?thesis unfolding fresh(2) by linarith
qed

definition small_bucket :: TokenBucket where
  "small_bucket = \<lparr>has_client = True, bucket_key = ''gte:limiter:api'', capacity = Fin 2, ratePerSecond = Fin 1\<rparr>"

definition quiet_server :: lstate where
  "quiet_server = \<lparr>lclock = 5000000, lhash = (\<lambda>_. []), lexpiry = (\<lambda>_. None)\<rparr>"

lemma small_bucket_valid:
  "bucket_Validate (Some small_bucket) = None" "capacity small_bucket = Fin 2" "ratePerSecond small_bucket = Fin 1" "is_double 2"
  using is_double_int [of 2] by (simp_all add: small_bucket_def bucket_Validate_def IsNaN_def IsInf_def)

lemma quiet_server_fresh:
  "lhash quiet_server k = []" "lexpiry quiet_server k = None" "0 \<le> lclock quiet_server" "millis quiet_server \<le> 2 ^ 53"
  by (simp_all add: quiet_server_def millis_def)

lemma small_expiry: "integer_text (expire_after (Fin 2) (Fin 1)) = Some 4000"
  using is_double_int [of 2] is_double_int [of 4000]
  by (simp add: expire_after_def ddiv_def dmul_def dceil_def integer_text_def is_double_def)

text \<open>Two requests, the second one second after the first.\<close>

definition first_call :: "(gerr + Result) \<times> lstate" where
  "first_call = Acquire limiter_doc (\<lambda>_. 0) (Some small_bucket) Delivered (Fin 2) quiet_server"

definition second_call :: "(gerr + Result) \<times> lstate" where
  "second_call = Acquire limiter_doc (\<lambda>_. 0) (Some small_bucket) Delivered (Fin 1) ((snd first_call)\<lparr>lclock := 6000000\<rparr>)"

lemma two_calls:
  "bucket_run limiter_doc id (\<lambda>_. 0) small_bucket quiet_server 2 (granted 2 (fst first_call) + granted 1 (fst second_call)) (snd second_call)"
  "millis (snd second_call) = 6000"
proof -
  let ?run = "bucket_run limiter_doc id (\<lambda>_. 0) small_bucket quiet_server"
  obtain r d r' d' where a: "first_call = (r, d)" "second_call = (r', d')" by (metis prod.exhaust)
  note calls = a(1) [unfolded first_call_def] a(2) [unfolded second_call_def a(1) snd_conv]
  note step = ldoc.Acquire_step [OF _ small_bucket_valid(4) _ _ refl small_bucket_valid(2,3)]
  have ok: "bucket_ok 2 1 (bucket_key small_bucket) (id quiet_server)" unfolding id_apply by (intro fresh_bucket_ok quiet_server_fresh)
  note s1 = step [OF ok _ _ calls(1)]
  have c: "lclock d = 5000000" using s1 by (simp add: quiet_server_def)
  have w: "waits (bucket_key small_bucket) (id d) (id (d\<lparr>lclock := 6000000\<rparr>))" "millis (id (d\<lparr>lclock := 6000000\<rparr>)) \<le> 2 ^ 53"
    using c by (simp_all add: waits_def millis_def)
  have "bucket_ok 2 1 (bucket_key small_bucket) (id (d\<lparr>lclock := 6000000\<rparr>))" using waits_ok(1) [OF _ w] s1 by simp
  note s2 = step [OF this _ _ calls(2)]
  show "millis (snd second_call) = 6000" using s2 by (simp add: a millis_def)
  have "?run (Suc 0) (0 + granted 2 r) d"
    by (rule bucket_run.request [OF bucket_run.start _ _ calls(1)]) (use quiet_server_fresh in \<open>simp_all add: waits_def\<close>)
  then have "?run (Suc (Suc 0)) (0 + granted 2 r + granted 1 r') d'" by (rule bucket_run.request [OF _ w calls(2)])
  then show "?run 2 (granted 2 (fst first_call) + granted 1 (fst second_call)) (snd second_call)" by (simp add: a numeral_2_eq_2)
qed

theorem bucket_never_overspends_witness:
  "granted 2 (fst first_call) + granted 1 (fst second_call) \<le> 2 + (1 + leeway) + 2 * slack 2 1"
  using bucket_never_overspends [OF ldoc.limiter_server_axioms small_bucket_valid _ _ _ _ two_calls(1)] two_calls(2) quiet_server_fresh
  by (simp add: quiet_server_def millis_def add_divide_distrib)



end
