(* ===== verification/JsonText.thy ===== *)
theory JsonText
  imports Prelude
begin

text \<open>
  The text of JSON as \<open>encoding/json\<close> writes and reads it, for the payloads of the example programs: strings are
  byte strings, \<open>utf8\<close> decides which of them are well formed, \<open>quote\<close> and \<open>unquote\<close> are the string literals, \<open>lex\<close> the
  tokens, \<open>json_step\<close> the scanner's state machine with its stack, and \<open>decode_members\<close> the assignment of an object's
  members to the fields of a struct. An error of the decoder is \<open>None\<close>, or the flag \<open>True\<close> where decoding goes on after it.
\<close>

section \<open>UTF-8\<close>

abbreviation byte :: "char \<Rightarrow> nat" where
  "byte c \<equiv> of_char c"

definition cont :: "char \<Rightarrow> bool" where
  "cont c \<longleftrightarrow> 0x80 \<le> byte c \<and> byte c \<le> 0xBF"

text \<open>The range of the second byte of a sequence, by its first.\<close>

definition second_byte :: "char \<Rightarrow> char \<Rightarrow> bool" where
  "second_byte a b \<longleftrightarrow> cont b \<and> (byte a = 0xE0 \<longrightarrow> 0xA0 \<le> byte b) \<and> (byte a = 0xED \<longrightarrow> byte b \<le> 0x9F)
     \<and> (byte a = 0xF0 \<longrightarrow> 0x90 \<le> byte b) \<and> (byte a = 0xF4 \<longrightarrow> byte b \<le> 0x8F)"

text \<open>The length of the rune a string starts with; 0 when the first byte begins none (\<open>utf8.RuneError\<close> of width 1).\<close>

fun rune_len :: "string \<Rightarrow> nat" where
  "rune_len [] = 0"
| "rune_len (a # s) =
     (if byte a < 0x80 then 1
      else (case s of
        [] \<Rightarrow> 0
      | b # s \<Rightarrow>
          if 0xC2 \<le> byte a \<and> byte a \<le> 0xDF then (if second_byte a b then 2 else 0)
          else (case s of
            [] \<Rightarrow> 0
          | c # s \<Rightarrow>
              if 0xE0 \<le> byte a \<and> byte a \<le> 0xEF then (if second_byte a b \<and> cont c then 3 else 0)
              else (case s of
                [] \<Rightarrow> 0
              | d # s \<Rightarrow> if 0xF0 \<le> byte a \<and> byte a \<le> 0xF4 \<and> second_byte a b \<and> cont c \<and> cont d then 4 else 0))))"

text \<open>The next step of a loop over the runes of a string.\<close>

definition rune_step :: "string \<Rightarrow> nat" where
  "rune_step s = (if rune_len s = 0 then 1 else rune_len s)"

definition replacement :: string where
  "replacement = [CHR 0xEF, CHR 0xBF, CHR 0xBD]"

text \<open>\<open>utf8.EncodeRune\<close> of a code point that is no surrogate.\<close>

definition encode_rune :: "nat \<Rightarrow> string" where
  "encode_rune r =
     (if r < 0x80 then [char_of r]
      else if r < 0x800 then [char_of (0xC0 + r div 64), char_of (0x80 + r mod 64)]
      else if r < 0x10000 then [char_of (0xE0 + r div 4096), char_of (0x80 + r div 64 mod 64), char_of (0x80 + r mod 64)]
      else [char_of (0xF0 + r div 262144), char_of (0x80 + r div 4096 mod 64), char_of (0x80 + r div 64 mod 64),
            char_of (0x80 + r mod 64)])"

lemma rune_step_pos [simp]: "0 < rune_step s" "rune_step s \<noteq> 0"
  by (simp_all add: rune_step_def)

text \<open>A string cut into its runes and single bytes, and the string with each such byte replaced.\<close>

function runes :: "string \<Rightarrow> string list" where
  "runes [] = []"
| "runes (c # s) = take (rune_step (c # s)) (c # s) # runes (drop (rune_step (c # s)) (c # s))"
  by pat_completeness auto

termination by (relation "measure length") simp_all

definition to_valid_rune :: "string \<Rightarrow> string" where
  "to_valid_rune p = (if rune_len p = 0 then replacement else p)"

definition to_valid :: "string \<Rightarrow> string" where
  "to_valid s = concat (map to_valid_rune (runes s))"

definition utf8 :: "string \<Rightarrow> bool" where
  "utf8 s \<longleftrightarrow> list_all (\<lambda>p. rune_len p \<noteq> 0) (runes s)"


section \<open>String literals\<close>

definition hex_digit :: "nat \<Rightarrow> char" where
  "hex_digit d = (if d < 10 then digit_char d else char_of (87 + d))"

definition hex_value :: "char \<Rightarrow> nat option" where
  "hex_value c =
     (if 48 \<le> byte c \<and> byte c \<le> 57 then Some (byte c - 48)
      else if 97 \<le> byte c \<and> byte c \<le> 102 then Some (byte c - 87)
      else if 65 \<le> byte c \<and> byte c \<le> 70 then Some (byte c - 55)
      else None)"

text \<open>One rune or stray byte as \<open>json.Marshal\<close> writes it, with its escapes for HTML.\<close>

definition quote_ascii :: "char \<Rightarrow> string" where
  "quote_ascii c =
     (if c = CHR 0x22 \<or> c = CHR 0x5C then [CHR 0x5C, c]
      else if byte c = 8 then [CHR 0x5C, CHR ''b'']
      else if byte c = 12 then [CHR 0x5C, CHR ''f'']
      else if byte c = 10 then [CHR 0x5C, CHR ''n'']
      else if byte c = 13 then [CHR 0x5C, CHR ''r'']
      else if byte c = 9 then [CHR 0x5C, CHR ''t'']
      else if byte c < 0x20 \<or> c \<in> {CHR ''<'', CHR ''>'', CHR ''&''}
        then [CHR 0x5C, CHR ''u'', CHR ''0'', CHR ''0'', hex_digit (byte c div 16), hex_digit (byte c mod 16)]
      else [c])"

definition quote_rune :: "string \<Rightarrow> string" where
  "quote_rune p =
     (if rune_len p = 0 then CHR 0x5C # ''ufffd''
      else if p = [CHR 0xE2, CHR 0x80, CHR 0xA8] then CHR 0x5C # ''u2028''
      else if p = [CHR 0xE2, CHR 0x80, CHR 0xA9] then CHR 0x5C # ''u2029''
      else if byte (hd p) < 0x80 then quote_ascii (hd p)
      else p)"

definition quote :: "string \<Rightarrow> string" where
  "quote s = CHR 0x22 # concat (map quote_rune (runes s)) @ [CHR 0x22]"

text \<open>What follows an opening quote: the body of the literal, still escaped, and the rest of the text.\<close>

abbreviation (input) escapes :: "char list" where
  "escapes \<equiv> [CHR ''b'', CHR ''f'', CHR ''n'', CHR ''r'', CHR ''t'', CHR 0x5C, CHR ''/'', CHR 0x22]"

definition before :: "string \<Rightarrow> (string \<times> string) option \<Rightarrow> (string \<times> string) option" where
  "before p r = map_option (\<lambda>(body, rest). (p @ body, rest)) r"

function string_body :: "string \<Rightarrow> (string \<times> string) option" where
  "string_body [] = None"
| "string_body (c # s) =
     (if c = CHR 0x22 then Some ([], s)
      else if c = CHR 0x5C then (case s of
          [] \<Rightarrow> None
        | e # t \<Rightarrow>
            if e \<in> set escapes then before [c, e] (string_body t)
            else if e = CHR ''u'' \<and> 4 \<le> length t \<and> list_all (\<lambda>h. hex_value h \<noteq> None) (take 4 t)
              then before (c # e # take 4 t) (string_body (drop 4 t))
            else None)
      else if byte c < 0x20 then None
      else before [c] (string_body s))"
  by pat_completeness auto

termination by (relation "measure length") simp_all

text \<open>\<open>getu4\<close>: the code unit of an escape \<open>u\<close> with four hexadecimal digits at the front of a string.\<close>

definition hex4 :: "string \<Rightarrow> nat option" where
  "hex4 t = (case map hex_value (take 4 t) of
     [Some a, Some b, Some c, Some d] \<Rightarrow> Some (((a * 16 + b) * 16 + c) * 16 + d)
   | _ \<Rightarrow> None)"

definition getu4 :: "string \<Rightarrow> nat option" where
  "getu4 s = (if take 2 s = [CHR 0x5C, CHR ''u''] then hex4 (drop 2 s) else None)"

definition surrogate :: "nat \<Rightarrow> bool" where
  "surrogate r \<longleftrightarrow> 0xD800 \<le> r \<and> r < 0xE000"

text \<open>The bytes an escape \<open>u\<close> stands for and how many bytes it takes: a pair of surrogates is one rune, a single one is none.\<close>

definition unescape_u :: "string \<Rightarrow> string \<times> nat" where
  "unescape_u s = (case getu4 s of
     None \<Rightarrow> (replacement, 6)
   | Some r \<Rightarrow>
       if \<not> surrogate r then (encode_rune r, 6)
       else (case getu4 (drop 6 s) of
         Some r1 \<Rightarrow> if r < 0xDC00 \<and> 0xDC00 \<le> r1 \<and> r1 < 0xE000
           then (encode_rune ((r - 0xD800) * 1024 + (r1 - 0xDC00) + 0x10000), 12) else (replacement, 6)
       | None \<Rightarrow> (replacement, 6)))"

definition escaped :: "char \<Rightarrow> char" where
  "escaped e = (if e = CHR ''b'' then CHR 8 else if e = CHR ''f'' then CHR 12 else if e = CHR ''n'' then CHR 10
     else if e = CHR ''r'' then CHR 13 else if e = CHR ''t'' then CHR 9 else e)"

lemma unescape_u_takes: "0 < snd (unescape_u s)"
  by (simp add: unescape_u_def split: option.splits)

function unquote :: "string \<Rightarrow> string" where
  "unquote [] = []"
| "unquote (c # s) =
     (if c = CHR 0x5C then (case s of
          [] \<Rightarrow> []
        | e # t \<Rightarrow>
            if e = CHR ''u'' then fst (unescape_u (c # s)) @ unquote (drop (snd (unescape_u (c # s))) (c # s))
            else escaped e # unquote t)
      else to_valid_rune (take (rune_step (c # s)) (c # s)) @ unquote (drop (rune_step (c # s)) (c # s)))"
  by pat_completeness auto

termination
  by (relation "measure length") (simp_all add: unescape_u_takes)


section \<open>Numbers\<close>

definition is_digit :: "char \<Rightarrow> bool" where
  "is_digit c \<longleftrightarrow> 48 \<le> byte c \<and> byte c \<le> 57"

definition exponent_part :: "string \<Rightarrow> string \<Rightarrow> (string \<times> string) option" where
  "exponent_part pre s = (case s of
     [] \<Rightarrow> Some (pre, s)
   | e # t \<Rightarrow>
       if e \<in> {CHR ''e'', CHR ''E''} then
         (let sg = takeWhile (\<lambda>c. c \<in> {CHR ''+'', CHR ''-''}) (take 1 t); u = drop (length sg) t in
          if takeWhile is_digit u = [] then None
          else Some (pre @ [e] @ sg @ takeWhile is_digit u, dropWhile is_digit u))
       else Some (pre, s))"

definition fraction_part :: "string \<Rightarrow> string \<Rightarrow> (string \<times> string) option" where
  "fraction_part pre s = (case s of
     [] \<Rightarrow> Some (pre, s)
   | c # t \<Rightarrow>
       if c = CHR ''.'' then
         (if takeWhile is_digit t = [] then None
          else exponent_part (pre @ [c] @ takeWhile is_digit t) (dropWhile is_digit t))
       else exponent_part pre s)"

text \<open>The number a text starts with.\<close>

definition number_text :: "string \<Rightarrow> (string \<times> string) option" where
  "number_text s =
     (let sg = takeWhile (\<lambda>c. c = CHR ''-'') (take 1 s); t = drop (length sg) s in
      case t of
        [] \<Rightarrow> None
      | c # u \<Rightarrow>
          if c = CHR ''0'' then fraction_part (sg @ [c]) u
          else if is_digit c then fraction_part (sg @ takeWhile is_digit t) (dropWhile is_digit t)
          else None)"

fun dec_value :: "nat \<Rightarrow> string \<Rightarrow> nat" where
  "dec_value n [] = n"
| "dec_value n (c # s) = dec_value (10 * n + (byte c - 48)) s"

text \<open>\<open>strconv.ParseInt\<close> with base 10 and 64 bits.\<close>

definition ParseInt10 :: "string \<Rightarrow> int option" where
  "ParseInt10 s =
     (let sg = (if s \<noteq> [] \<and> hd s \<in> {CHR ''+'', CHR ''-''} then [hd s] else []); ds = drop (length sg) s;
          n = (if sg = ''-'' then - int (dec_value 0 ds) else int (dec_value 0 ds)) in
      if ds \<noteq> [] \<and> list_all is_digit ds \<and> int64_range n then Some n else None)"


section \<open>Tokens\<close>

datatype token = TObj | TObjEnd | TArr | TArrEnd | TColon | TComma | TStr string | TNum string | TTrue | TFalse | TNull

abbreviation (input) white :: "char list" where
  "white \<equiv> [CHR 0x20, CHR 9, CHR 10, CHR 13]"

definition punctuation :: "char \<Rightarrow> token option" where
  "punctuation c = map_of [(CHR ''{'', TObj), (CHR ''}'', TObjEnd), (CHR ''['', TArr), (CHR '']'', TArrEnd),
     (CHR '':'', TColon), (CHR '','', TComma)] c"

text \<open>The first token of a text that does not start with white space, and the text after it.\<close>

definition next_token :: "string \<Rightarrow> (token \<times> string) option" where
  "next_token s = (case s of
     [] \<Rightarrow> None
   | c # t \<Rightarrow> (case punctuation c of
       Some p \<Rightarrow> Some (p, t)
     | None \<Rightarrow>
         if c = CHR 0x22 then map_option (\<lambda>(body, rest). (TStr (unquote body), rest)) (string_body t)
         else if c = CHR ''-'' \<or> is_digit c then map_option (\<lambda>(n, rest). (TNum n, rest)) (number_text s)
         else if take 4 s = ''true'' then Some (TTrue, drop 4 s)
         else if take 5 s = ''false'' then Some (TFalse, drop 5 s)
         else if take 4 s = ''null'' then Some (TNull, drop 4 s)
         else None))"

lemma before_Some [simp]:
  "before p r = Some (body, rest) \<longleftrightarrow> (\<exists>b. r = Some (b, rest) \<and> body = p @ b)"
  by (cases r) (auto simp: before_def)

lemma string_body_cases:
  assumes "string_body (c # s) = Some (body, rest)"
  obtains "rest = s" | b where "string_body s = Some (b, rest)"
    | e t b where "s = e # t" "string_body t = Some (b, rest)"
    | e t b where "s = e # t" "string_body (drop 4 t) = Some (b, rest)"
proof (cases "c = CHR 0x5C")
  case True
  thus thesis using assms that
    by (cases s) (auto simp: string_body.simps(2) [of "CHR 0x5C"] simp del: string_body.simps split: if_splits)
next
  case False
  thus thesis using assms that by (auto simp: string_body.simps(2) [of c s] simp del: string_body.simps split: if_splits)
qed

declare string_body.simps(2) [simp del]

lemma string_body_shorter: "string_body s = Some (body, rest) \<Longrightarrow> length rest < length s"
proof (induction s arbitrary: body rule: length_induct)
  case (1 s)
  show ?case
  proof (cases s)
    case (Cons c u)
    have IH: "length v < length s \<Longrightarrow> string_body v = Some (b, rest) \<Longrightarrow> length rest < length v" for v b
      using "1.IH" by blast
    from "1.prems" [unfolded Cons] show ?thesis
      by (cases rule: string_body_cases) (use Cons in \<open>auto dest!: IH [rotated]\<close>)
  qed (use 1 in simp)
qed

lemma dropWhile_shorter: "length xs \<le> n \<Longrightarrow> length (dropWhile P xs) \<le> n"
  by (rule order.trans [OF length_dropWhile_le])

lemma exponent_part_shorter: "exponent_part pre s = Some (n, rest) \<Longrightarrow> length rest \<le> length s"
  by (auto simp: exponent_part_def Let_def split: list.splits if_splits) (simp_all add: dropWhile_shorter)

lemma fraction_part_shorter: "fraction_part pre s = Some (n, rest) \<Longrightarrow> length rest \<le> length s"
  using length_dropWhile_le [of is_digit "tl s"]
  by (fastforce simp: fraction_part_def split: list.splits if_splits dest: exponent_part_shorter)

lemma number_text_shorter: "number_text s = Some (n, rest) \<Longrightarrow> length rest < length s"
proof -
  assume n: "number_text s = Some (n, rest)"
  define t where "t = drop (length (takeWhile (\<lambda>c. c = CHR ''-'') (take 1 s))) s"
  obtain c u where t: "t = c # u" using n by (auto simp: number_text_def Let_def t_def split: list.splits)
  have "length rest \<le> length u"
    using n unfolding number_text_def Let_def t_def [symmetric] t
    by (auto dest!: fraction_part_shorter split: if_splits intro: order.trans [OF _ length_dropWhile_le])
  moreover have "length t \<le> length s" by (simp add: t_def)
  ultimately show ?thesis by (simp add: t)
qed

lemma next_token_shorter: "next_token s = Some (t, rest) \<Longrightarrow> length rest < length s"
  by (auto simp: next_token_def split: list.splits option.splits if_splits
      dest: string_body_shorter number_text_shorter)

function lex :: "string \<Rightarrow> token list option" where
  "lex [] = Some []"
| "lex (c # s) =
     (if c \<in> set white then lex s
      else (case next_token (c # s) of
        None \<Rightarrow> None
      | Some (t, rest) \<Rightarrow> map_option (Cons t) (lex rest)))"
  by pat_completeness auto

termination
  by (relation "measure length") (auto dest: next_token_shorter)

section \<open>Values\<close>

datatype jvalue =
    VNull | VBool bool | VNum string | VStr string
  | VArr "jvalue list" | VObj "(string \<times> jvalue) list"

text \<open>What encloses the value being read: the elements of an array so far, or the members of an object so far and
  the key of the next.\<close>

datatype frame = Elems "jvalue list" | Members "(string \<times> jvalue) list" string

text \<open>Where the scanner stands: before a value, after an opening bracket or brace, before a key, before a colon, after a
  value inside another, or after the whole value.\<close>

datatype pstate =
    BeginValue "frame list" | BeginValueOrEmpty "jvalue list" "frame list"
  | BeginStringOrEmpty "frame list" | BeginString "(string \<times> jvalue) list" "frame list"
  | ObjectKey "(string \<times> jvalue) list" string "frame list"
  | EndValue frame "frame list" | EndTop jvalue

fun end_value :: "jvalue \<Rightarrow> frame list \<Rightarrow> pstate" where
  "end_value v [] = EndTop v"
| "end_value v (Elems vs # st) = EndValue (Elems (vs @ [v])) st"
| "end_value v (Members kvs k # st) = EndValue (Members (kvs @ [(k, v)]) k) st"

definition maxNestingDepth :: nat where
  "maxNestingDepth = 10000"

fun begin_value :: "frame list \<Rightarrow> token \<Rightarrow> pstate option" where
  "begin_value st TNull = Some (end_value VNull st)"
| "begin_value st TTrue = Some (end_value (VBool True) st)"
| "begin_value st TFalse = Some (end_value (VBool False) st)"
| "begin_value st (TNum n) = Some (end_value (VNum n) st)"
| "begin_value st (TStr s) = Some (end_value (VStr s) st)"
| "begin_value st TObj = (if length st < maxNestingDepth then Some (BeginStringOrEmpty st) else None)"
| "begin_value st TArr = (if length st < maxNestingDepth then Some (BeginValueOrEmpty [] st) else None)"
| "begin_value st _ = None"

fun json_step :: "pstate \<Rightarrow> token \<Rightarrow> pstate option" where
  "json_step (BeginValue st) t = begin_value st t"
| "json_step (BeginValueOrEmpty vs st) t =
     (if t = TArrEnd then Some (end_value (VArr vs) st) else begin_value (Elems vs # st) t)"
| "json_step (BeginStringOrEmpty st) (TStr k) = Some (ObjectKey [] k st)"
| "json_step (BeginStringOrEmpty st) TObjEnd = Some (end_value (VObj []) st)"
| "json_step (BeginString kvs st) (TStr k) = Some (ObjectKey kvs k st)"
| "json_step (ObjectKey kvs k st) TColon = Some (BeginValue (Members kvs k # st))"
| "json_step (EndValue (Elems vs) st) TComma = Some (BeginValue (Elems vs # st))"
| "json_step (EndValue (Elems vs) st) TArrEnd = Some (end_value (VArr vs) st)"
| "json_step (EndValue (Members kvs k) st) TComma = Some (BeginString kvs st)"
| "json_step (EndValue (Members kvs k) st) TObjEnd = Some (end_value (VObj kvs) st)"
| "json_step _ _ = None"

fun json_run :: "pstate \<Rightarrow> token list \<Rightarrow> jvalue option" where
  "json_run (EndTop v) [] = Some v"
| "json_run p [] = None"
| "json_run p (t # ts) = (case json_step p t of None \<Rightarrow> None | Some p' \<Rightarrow> json_run p' ts)"

definition json_parse :: "string \<Rightarrow> jvalue option" where
  "json_parse s = (case lex s of None \<Rightarrow> None | Some ts \<Rightarrow> json_run (BeginValue []) ts)"


section \<open>Structs\<close>

text \<open>The folding of a key that has no field of exactly its name: ASCII letters, and the two other runes that
  fold to one.\<close>

definition upper :: "char \<Rightarrow> char" where
  "upper c = (if 97 \<le> byte c \<and> byte c \<le> 122 then char_of (byte c - 32) else c)"

fun fold_name :: "string \<Rightarrow> string" where
  "fold_name [] = []"
| "fold_name (c # s) =
     (if take 2 (c # s) = [CHR 0xC5, CHR 0xBF] then CHR ''S'' # fold_name (drop 1 s)
      else if take 3 (c # s) = [CHR 0xE2, CHR 0x84, CHR 0xAA] then CHR ''K'' # fold_name (drop 2 s)
      else upper c # fold_name s)"

text \<open>A field of a struct: its name, and the assignment of a value, which fails for a value of another kind. \<open>null\<close>
  leaves every field as it is.\<close>

type_synonym 'p field = "string \<times> (jvalue \<Rightarrow> 'p \<Rightarrow> 'p option)"

definition string_field :: "(string \<Rightarrow> 'p \<Rightarrow> 'p) \<Rightarrow> jvalue \<Rightarrow> 'p \<Rightarrow> 'p option" where
  "string_field upd v p = (case v of VNull \<Rightarrow> Some p | VStr s \<Rightarrow> Some (upd s p) | _ \<Rightarrow> None)"

definition int_field :: "(int \<Rightarrow> 'p \<Rightarrow> 'p) \<Rightarrow> jvalue \<Rightarrow> 'p \<Rightarrow> 'p option" where
  "int_field upd v p = (case v of
     VNull \<Rightarrow> Some p
   | VNum n \<Rightarrow> (case ParseInt10 n of None \<Rightarrow> None | Some i \<Rightarrow> Some (upd i p))
   | _ \<Rightarrow> None)"

definition bool_field :: "(bool \<Rightarrow> 'p \<Rightarrow> 'p) \<Rightarrow> jvalue \<Rightarrow> 'p \<Rightarrow> 'p option" where
  "bool_field upd v p = (case v of VNull \<Rightarrow> Some p | VBool b \<Rightarrow> Some (upd b p) | _ \<Rightarrow> None)"

definition find_field :: "'p field list \<Rightarrow> string \<Rightarrow> (jvalue \<Rightarrow> 'p \<Rightarrow> 'p option) option" where
  "find_field fs k = (case map_of fs k of
     Some f \<Rightarrow> Some f
   | None \<Rightarrow> map_option snd (find (\<lambda>f. fold_name (fst f) = fold_name k) fs))"

text \<open>The members in order; an unknown one is skipped, a wrong one is remembered and decoding goes on.\<close>

fun decode_members :: "'p field list \<Rightarrow> (string \<times> jvalue) list \<Rightarrow> bool \<times> 'p \<Rightarrow> bool \<times> 'p" where
  "decode_members fs [] r = r"
| "decode_members fs ((k, v) # kvs) (bad, p) = (case find_field fs k of
     None \<Rightarrow> decode_members fs kvs (bad, p)
   | Some f \<Rightarrow> (case f v p of
       None \<Rightarrow> decode_members fs kvs (True, p)
     | Some p' \<Rightarrow> decode_members fs kvs (bad, p')))"

text \<open>\<open>json.Unmarshal\<close> into a struct that holds \<open>p\<close>.\<close>

definition unmarshal_struct :: "'p field list \<Rightarrow> 'p \<Rightarrow> string \<Rightarrow> 'p option" where
  "unmarshal_struct fs p s = (case json_parse s of
     Some VNull \<Rightarrow> Some p
   | Some (VObj kvs) \<Rightarrow> (case decode_members fs kvs (False, p) of (bad, p') \<Rightarrow> if bad then None else Some p')
   | _ \<Rightarrow> None)"

text \<open>\<open>json.Marshal\<close> of a struct of strings, integers and booleans, in the order of its fields.\<close>

datatype literal = LStr string | LInt int | LBool bool

fun literal_text :: "literal \<Rightarrow> string" where
  "literal_text (LStr s) = quote s"
| "literal_text (LInt n) = dec_int n"
| "literal_text (LBool b) = (if b then ''true'' else ''false'')"

fun member_texts :: "(string \<times> literal) list \<Rightarrow> string" where
  "member_texts [] = []"
| "member_texts ((k, l) # kvs) =
     quote k @ CHR '':'' # literal_text l @ (if kvs = [] then [] else CHR '','' # member_texts kvs)"

definition marshal_struct :: "(string \<times> literal) list \<Rightarrow> string" where
  "marshal_struct kvs = CHR ''{'' # member_texts kvs @ ''}''"

end
