(* ===== verification/FlagParsing.thy ===== *)
theory FlagParsing
  imports JsonText DoubleOps
begin

text \<open>
  The part of Go's \<open>flag\<close>, \<open>strconv\<close> and \<open>time\<close> packages that the command lines of the examples go through: \<open>ParseBool\<close>,
  \<open>ParseInt\<close> with a base chosen by the prefix, \<open>ParseDuration\<close> with its unsigned 64-bit sums and its double for fractions,
  and \<open>FlagSet.Parse\<close> with \<open>ContinueOnError\<close>. Where only the fact of an error matters to the callers it is \<open>None\<close>.
\<close>

section \<open>Booleans and integers\<close>

definition ParseBool :: "string \<Rightarrow> bool option" where
  "ParseBool s =
     (if s \<in> set [''1'', ''t'', ''T'', ''TRUE'', ''true'', ''True''] then Some True
      else if s \<in> set [''0'', ''f'', ''F'', ''FALSE'', ''false'', ''False''] then Some False
      else None)"

definition lower :: "char \<Rightarrow> char" where
  "lower c = (if 65 \<le> byte c \<and> byte c \<le> 90 then char_of (byte c + 32) else c)"

definition digit_of :: "char \<Rightarrow> nat option" where
  "digit_of c = (if is_digit c then Some (byte c - 48)
     else if 97 \<le> byte (lower c) \<and> byte (lower c) \<le> 122 then Some (byte (lower c) - 87) else None)"

text \<open>\<open>underscoreOK\<close>: underscores only between digits, the prefix counting as one. \<open>saw\<close> is the kind of the last character.\<close>

datatype seen = Start_seen | Digit_seen | Underscore_seen | Other_seen

fun underscores_ok :: "bool \<Rightarrow> seen \<Rightarrow> string \<Rightarrow> bool" where
  "underscores_ok hex saw [] \<longleftrightarrow> saw \<noteq> Underscore_seen"
| "underscores_ok hex saw (c # s) \<longleftrightarrow>
     (if is_digit c \<or> hex \<and> 97 \<le> byte (lower c) \<and> byte (lower c) \<le> 102 then underscores_ok hex Digit_seen s
      else if c = CHR ''_'' then saw = Digit_seen \<and> underscores_ok hex Underscore_seen s
      else saw \<noteq> Underscore_seen \<and> underscores_ok hex Other_seen s)"

definition underscoreOK :: "string \<Rightarrow> bool" where
  "underscoreOK s =
     (if 2 \<le> length s \<and> hd s = CHR ''0'' \<and> lower (s ! 1) \<in> {CHR ''b'', CHR ''o'', CHR ''x''}
      then underscores_ok (lower (s ! 1) = CHR ''x'') Digit_seen (drop 2 s)
      else underscores_ok False Start_seen s)"

fun digits_value :: "nat \<Rightarrow> nat \<Rightarrow> string \<Rightarrow> nat option" where
  "digits_value base n [] = Some n"
| "digits_value base n (c # s) =
     (if c = CHR ''_'' then digits_value base n s
      else (case digit_of c of
        None \<Rightarrow> None
      | Some d \<Rightarrow> if d < base then digits_value base (n * base + d) s else None))"

text \<open>\<open>ParseUint(s, 0, 64)\<close> before its range check.\<close>

definition parse_uint0 :: "string \<Rightarrow> nat option" where
  "parse_uint0 s =
     (if s = [] then None
      else
        let (base, ds) =
          (if hd s \<noteq> CHR ''0'' then (10, s)
           else if 3 \<le> length s \<and> lower (s ! 1) = CHR ''b'' then (2, drop 2 s)
           else if 3 \<le> length s \<and> lower (s ! 1) = CHR ''o'' then (8, drop 2 s)
           else if 3 \<le> length s \<and> lower (s ! 1) = CHR ''x'' then (16, drop 2 s)
           else (8, tl s))
        in if CHR ''_'' \<in> set ds \<and> \<not> underscoreOK s then None else digits_value base 0 ds)"

text \<open>\<open>ParseInt(s, 0, 64)\<close>.\<close>

definition ParseInt0 :: "string \<Rightarrow> int option" where
  "ParseInt0 s =
     (if s = [] then None
      else
        let neg = (hd s = CHR ''-''); u = (if hd s \<in> {CHR ''+'', CHR ''-''} then tl s else s) in
        case parse_uint0 u of
          None \<Rightarrow> None
        | Some n \<Rightarrow> let i = (if neg then - int n else int n) in if int64_range i then Some i else None)"


section \<open>Durations\<close>

text \<open>\<open>leadingInt\<close> and \<open>leadingFraction\<close>: the digits at the front. The latter stops adding digits when the value would leave
  63 bits; its scale is a power of ten up to \<open>10 ^ 19\<close>, which a double holds.\<close>

fun leadingInt :: "nat \<Rightarrow> string \<Rightarrow> (nat \<times> string) option" where
  "leadingInt x [] = Some (x, [])"
| "leadingInt x (c # s) =
     (if \<not> is_digit c then Some (x, c # s)
      else if x > 2 ^ 63 div 10 \<or> x * 10 + (byte c - 48) > 2 ^ 63 then None
      else leadingInt (x * 10 + (byte c - 48)) s)"

fun leadingFraction :: "bool \<Rightarrow> nat \<Rightarrow> nat \<Rightarrow> string \<Rightarrow> nat \<times> nat \<times> string" where
  "leadingFraction over x scale [] = (x, scale, [])"
| "leadingFraction over x scale (c # s) =
     (if \<not> is_digit c then (x, scale, c # s)
      else if over \<or> x > (2 ^ 63 - 1) div 10 \<or> x * 10 + (byte c - 48) > 2 ^ 63 then leadingFraction True x scale s
      else leadingFraction False (x * 10 + (byte c - 48)) (scale * 10) s)"

definition unitMap :: "string \<Rightarrow> nat option" where
  "unitMap = map_of [(''ns'', 1), (''us'', 1000), ([CHR 0xC2, CHR 0xB5, CHR ''s''], 1000),
     ([CHR 0xCE, CHR 0xBC, CHR ''s''], 1000), (''ms'', 1000000), (''s'', 1000000000), (''m'', 60000000000),
     (''h'', 3600000000000)]"

text \<open>\<open>uint64(float64(f) * (float64(unit) / scale))\<close>.\<close>

definition fraction_of :: "nat \<Rightarrow> nat \<Rightarrow> nat \<Rightarrow> nat" where
  "fraction_of f u scale =
     (case dmul (dround (of_nat f)) (ddiv (Fin (of_nat u)) (Fin (of_nat scale))) of Fin x \<Rightarrow> nat \<lfloor>x\<rfloor> | _ \<Rightarrow> 0)"

definition is_unit_char :: "char \<Rightarrow> bool" where
  "is_unit_char c \<longleftrightarrow> c \<noteq> CHR ''.'' \<and> \<not> is_digit c"

text \<open>One number with its unit: its nanoseconds and the text after it.\<close>

definition duration_term :: "string \<Rightarrow> (nat \<times> string) option" where
  "duration_term s = (case leadingInt 0 s of
     None \<Rightarrow> None
   | Some (v, s1) \<Rightarrow>
       let (f, scale, s2) = (if s1 \<noteq> [] \<and> hd s1 = CHR ''.'' then leadingFraction False 0 1 (tl s1) else (0, 1, s1));
           pre = (length s \<noteq> length s1);
           post = (s1 \<noteq> [] \<and> hd s1 = CHR ''.'' \<and> length (tl s1) \<noteq> length s2);
           rest = dropWhile is_unit_char s2 in
       if \<not> pre \<and> \<not> post \<or> takeWhile is_unit_char s2 = [] then None
       else (case unitMap (takeWhile is_unit_char s2) of
         None \<Rightarrow> None
       | Some u \<Rightarrow>
           if v > 2 ^ 63 div u then None
           else let w = v * u + (if f > 0 then fraction_of f u scale else 0) in
                if w > 2 ^ 63 then None else Some (w, rest)))"

lemma leadingInt_shorter: "leadingInt x s = Some (v, r) \<Longrightarrow> length r \<le> length s"
  by (induction x s rule: leadingInt.induct) (auto split: if_splits)

lemma leadingFraction_shorter: "leadingFraction ov x sc s = (f, scale, r) \<Longrightarrow> length r \<le> length s"
  by (induction ov x sc s rule: leadingFraction.induct) (auto split: if_splits)

lemma dropWhile_less: "takeWhile P xs \<noteq> [] \<Longrightarrow> length (dropWhile P xs) < length xs"
  by (metis append.right_neutral length_append length_greater_0_conv less_add_same_cancel2 takeWhile_dropWhile_id)

lemma duration_term_shorter: "duration_term s = Some (v, r) \<Longrightarrow> length r < length s"
proof -
  assume a: "duration_term s = Some (v, r)"
  obtain w s1 where l: "leadingInt 0 s = Some (w, s1)" using a by (auto simp: duration_term_def split: option.splits)
  obtain f scale s2 where
    x: "(if s1 \<noteq> [] \<and> hd s1 = CHR ''.'' then leadingFraction False 0 1 (tl s1) else (0, 1, s1)) = (f, scale, s2)"
    by (metis prod_cases3)
  have "length s2 \<le> length s1"
    using x leadingFraction_shorter [of False 0 1 "tl s1"] by (fastforce split: if_splits)
  moreover have "takeWhile is_unit_char s2 \<noteq> []" "r = dropWhile is_unit_char s2"
    using a unfolding duration_term_def l option.case prod.case x Let_def by (auto split: if_splits option.splits)
  ultimately show ?thesis using leadingInt_shorter [OF l] dropWhile_less [of is_unit_char s2] by simp
qed

text \<open>The sum \<open>d\<close> is a \<open>uint64\<close>: its overflow check comes after the addition.\<close>

function duration_sum :: "nat \<Rightarrow> string \<Rightarrow> nat option" where
  "duration_sum d s =
     (if s = [] then Some d
      else if \<not> (hd s = CHR ''.'' \<or> is_digit (hd s)) then None
      else (case duration_term s of
        None \<Rightarrow> None
      | Some (v, rest) \<Rightarrow> let d' = (d + v) mod 2 ^ 64 in if d' > 2 ^ 63 then None else duration_sum d' rest))"
  by pat_completeness auto

termination
  by (relation "measure (\<lambda>(d, s). length s)") (auto dest: duration_term_shorter)

declare duration_sum.simps [simp del]

definition ParseDuration :: "string \<Rightarrow> int option" where
  "ParseDuration orig =
     (let neg = (orig \<noteq> [] \<and> hd orig = CHR ''-'');
          s = (if orig \<noteq> [] \<and> hd orig \<in> {CHR ''-'', CHR ''+''} then tl orig else orig) in
      if s = ''0'' then Some 0
      else if s = [] then None
      else (case duration_sum 0 s of
        None \<Rightarrow> None
      | Some d \<Rightarrow> if neg then Some (- int d) else if d > 2 ^ 63 - 1 then None else Some (int d)))"


section \<open>Flags\<close>

text \<open>A flag by the type of its variable, with the assignment to that variable.\<close>

datatype 'c flag_var =
    StringVar "string \<Rightarrow> 'c \<Rightarrow> 'c"
  | DurationVar "int \<Rightarrow> 'c \<Rightarrow> 'c"
  | IntVar "int \<Rightarrow> 'c \<Rightarrow> 'c"
  | BoolVar "bool \<Rightarrow> 'c \<Rightarrow> 'c"

fun flag_Set :: "'c flag_var \<Rightarrow> string \<Rightarrow> 'c \<Rightarrow> 'c option" where
  "flag_Set (StringVar f) v c = Some (f v c)"
| "flag_Set (DurationVar f) v c = map_option (\<lambda>d. f d c) (ParseDuration v)"
| "flag_Set (IntVar f) v c = map_option (\<lambda>n. f n c) (ParseInt0 v)"
| "flag_Set (BoolVar f) v c = map_option (\<lambda>b. f b c) (ParseBool v)"

fun is_bool_flag :: "'c flag_var \<Rightarrow> bool" where
  "is_bool_flag (BoolVar f) = True"
| "is_bool_flag _ = False"

datatype flag_error =
    BadSyntax string
  | ErrHelp
  | NotDefined string
  | NeedsArgument string
  | InvalidValue string string

text \<open>The name and the value of an argument that is a flag: the value follows the first equals sign, if there is one.\<close>

definition split_flag :: "string \<Rightarrow> string \<times> string option" where
  "split_flag name = (case dropWhile (\<lambda>c. c \<noteq> CHR ''='') name of
     [] \<Rightarrow> (name, None)
   | _ # v \<Rightarrow> (takeWhile (\<lambda>c. c \<noteq> CHR ''='') name, Some v))"

text \<open>\<open>parseOne\<close>: an error, the end of the flags (\<open>None\<close>), or the assignment of one flag and the arguments after it.\<close>

definition flag_value :: "'c flag_var \<Rightarrow> string option \<Rightarrow> string list \<Rightarrow> (string \<times> string list) option" where
  "flag_value var val args =
     (if is_bool_flag var then Some (case val of None \<Rightarrow> ''true'' | Some v \<Rightarrow> v, args)
      else (case val of
        Some v \<Rightarrow> Some (v, args)
      | None \<Rightarrow> (case args of [] \<Rightarrow> None | v # args' \<Rightarrow> Some (v, args'))))"

definition set_flag ::
  "(string \<times> 'c flag_var) list \<Rightarrow> string \<Rightarrow> string option \<Rightarrow> string list \<Rightarrow> 'c \<Rightarrow> flag_error + ('c \<times> string list) option" where
  "set_flag formal name val args c = (case map_of formal name of
     None \<Rightarrow> Inl (if name = ''help'' \<or> name = ''h'' then ErrHelp else NotDefined name)
   | Some var \<Rightarrow> (case flag_value var val args of
       None \<Rightarrow> Inl (NeedsArgument name)
     | Some (v, args') \<Rightarrow> (case flag_Set var v c of
         None \<Rightarrow> Inl (InvalidValue v name)
       | Some c' \<Rightarrow> Inr (Some (c', args')))))"

fun parseOne :: "(string \<times> 'c flag_var) list \<Rightarrow> string list \<Rightarrow> 'c \<Rightarrow> flag_error + ('c \<times> string list) option" where
  "parseOne formal [] c = Inr None"
| "parseOne formal (s # args) c =
     (if length s < 2 \<or> hd s \<noteq> CHR ''-'' \<or> s = ''--'' then Inr None
      else
        let name = (if s ! 1 = CHR ''-'' then drop 2 s else drop 1 s) in
        if name = [] \<or> hd name = CHR ''-'' \<or> hd name = CHR ''='' then Inl (BadSyntax s)
        else (case split_flag name of (name, val) \<Rightarrow> set_flag formal name val args c))"

lemma set_flag_assigns:
  assumes "set_flag formal name val args c = Inr (Some (c', rest))"
  obtains var v where "map_of formal name = Some var" "flag_Set var v c = Some c'" "length rest \<le> length args"
  using assms by (auto simp: set_flag_def flag_value_def split: option.splits if_splits list.splits)

lemma parseOne_assigns:
  assumes "parseOne formal args c = Inr (Some (c', rest))"
  obtains name var v where "map_of formal name = Some var" "flag_Set var v c = Some c'" "length rest < length args"
proof (cases args)
  case (Cons s more)
  then obtain name val where "set_flag formal name val more c = Inr (Some (c', rest))"
    using assms by (auto simp: Let_def split: if_splits prod.splits)
  thus thesis using that Cons by (auto elim: set_flag_assigns)
qed (use assms in simp)

text \<open>The loop of \<open>FlagSet.Parse\<close>.\<close>

function flag_Parse :: "(string \<times> 'c flag_var) list \<Rightarrow> string list \<Rightarrow> 'c \<Rightarrow> flag_error + 'c" where
  "flag_Parse formal args c = (case parseOne formal args c of
     Inl e \<Rightarrow> Inl e
   | Inr None \<Rightarrow> Inr c
   | Inr (Some (c', rest)) \<Rightarrow> flag_Parse formal rest c')"
  by pat_completeness auto

termination
  by (relation "measure (\<lambda>(formal, args, c). length args)") (auto elim: parseOne_assigns)

declare flag_Parse.simps [simp del]

text \<open>An invariant that every assignment keeps holds of the parsed configuration.\<close>

lemma flag_Parse_keeps:
  assumes "flag_Parse formal args c = Inr c'" "P c"
    and keep: "\<And>name var v c c'. map_of formal name = Some var \<Longrightarrow> flag_Set var v c = Some c' \<Longrightarrow> P c \<Longrightarrow> P c'"
  shows "P c'"
  using assms(1,2)
proof (induction args arbitrary: c rule: length_induct)
  case (1 args)
  consider "c' = c" | c1 rest where "parseOne formal args c = Inr (Some (c1, rest))" "flag_Parse formal rest c1 = Inr c'"
    using "1.prems"(1) by (subst (asm) flag_Parse.simps) (auto split: sum.splits option.splits)
  thus ?case
  proof cases
    case (2 c1 rest)
    from 2(1) show ?thesis
      by (rule parseOne_assigns) (use 1 2 keep in blast)
  qed (use 1 in simp)
qed

end
