(* ===== verification/ExampleSupport.thy ===== *)
theory ExampleSupport
  imports FlagParsing ServerConfig Metrics
begin

text \<open>
  \<^verbatim>\<open>examples/support/support.go\<close>: what the four example programs share. \<open>getenv\<close> is the environment (an unset variable is
  the empty string), \<open>ping\<close> the outcome of \<open>Ping\<close> at an address, and the number of open clients is threaded through,
  since a client that is not returned is closed again. An error of a program is one of its flags or one of the engine's.
\<close>

datatype run_error = FlagError flag_error | EngineError gerr

definition DefaultRedisAddress :: string where
  "DefaultRedisAddress = ''127.0.0.1:6379''"

definition RedisAddressEnv :: string where
  "RedisAddressEnv = ''TASKENGINE_REDIS_ADDR''"

definition RedisAddress :: "(string \<Rightarrow> string) \<Rightarrow> string \<Rightarrow> string" where
  "RedisAddress getenv explicit =
     (if explicit \<noteq> '''' then explicit
      else if getenv RedisAddressEnv \<noteq> '''' then getenv RedisAddressEnv
      else DefaultRedisAddress)"

text \<open>A client is known by its address.\<close>

definition OpenRedis :: "(string \<Rightarrow> string) \<Rightarrow> (string \<Rightarrow> gerr option) \<Rightarrow> string \<Rightarrow> int \<Rightarrow> (gerr + string) \<times> int" where
  "OpenRedis getenv ping explicit clients =
     (let address = RedisAddress getenv explicit; clients = clients + 1 in
      case ping address of
        Some e \<Rightarrow> (Inl (wrap_err (''ping Redis at '' @ address) e), clients - 1)
      | None \<Rightarrow> (Inr address, clients))"

definition RedisPingTimeout :: duration where
  "RedisPingTimeout = 5 * second"

text \<open>\<open>ping\<close> now depends on the deadline of its context.\<close>

definition ConnectRedis ::
  "(string \<Rightarrow> string) \<Rightarrow> (gotime \<Rightarrow> string \<Rightarrow> gerr option) \<Rightarrow> gotime \<Rightarrow> string \<Rightarrow> int \<Rightarrow> (gerr + string) \<times> int" where
  "ConnectRedis getenv ping now explicit = OpenRedis getenv (ping (now + RedisPingTimeout)) explicit"


section \<open>Producers\<close>

record ProducerConfig =
  pc_RedisAddr :: string
  pc_Queue :: string
  pc_Input :: string
  pc_EnqueueDelay :: duration
  pc_Duration :: duration
  pc_Timeout :: duration
  pc_MaxRetry :: int
  pc_Fail :: bool
  pc_Invalid :: bool

fun str_contains :: "string \<Rightarrow> string \<Rightarrow> bool" where
  "str_contains [] p \<longleftrightarrow> p = []"
| "str_contains (c # s) p \<longleftrightarrow> take (length p) (c # s) = p \<or> str_contains s p"

definition default_producer :: "(string \<Rightarrow> string) \<Rightarrow> string \<Rightarrow> ProducerConfig" where
  "default_producer getenv command =
     \<lparr>pc_RedisAddr = RedisAddress getenv '''',
      pc_Queue = (if str_contains command ''image'' then ''image''
        else if str_contains command ''c2pa'' then ''c2pa'' else ''default''),
      pc_Input = ''input.jpg'', pc_EnqueueDelay = 0, pc_Duration = 300 * millisecond, pc_Timeout = 0, pc_MaxRetry = 3,
      pc_Fail = False, pc_Invalid = False\<rparr>"

definition producer_flags :: "(string \<times> ProducerConfig flag_var) list" where
  "producer_flags =
     [(''redis-addr'', StringVar (\<lambda>v c. c\<lparr>pc_RedisAddr := v\<rparr>)),
      (''queue'', StringVar (\<lambda>v c. c\<lparr>pc_Queue := v\<rparr>)),
      (''input'', StringVar (\<lambda>v c. c\<lparr>pc_Input := v\<rparr>)),
      (''delay'', DurationVar (\<lambda>v c. c\<lparr>pc_EnqueueDelay := v\<rparr>)),
      (''duration'', DurationVar (\<lambda>v c. c\<lparr>pc_Duration := v\<rparr>)),
      (''timeout'', DurationVar (\<lambda>v c. c\<lparr>pc_Timeout := v\<rparr>)),
      (''max-retry'', IntVar (\<lambda>v c. c\<lparr>pc_MaxRetry := v\<rparr>)),
      (''fail'', BoolVar (\<lambda>v c. c\<lparr>pc_Fail := v\<rparr>)),
      (''invalid'', BoolVar (\<lambda>v c. c\<lparr>pc_Invalid := v\<rparr>))]"

definition plain_error :: "string \<Rightarrow> run_error" where
  "plain_error s = EngineError (Errorf s [])"

definition ParseProducerConfig ::
  "(string \<Rightarrow> string) \<Rightarrow> string \<Rightarrow> string list \<Rightarrow> run_error + ProducerConfig" where
  "ParseProducerConfig getenv command args =
     (case flag_Parse producer_flags args (default_producer getenv command) of
        Inl e \<Rightarrow> Inl (FlagError e)
      | Inr config \<Rightarrow>
          if pc_Queue config = '''' then Inl (plain_error ''queue cannot be empty'')
          else if pc_Input config = '''' then Inl (plain_error ''input cannot be empty'')
          else if pc_EnqueueDelay config < 0
            then Inl (plain_error (''delay cannot be negative: '' @ Duration_String (pc_EnqueueDelay config)))
          else if pc_Duration config < 0
            then Inl (plain_error (''duration cannot be negative: '' @ Duration_String (pc_Duration config)))
          else if pc_Timeout config < 0
            then Inl (plain_error (''timeout cannot be negative: '' @ Duration_String (pc_Timeout config)))
          else if pc_MaxRetry config < 0
            then Inl (plain_error (''max-retry cannot be negative: '' @ dec_int (pc_MaxRetry config)))
          else Inr config)"


section \<open>Workers\<close>

record WorkerConfig =
  wc_RedisAddr :: string
  wc_RunFor :: duration

definition worker_flags :: "(string \<times> WorkerConfig flag_var) list" where
  "worker_flags =
     [(''redis-addr'', StringVar (\<lambda>v c. c\<lparr>wc_RedisAddr := v\<rparr>)),
      (''run-for'', DurationVar (\<lambda>v c. c\<lparr>wc_RunFor := v\<rparr>))]"

definition ParseWorkerConfig :: "(string \<Rightarrow> string) \<Rightarrow> string list \<Rightarrow> run_error + WorkerConfig" where
  "ParseWorkerConfig getenv args =
     (case flag_Parse worker_flags args \<lparr>wc_RedisAddr = RedisAddress getenv '''', wc_RunFor = 0\<rparr> of
        Inl e \<Rightarrow> Inl (FlagError e)
      | Inr config \<Rightarrow>
          if wc_RunFor config < 0
          then Inl (plain_error (''run-for cannot be negative: '' @ Duration_String (wc_RunFor config)))
          else Inr config)"

definition FormatMetrics :: "MetricsSnapshot \<Rightarrow> string" where
  "FormatMetrics snapshot =
     ''metrics processed='' @ dec_int (Processed snapshot) @ '' failed='' @ dec_int (Failed snapshot)
     @ '' retried='' @ dec_int (Retried snapshot) @ '' archived='' @ dec_int (Archived snapshot)
     @ '' total_duration='' @ Duration_String (TotalDuration snapshot)"


section \<open>Lemmas: parsed values\<close>

lemma duration_sum_bounded: "duration_sum d s = Some v \<Longrightarrow> d \<le> 2 ^ 63 \<Longrightarrow> v \<le> 2 ^ 63"
proof (induction s arbitrary: d rule: length_induct)
  case (1 s)
  consider "v = d" | w rest where "duration_term s = Some (w, rest)"
    "(d + w) mod 2 ^ 64 \<le> 2 ^ 63" "duration_sum ((d + w) mod 2 ^ 64) rest = Some v"
    using "1.prems"(1) by (subst (asm) duration_sum.simps) (auto simp only: Let_def not_less split: if_splits option.splits prod.splits)
  thus ?case using "1.IH" "1.prems"(2) duration_term_shorter by cases blast+
qed

lemma ParseDuration_range: "ParseDuration s = Some d \<Longrightarrow> int64_range d"
proof -
  assume a: "ParseDuration s = Some d"
  consider "d = 0" | t v where "duration_sum 0 t = Some v" "d = - int v"
    | t v where "duration_sum 0 t = Some v" "d = int v" "v \<le> 2 ^ 63 - 1"
    using a unfolding ParseDuration_def Let_def by (auto simp only: not_less split: if_splits option.splits)
  thus ?thesis
  proof cases
    case 2
    thus ?thesis using duration_sum_bounded [OF 2(1)] by (simp add: int64_range_def)
  qed (auto simp: int64_range_def)
qed

lemma ParseInt0_range: "ParseInt0 s = Some n \<Longrightarrow> int64_range n"
  unfolding ParseInt0_def Let_def by (auto simp only: option.inject option.distinct split: if_splits option.splits)

end
