(* ===== verification/Simulations.thy ===== *)
theory Simulations
  imports ExampleSupport JsonText Client Lifecycle
begin

text \<open>
  The two examples: \<^verbatim>\<open>examples/image-processing\<close> and \<^verbatim>\<open>examples/c2pa-signing\<close>, each a payload, a handler that waits, a
  producer and a worker program. The clients a program holds open are counted, and its log output is the list of its lines. What
  lies outside is an argument: the environment, the outcome of \<open>Ping\<close>, the store behind an address, clock readings, random bytes,
  the text of a decoding error, and when the handler's context is cancelled.
\<close>

section \<open>Waiting\<close>

text \<open>When a handler arms its timer and looks at its select, when its context is cancelled (if ever), and which of two ready
  cases the select takes.\<close>

record handler_wait =
  armed_at :: gotime
  looked_at :: gotime
  cancelled_at :: "gotime option"
  takes_timer :: bool

text \<open>When a context is done and with which error; a cancellation ends it only before its deadline.\<close>

definition ctx_done :: "ctx \<Rightarrow> gotime option \<Rightarrow> (gotime \<times> gerr) option" where
  "ctx_done ctx cancelled = (case (ctx_Deadline ctx, cancelled) of
     (None, None) \<Rightarrow> None
   | (Some d, None) \<Rightarrow> Some (d, ContextDeadlineExceeded)
   | (None, Some c) \<Rightarrow> Some (c, ContextCanceled)
   | (Some d, Some c) \<Rightarrow> Some (if c < d then (c, ContextCanceled) else (d, ContextDeadlineExceeded)))"

text \<open>The select on a timer of duration \<open>d\<close> and \<open>ctx.Done()\<close>: \<open>None\<close> when the timer is taken. A timer of a negative duration
  fires at once.\<close>

definition timer_or_done :: "handler_wait \<Rightarrow> duration \<Rightarrow> ctx \<Rightarrow> gerr option" where
  "timer_or_done w d ctx = (case ctx_done ctx (cancelled_at w) of
     None \<Rightarrow> None
   | Some (done, e) \<Rightarrow>
       let fires = armed_at w + max 0 d in
       if fires \<le> looked_at w \<and> done \<le> looked_at w \<or> fires = done then (if takes_timer w then None else Some e)
       else if fires < done then None else Some e)"


section \<open>Image processing\<close>

record image_Payload =
  ip_Source :: string
  ip_DurationMS :: int
  ip_Fail :: bool

definition image_fields :: "image_Payload field list" where
  "image_fields =
     [(''source'', string_field (\<lambda>v p. p\<lparr>ip_Source := v\<rparr>)),
      (''duration_ms'', int_field (\<lambda>v p. p\<lparr>ip_DurationMS := v\<rparr>)),
      (''fail'', bool_field (\<lambda>v p. p\<lparr>ip_Fail := v\<rparr>))]"

definition image_literals :: "image_Payload \<Rightarrow> (string \<times> literal) list" where
  "image_literals p = [(''source'', LStr (ip_Source p)), (''duration_ms'', LInt (ip_DurationMS p)), (''fail'', LBool (ip_Fail p))]"

definition image_zero :: image_Payload where
  "image_zero = \<lparr>ip_Source = '''', ip_DurationMS = 0, ip_Fail = False\<rparr>"

definition image_Marshal :: "image_Payload \<Rightarrow> string" where
  "image_Marshal p = marshal_struct (image_literals p)"

definition image_Unmarshal :: "string \<Rightarrow> image_Payload option" where
  "image_Unmarshal = unmarshal_struct image_fields image_zero"

text \<open>The bytes of a payload; a nil slice has none.\<close>

definition payload_bytes :: "TaskMessage \<Rightarrow> string" where
  "payload_bytes msg = (case Payload msg of None \<Rightarrow> [] | Some b \<Rightarrow> b)"

text \<open>\<open>fmt.Errorf("...: %w: %w", err, ErrNonRetryable)\<close> of a decoding error with the text \<open>detail\<close>.\<close>

definition decode_error :: "string \<Rightarrow> string \<Rightarrow> gerr" where
  "decode_error what detail =
     Errorf (what @ '': '' @ detail @ '': '' @ error_text ErrNonRetryable) [ErrorsNew detail, ErrNonRetryable]"

definition image_ProcessTask :: "(string \<Rightarrow> string) \<Rightarrow> handler_wait \<Rightarrow> Handler" where
  "image_ProcessTask detail w ctx msg =
     (case image_Unmarshal (payload_bytes msg) of
        None \<Rightarrow> (Some (decode_error ''decode image payload'' (detail (payload_bytes msg))), msg)
      | Some p \<Rightarrow>
          if ip_Source p = '''' then (Some (wrap_err ''image source is empty'' ErrNonRetryable), msg)
          else if ip_DurationMS p < 0 then (Some (wrap_err ''image duration is negative'' ErrNonRetryable), msg)
          else (case timer_or_done w (wrap64 (ip_DurationMS p * millisecond)) ctx of
            Some e \<Rightarrow> (Some e, msg)
          | None \<Rightarrow> (if ip_Fail p then Some (Errorf ''simulated image processor failure'' []) else None, msg)))"


section \<open>C2PA signing\<close>

record c2pa_Payload =
  cp_Asset :: string
  cp_DurationMS :: int
  cp_Fail :: bool
  cp_Invalid :: bool

definition c2pa_fields :: "c2pa_Payload field list" where
  "c2pa_fields =
     [(''asset'', string_field (\<lambda>v p. p\<lparr>cp_Asset := v\<rparr>)),
      (''duration_ms'', int_field (\<lambda>v p. p\<lparr>cp_DurationMS := v\<rparr>)),
      (''fail'', bool_field (\<lambda>v p. p\<lparr>cp_Fail := v\<rparr>)),
      (''invalid'', bool_field (\<lambda>v p. p\<lparr>cp_Invalid := v\<rparr>))]"

definition c2pa_literals :: "c2pa_Payload \<Rightarrow> (string \<times> literal) list" where
  "c2pa_literals p = [(''asset'', LStr (cp_Asset p)), (''duration_ms'', LInt (cp_DurationMS p)), (''fail'', LBool (cp_Fail p)),
     (''invalid'', LBool (cp_Invalid p))]"

definition c2pa_zero :: c2pa_Payload where
  "c2pa_zero = \<lparr>cp_Asset = '''', cp_DurationMS = 0, cp_Fail = False, cp_Invalid = False\<rparr>"

definition c2pa_Marshal :: "c2pa_Payload \<Rightarrow> string" where
  "c2pa_Marshal p = marshal_struct (c2pa_literals p)"

definition c2pa_Unmarshal :: "string \<Rightarrow> c2pa_Payload option" where
  "c2pa_Unmarshal = unmarshal_struct c2pa_fields c2pa_zero"

definition c2pa_ProcessTask :: "(string \<Rightarrow> string) \<Rightarrow> handler_wait \<Rightarrow> Handler" where
  "c2pa_ProcessTask detail w ctx msg =
     (case c2pa_Unmarshal (payload_bytes msg) of
        None \<Rightarrow> (Some (decode_error ''decode c2pa payload'' (detail (payload_bytes msg))), msg)
      | Some p \<Rightarrow>
          if cp_Asset p = '''' \<or> cp_Invalid p then (Some (wrap_err ''invalid asset for c2pa signing'' ErrNonRetryable), msg)
          else (case timer_or_done w (wrap64 (cp_DurationMS p * millisecond)) ctx of
            Some e \<Rightarrow> (Some e, msg)
          | None \<Rightarrow> (if cp_Fail p then Some (Errorf ''simulated signing service failure'' []) else None, msg)))"


section \<open>Producers\<close>

text \<open>What a program works on: the state of the stores it talks to, its open clients and its log.\<close>

record 'w shell =
  sh_world :: 'w
  sh_clients :: int
  sh_log :: "string list"

definition close_client :: "'w shell \<Rightarrow> 'w shell" where
  "close_client sh = sh\<lparr>sh_clients := sh_clients sh - 1\<rparr>"

definition log_line :: "string \<Rightarrow> 'w shell \<Rightarrow> 'w shell" where
  "log_line l sh = sh\<lparr>sh_log := sh_log sh @ [l]\<rparr>"

definition bool_text :: "bool \<Rightarrow> string" where
  "bool_text b = (if b then ''true'' else ''false'')"

text \<open>The surroundings of a program.\<close>

record 'w surroundings =
  env_Getenv :: "string \<Rightarrow> string"
  env_Ping :: "gotime \<Rightarrow> string \<Rightarrow> gerr option"
  env_store :: "string \<Rightarrow> 'w ClientStore"
  env_connecting :: gotime
  env_now :: gotime
  env_newID :: "gerr + string"

text \<open>The end of a producer: it submits its task, logs what it did and closes its client.\<close>

definition submit_simulation ::
  "'w surroundings \<Rightarrow> ProducerConfig \<Rightarrow> string \<Rightarrow> string \<Rightarrow> string \<Rightarrow> (TaskMessage \<Rightarrow> string) \<Rightarrow> 'w shell
   \<Rightarrow> (run_error + TaskMessage) \<times> 'w shell" where
  "submit_simulation env config rdb ty bytes line sh =
     (case EnqueueIn (Some (NewClient (Some (env_store env rdb)))) None (env_now env) (env_newID env)
         (Some (NewTask ty (Some bytes) [])) (pc_EnqueueDelay config)
         [Some (WithQueue (pc_Queue config)), Some (WithMaxRetry (pc_MaxRetry config)), Some (WithTimeout (pc_Timeout config))]
         (sh_world sh) of
        (Inl e, w) \<Rightarrow> (Inl (EngineError e), close_client (sh\<lparr>sh_world := w\<rparr>))
      | (Inr msg, w) \<Rightarrow> (Inr msg, close_client (log_line (line msg) (sh\<lparr>sh_world := w\<rparr>))))"

definition image_payload :: "ProducerConfig \<Rightarrow> image_Payload" where
  "image_payload config = \<lparr>ip_Source = pc_Input config, ip_DurationMS = quot (pc_Duration config) millisecond,
     ip_Fail = pc_Fail config\<rparr>"

definition image_log :: "ProducerConfig \<Rightarrow> TaskMessage \<Rightarrow> string" where
  "image_log config msg =
     ''Redis connected at '' @ pc_RedisAddr config @ ''; enqueued image simulation task '' @ ID msg @ '' queue='' @ Queue msg
     @ '' delay='' @ Duration_String (pc_EnqueueDelay config) @ '' duration='' @ Duration_String (pc_Duration config)
     @ '' fail='' @ bool_text (pc_Fail config) @ '' max_retry='' @ dec_int (pc_MaxRetry config)
     @ '' timeout='' @ Duration_String (pc_Timeout config)"

definition image_producer_run :: "'w surroundings \<Rightarrow> string list \<Rightarrow> 'w shell \<Rightarrow> (run_error + TaskMessage) \<times> 'w shell" where
  "image_producer_run env args sh =
     (case ParseProducerConfig (env_Getenv env) ''image-producer'' args of
        Inl e \<Rightarrow> (Inl e, sh)
      | Inr config \<Rightarrow>
          (case ConnectRedis (env_Getenv env) (env_Ping env) (env_connecting env) (pc_RedisAddr config) (sh_clients sh) of
             (Inl e, n) \<Rightarrow> (Inl (EngineError e), sh\<lparr>sh_clients := n\<rparr>)
           | (Inr rdb, n) \<Rightarrow>
               submit_simulation env config rdb ''image:process'' (image_Marshal (image_payload config)) (image_log config)
                 (sh\<lparr>sh_clients := n\<rparr>)))"

definition c2pa_payload :: "ProducerConfig \<Rightarrow> c2pa_Payload" where
  "c2pa_payload config = \<lparr>cp_Asset = pc_Input config, cp_DurationMS = quot (pc_Duration config) millisecond,
     cp_Fail = pc_Fail config, cp_Invalid = pc_Invalid config\<rparr>"

definition c2pa_log :: "ProducerConfig \<Rightarrow> TaskMessage \<Rightarrow> string" where
  "c2pa_log config msg =
     ''Redis connected at '' @ pc_RedisAddr config @ ''; enqueued C2PA simulation task '' @ ID msg @ '' queue='' @ Queue msg
     @ '' delay='' @ Duration_String (pc_EnqueueDelay config) @ '' duration='' @ Duration_String (pc_Duration config)
     @ '' fail='' @ bool_text (pc_Fail config) @ '' invalid='' @ bool_text (pc_Invalid config)
     @ '' max_retry='' @ dec_int (pc_MaxRetry config) @ '' timeout='' @ Duration_String (pc_Timeout config)"

definition c2pa_producer_run :: "'w surroundings \<Rightarrow> string list \<Rightarrow> 'w shell \<Rightarrow> (run_error + TaskMessage) \<times> 'w shell" where
  "c2pa_producer_run env args sh =
     (case ParseProducerConfig (env_Getenv env) ''c2pa-producer'' args of
        Inl e \<Rightarrow> (Inl e, sh)
      | Inr config \<Rightarrow>
          (case ConnectRedis (env_Getenv env) (env_Ping env) (env_connecting env) (pc_RedisAddr config) (sh_clients sh) of
             (Inl e, n) \<Rightarrow> (Inl (EngineError e), sh\<lparr>sh_clients := n\<rparr>)
           | (Inr rdb, n) \<Rightarrow>
               submit_simulation env config rdb ''c2pa:sign'' (c2pa_Marshal (c2pa_payload config)) (c2pa_log config)
                 (sh\<lparr>sh_clients := n\<rparr>)))"


section \<open>Workers\<close>

text \<open>The configuration literal of a worker: the fields it leaves out are zero.\<close>

definition worker_config :: "string \<Rightarrow> 'w Config" where
  "worker_config queue =
     \<lparr>Concurrency = 0, Queues = [(queue, 1)], LeaseDuration = 0, PollInterval = 0, ShutdownTimeout = 0, RetryBaseDelay = 0,
      RetryMaxDelay = 0, RetryJitter = Fin 0, HeartbeatInterval = 0, RecoveryInterval = 0, TokenBucket = None,
      TokenAmount = Fin 0, HasErrorHandler = True\<rparr>"

text \<open>A worker program up to its call of \<open>RunSignals\<close>: the server the call is made on, when the context of the call is done, and the
  log line before it. From there on the server takes the steps of its lifecycle.\<close>

record 'w worker_running =
  rn_server :: "'w Server"
  rn_until :: "gotime option"
  rn_connected :: string

text \<open>The surroundings of a worker program; what its handler waits for is known by the call.\<close>

record 'w worker_surroundings =
  we_Getenv :: "string \<Rightarrow> string"
  we_Ping :: "gotime \<Rightarrow> string \<Rightarrow> gerr option"
  we_store :: "string \<Rightarrow> 'w TaskStore"
  we_detail :: "string \<Rightarrow> string"
  we_waits :: "ctx \<Rightarrow> TaskMessage \<Rightarrow> handler_wait"
  we_connecting :: gotime
  we_now :: gotime

definition image_worker_run ::
  "'w worker_surroundings \<Rightarrow> string list \<Rightarrow> 'w \<Rightarrow> int \<Rightarrow> (run_error + 'w worker_running) \<times> int" where
  "image_worker_run env args w clients =
     (case ParseWorkerConfig (we_Getenv env) args of
        Inl e \<Rightarrow> (Inl e, clients)
      | Inr config \<Rightarrow>
          (case ConnectRedis (we_Getenv env) (we_Ping env) (we_connecting env) (wc_RedisAddr config) clients of
             (Inl e, n) \<Rightarrow> (Inl (EngineError e), n)
           | (Inr rdb, n) \<Rightarrow>
               (Inr \<lparr>rn_server = (New (Some (we_store env rdb))
                       (Some (\<lambda>ctx msg. image_ProcessTask (we_detail env) (we_waits env ctx msg) ctx msg))
                       (worker_config ''image'') w (Some NewMetrics) (we_now env))\<lparr>sv_calls := [CallRun]\<rparr>,
                  rn_until = (if wc_RunFor config > 0 then Some (we_now env + wc_RunFor config) else None),
                  rn_connected = ''Redis connected at '' @ wc_RedisAddr config
                    @ ''; starting image simulation worker (Ctrl+C to stop)''\<rparr>, n)))"

definition c2pa_worker_run ::
  "'w worker_surroundings \<Rightarrow> string list \<Rightarrow> 'w \<Rightarrow> int \<Rightarrow> (run_error + 'w worker_running) \<times> int" where
  "c2pa_worker_run env args w clients =
     (case ParseWorkerConfig (we_Getenv env) args of
        Inl e \<Rightarrow> (Inl e, clients)
      | Inr config \<Rightarrow>
          (case ConnectRedis (we_Getenv env) (we_Ping env) (we_connecting env) (wc_RedisAddr config) clients of
             (Inl e, n) \<Rightarrow> (Inl (EngineError e), n)
           | (Inr rdb, n) \<Rightarrow>
               (Inr \<lparr>rn_server = (New (Some (we_store env rdb))
                       (Some (\<lambda>ctx msg. c2pa_ProcessTask (we_detail env) (we_waits env ctx msg) ctx msg))
                       (worker_config ''c2pa'') w (Some NewMetrics) (we_now env))\<lparr>sv_calls := [CallRun]\<rparr>,
                  rn_until = (if wc_RunFor config > 0 then Some (we_now env + wc_RunFor config) else None),
                  rn_connected = ''Redis connected at '' @ wc_RedisAddr config
                    @ ''; starting C2PA simulation worker (Ctrl+C to stop)''\<rparr>, n)))"

text \<open>The rest of a worker program once \<open>RunSignals\<close> has returned: its result and the last log line. The client is closed.\<close>

definition run_result :: "'w Server \<Rightarrow> gerr option option" where
  "run_result s = (case sv_calls s of
     Returned e # _ \<Rightarrow> Some e | StartReturned e # _ \<Rightarrow> Some e | NotStarted # _ \<Rightarrow> Some None | _ \<Rightarrow> None)"

definition worker_end :: "string \<Rightarrow> 'w Server \<Rightarrow> int \<Rightarrow> ((gerr option \<times> string) \<times> int) option" where
  "worker_end what s clients = (case run_result s of
     None \<Rightarrow> None
   | Some e \<Rightarrow> Some ((e, what @ '' worker '' @ FormatMetrics (Snapshot (metrics (sv_loops s)))), clients - 1))"

end
