(* ===== verification/JsonRoundtrip.thy ===== *)
theory JsonRoundtrip
  imports JsonText
begin

text \<open>
  What \<open>json.Marshal\<close> writes, \<open>json.Unmarshal\<close> reads back: for string literals (each byte that is no UTF-8 comes back as
  the replacement rune, everything else as it was), for decimal numbers and for flat objects.
\<close>

section \<open>Runes\<close>

lemma rune_len_single: "rune_len [c] = (if byte c < 0x80 then 1 else 0)"
  by simp

text \<open>The pieces a string is cut into: a stray byte, an ASCII character, or a longer sequence that is recognised whatever
  follows it.\<close>

lemma rune_len_cases:
  assumes "1 < rune_len s"
  obtains (two) a b u where "s = a # b # u" "0xC2 \<le> byte a" "byte a \<le> 0xDF" "second_byte a b"
    | (three) a b c u where "s = a # b # c # u" "0xE0 \<le> byte a" "byte a \<le> 0xEF" "second_byte a b" "cont c"
    | (four) a b c d u where "s = a # b # c # d # u" "0xF0 \<le> byte a" "byte a \<le> 0xF4" "second_byte a b" "cont c" "cont d"
  using assms by (cases s) (auto split: list.splits if_splits)

lemma rune_len_prefix:
  assumes "1 < rune_len s"
  shows "rune_len s \<le> length s" "list_all (\<lambda>c. 0x80 \<le> byte c) (take (rune_len s) s)"
    "rune_len (take (rune_len s) s @ t) = rune_len s"
  using assms by (cases rule: rune_len_cases; auto simp: second_byte_def cont_def)+

lemma rune_piece_cases:
  assumes "s \<noteq> []" "p = take (rune_step s) s"
  obtains (stray) c where "p = [c]" "0x80 \<le> byte c"
    | (ascii) c where "p = [c]" "byte c < 0x80"
    | (long) "2 \<le> length p" "list_all (\<lambda>c. 0x80 \<le> byte c) p" "\<And>t. rune_len (p @ t) = length p"
proof -
  obtain c u where s: "s = c # u" using assms(1) by (cases s) auto
  consider "rune_len s = 0" | "rune_len s = 1" | "1 < rune_len s" by linarith
  thus thesis
  proof cases
    case 1
    hence "\<not> byte c < 0x80" by (auto simp: s)
    thus thesis using stray 1 by (simp add: assms(2) rune_step_def s)
  next
    case 2
    have "byte c < 0x80" using 2 by (auto simp: s split: list.splits if_splits)
    thus thesis using ascii 2 by (simp add: assms(2) rune_step_def s)
  next
    case 3
    hence "rune_step s = rune_len s" by (simp add: rune_step_def)
    thus thesis using long rune_len_prefix [OF 3] 3 by (simp add: assms(2))
  qed
qed

lemma rune_step_long: "rune_len (p @ t) = length p \<Longrightarrow> 2 \<le> length p \<Longrightarrow> rune_step (p @ t) = length p"
  by (cases p) (auto simp: rune_step_def)

lemma to_valid_utf8: "utf8 s \<Longrightarrow> to_valid s = s"
proof (induction s rule: runes.induct)
  case (2 c s)
  let ?n = "rune_step (c # s)"
  have "rune_len (take ?n (c # s)) \<noteq> 0" and rest: "utf8 (drop ?n (c # s))"
    using "2.prems" by (simp_all add: utf8_def del: rune_len.simps)
  hence "to_valid (c # s) = take ?n (c # s) @ to_valid (drop ?n (c # s))"
    by (simp add: to_valid_def to_valid_rune_def del: rune_len.simps)
  also have "\<dots> = c # s" using "2.IH" [OF rest] by simp
  finally show ?case .
qed (simp add: to_valid_def)

text \<open>ASCII text is its own list of runes.\<close>

lemma utf8_ascii: "list_all (\<lambda>c. byte c < 0x80) s \<Longrightarrow> utf8 s"
  by (induction s) (auto simp: utf8_def rune_step_def)


section \<open>String literals\<close>

lemma string_body_plain:
  "list_all (\<lambda>c. 0x20 \<le> byte c \<and> c \<noteq> CHR 0x22 \<and> c \<noteq> CHR 0x5C) p \<Longrightarrow> string_body (p @ t) = before p (string_body t)"
proof (induction p)
  case Nil
  show ?case by (cases "string_body t") (auto simp: before_def)
next
  case (Cons c p)
  hence IH: "string_body (p @ t) = before p (string_body t)" by simp
  have "string_body ((c # p) @ t) = before [c] (string_body (p @ t))"
    using Cons.prems by (simp add: string_body.simps(2))
  thus ?case unfolding IH by (cases "string_body t") (auto simp: before_def)
qed

lemma high_is_plain:
  "list_all (\<lambda>c. 0x80 \<le> byte c) p \<Longrightarrow> list_all (\<lambda>c. 0x20 \<le> byte c \<and> c \<noteq> CHR 0x22 \<and> c \<noteq> CHR 0x5C) p"
  by (induction p) auto

lemma hex_value_digit: "d < 16 \<Longrightarrow> hex_value (hex_digit d) = Some d"
  by (auto simp: hex_value_def hex_digit_def digit_char_def)

lemma string_body_escape: "e \<in> set escapes \<Longrightarrow> string_body (CHR 0x5C # e # t) = before [CHR 0x5C, e] (string_body t)"
  by (simp add: string_body.simps(2))

lemma string_body_u:
  "list_all (\<lambda>h. hex_value h \<noteq> None) [a, b, c, d] \<Longrightarrow>
   string_body (CHR 0x5C # CHR ''u'' # a # b # c # d # t) = before [CHR 0x5C, CHR ''u'', a, b, c, d] (string_body t)"
  by (simp add: string_body.simps(2))

lemma string_body_quote_ascii: "string_body (quote_ascii c @ t) = before (quote_ascii c) (string_body t)"
proof -
  have hex: "hex_value (hex_digit (byte c div 16)) \<noteq> None" "hex_value (hex_digit (byte c mod 16)) \<noteq> None"
    using nat_of_char_less_256 [of c] by (simp_all add: hex_value_digit less_mult_imp_div_less)
  have zero: "hex_value (CHR ''0'') = Some 0" by (simp add: hex_value_def)
  show ?thesis
    unfolding quote_ascii_def
    using hex string_body_plain [of "[c]" t]
    by (simp add: string_body_escape string_body_u zero)
qed

lemma string_body_quote_rune:
  assumes "s \<noteq> []" "p = take (rune_step s) s"
  shows "string_body (quote_rune p @ t) = before (quote_rune p) (string_body t)"
proof (use assms in \<open>cases rule: rune_piece_cases\<close>)
  case (stray c)
  thus ?thesis by (simp add: quote_rune_def string_body_u hex_value_def)
next
  case (ascii c)
  thus ?thesis by (simp add: quote_rune_def string_body_quote_ascii)
next
  case long
  have "rune_len p \<noteq> 0" "\<not> byte (hd p) < 0x80" using long(1,2) long(3) [of "[]"] by (cases p; simp)+
  thus ?thesis
    using string_body_plain [OF high_is_plain [OF long(2)]]
    by (simp add: quote_rune_def string_body_u hex_value_def)
qed

lemma string_body_quote: "string_body (concat (map quote_rune (runes s)) @ CHR 0x22 # t) = Some (concat (map quote_rune (runes s)), t)"
proof (induction s rule: runes.induct)
  case 1
  show ?case by (simp add: string_body.simps(2))
next
  case (2 c s)
  let ?p = "take (rune_step (c # s)) (c # s)"
  show ?case
    using string_body_quote_rune [of "c # s" ?p "concat (map quote_rune (runes (drop (rune_step (c # s)) (c # s)))) @ CHR 0x22 # t"] 2
    by (simp add: before_def)
qed

declare unquote.simps(2) [simp del]

lemma unquote_escape: "e \<noteq> CHR ''u'' \<Longrightarrow> unquote (CHR 0x5C # e # t) = escaped e # unquote t"
  by (simp add: unquote.simps(2))

lemma unquote_u:
  assumes "hex4 [a, b, c, d] = Some r" "\<not> surrogate r"
  shows "unquote (CHR 0x5C # CHR ''u'' # a # b # c # d # t) = encode_rune r @ unquote t"
proof -
  have "hex4 (a # b # c # d # t) = Some r" using assms(1) by (simp add: hex4_def)
  hence "unescape_u (CHR 0x5C # CHR ''u'' # a # b # c # d # t) = (encode_rune r, 6)"
    using assms(2) by (simp add: unescape_u_def getu4_def)
  thus ?thesis by (simp add: unquote.simps(2))
qed

lemma unquote_plain:
  "byte c < 0x80 \<Longrightarrow> c \<noteq> CHR 0x5C \<Longrightarrow> unquote (c # t) = c # unquote t"
  by (simp add: unquote.simps(2) rune_step_def to_valid_rune_def)

lemma hex4_byte: "n < 256 \<Longrightarrow> hex4 [CHR ''0'', CHR ''0'', hex_digit (n div 16), hex_digit (n mod 16)] = Some n"
  by (simp add: hex4_def hex_value_digit less_mult_imp_div_less hex_value_def [of "CHR ''0''"])

lemma unquote_quote_ascii: "byte c < 0x80 \<Longrightarrow> unquote (quote_ascii c @ t) = c # unquote t"
proof -
  assume c: "byte c < 0x80"
  have hex: "unquote (CHR 0x5C # CHR ''u'' # CHR ''0'' # CHR ''0'' # hex_digit (byte c div 16) # hex_digit (byte c mod 16) # t)
    = c # unquote t"
    using c by (subst unquote_u [OF hex4_byte]) (simp_all add: surrogate_def encode_rune_def)
  have eqs: "byte c = 8 \<Longrightarrow> CHR 8 = c" "byte c = 12 \<Longrightarrow> CHR 12 = c" "byte c = 10 \<Longrightarrow> CHR 10 = c"
    "byte c = 13 \<Longrightarrow> CHR 13 = c" "byte c = 9 \<Longrightarrow> CHR 9 = c"
    by (simp_all flip: of_char_eq_iff [where 'a = nat])
  show ?thesis
    unfolding quote_ascii_def using c hex eqs
    by (auto simp: unquote_escape escaped_def unquote_plain)
qed

lemma unquote_quote_rune:
  assumes "s \<noteq> []" "p = take (rune_step s) s"
  shows "unquote (quote_rune p @ t) = to_valid_rune p @ unquote t"
proof (use assms in \<open>cases rule: rune_piece_cases\<close>)
  case (stray c)
  have "hex4 ''fffd'' = Some 0xFFFD" by (simp add: hex4_def hex_value_def)
  hence "unquote (CHR 0x5C # ''ufffd'' @ t) = replacement @ unquote t"
    using unquote_u [of "CHR ''f''" "CHR ''f''" "CHR ''f''" "CHR ''d''" "0xFFFD" t]
    by (simp add: surrogate_def encode_rune_def replacement_def char_of_eq_iff take_bit_eq_mod)
  thus ?thesis using stray by (simp add: quote_rune_def to_valid_rune_def)
next
  case (ascii c)
  thus ?thesis by (simp add: quote_rune_def to_valid_rune_def unquote_quote_ascii)
next
  case long
  have len: "rune_len p \<noteq> 0" "\<not> byte (hd p) < 0x80" using long(1,2) long(3) [of "[]"] by (cases p; simp)+
  have plain: "unquote (p @ t) = p @ unquote t"
  proof -
    obtain c q where p: "p = c # q" using long(1) by (cases p) auto
    have "c \<noteq> CHR 0x5C" using len(2) by (auto simp: p)
    thus ?thesis
      using rune_step_long [OF long(3) long(1), of t] len(1)
      by (simp add: p unquote.simps(2) to_valid_rune_def)
  qed
  have "hex4 ''2028'' = Some 0x2028" "hex4 ''2029'' = Some 0x2029" by (simp_all add: hex4_def hex_value_def)
  hence "unquote (CHR 0x5C # ''u2028'' @ t) = [CHR 0xE2, CHR 0x80, CHR 0xA8] @ unquote t"
    "unquote (CHR 0x5C # ''u2029'' @ t) = [CHR 0xE2, CHR 0x80, CHR 0xA9] @ unquote t"
    using unquote_u [of "CHR ''2''" "CHR ''0''" "CHR ''2''" "CHR ''8''" "0x2028" t]
      unquote_u [of "CHR ''2''" "CHR ''0''" "CHR ''2''" "CHR ''9''" "0x2029" t]
    by (simp_all add: surrogate_def encode_rune_def char_of_eq_iff take_bit_eq_mod)
  thus ?thesis using plain len unfolding quote_rune_def to_valid_rune_def by (simp del: rune_len.simps)
qed

lemma unquote_quote: "unquote (concat (map quote_rune (runes s))) = to_valid s"
proof (induction s rule: runes.induct)
  case (2 c s)
  let ?p = "take (rune_step (c # s)) (c # s)"
  show ?case
    using unquote_quote_rune [of "c # s" ?p "concat (map quote_rune (runes (drop (rune_step (c # s)) (c # s))))"] 2
    by (simp add: to_valid_def)
qed (simp add: to_valid_def)


section \<open>Tokens\<close>

lemma lex_quote: "lex (quote s @ t) = map_option (Cons (TStr (to_valid s))) (lex t)"
  using string_body_quote [of s t] unquote_quote [of s]
  by (simp add: quote_def next_token_def punctuation_def)

lemma lex_punctuation: "punctuation c = Some p \<Longrightarrow> lex (c # t) = map_option (Cons p) (lex t)"
  by (auto simp: next_token_def punctuation_def split: if_splits)

lemma is_digit_char: "d < 10 \<Longrightarrow> is_digit (digit_char d)"
  by (simp add: is_digit_def of_char_digit)

lemma digit_char_0: "digit_char 0 = CHR ''0''"
  by (simp add: digit_char_def char_of_eq_iff take_bit_eq_mod)

lemma dec_nat_digits: "list_all is_digit (dec_nat n)"
  by (induction n rule: dec_nat.induct) (subst dec_nat.simps, simp add: is_digit_char)

lemma dec_nat_nonempty [simp]: "dec_nat n \<noteq> []"
  by (subst dec_nat.simps) simp

lemma dec_nat_first: "0 < n \<Longrightarrow> hd (dec_nat n) \<noteq> CHR ''0''"
proof (induction n rule: dec_nat.induct)
  case (1 n)
  show ?case
  proof (cases "n < 10")
    case True
    have "of_char (hd (dec_nat n)) = 48 + n" by (subst dec_nat.simps) (simp add: True of_char_digit)
    thus ?thesis using 1 by auto
  next
    case False
    hence "hd (dec_nat n) = hd (dec_nat (n div 10))" by (subst dec_nat.simps) simp
    thus ?thesis using 1 False by simp
  qed
qed

lemma dec_value_append: "dec_value n (xs @ [c]) = 10 * dec_value n xs + (byte c - 48)"
  by (induction n xs rule: dec_value.induct) simp_all

lemma dec_value_dec_nat: "dec_value 0 (dec_nat n) = n"
proof (induction n rule: dec_nat.induct)
  case (1 n)
  show ?case
    using 1 by (subst dec_nat.simps) (simp add: dec_value_append of_char_digit)
qed

lemma ParseInt10_dec_int: "int64_range n \<Longrightarrow> ParseInt10 (dec_int n) = Some n"
proof -
  assume n: "int64_range n"
  have "is_digit (hd (dec_nat (nat n)))" using dec_nat_digits [of "nat n"] by (cases "dec_nat (nat n)") auto
  hence "hd (dec_nat (nat n)) \<noteq> CHR ''-''" "hd (dec_nat (nat n)) \<noteq> CHR ''+''" by (auto simp: is_digit_def)
  thus ?thesis using n by (simp add: ParseInt10_def dec_int_def Let_def dec_nat_digits dec_value_dec_nat)
qed

text \<open>A number ends where no character that could continue it follows.\<close>

definition ends_number :: "string \<Rightarrow> bool" where
  "ends_number t \<longleftrightarrow> t = [] \<or> \<not> is_digit (hd t) \<and> hd t \<notin> {CHR ''.'', CHR ''e'', CHR ''E''}"

lemma fraction_part_ends: "ends_number t \<Longrightarrow> fraction_part p t = Some (p, t)"
  by (cases t) (auto simp: ends_number_def fraction_part_def exponent_part_def)

lemma number_text_dec_nat:
  assumes "ends_number t" "sg = [] \<or> sg = ''-''"
  shows "number_text (sg @ dec_nat n @ t) = Some (sg @ dec_nat n, t)"
proof -
  obtain c u where d: "dec_nat n = c # u" by (cases "dec_nat n") auto
  have dig: "is_digit c" "list_all is_digit u" using dec_nat_digits [of n] by (simp_all add: d)
  hence c: "c \<noteq> CHR ''-''" by (auto simp: is_digit_def)
  have zero: "n = 0 \<Longrightarrow> c = CHR ''0'' \<and> u = []" using d by (subst (asm) dec_nat.simps) (auto simp: digit_char_0)
  have nonzero: "n \<noteq> 0 \<Longrightarrow> c \<noteq> CHR ''0''" using dec_nat_first [of n] by (simp add: d)
  have t: "takeWhile is_digit (u @ t) = u" "dropWhile is_digit (u @ t) = t"
    using dig(2) assms(1) by (cases t; auto simp: ends_number_def takeWhile_append dropWhile_append list_all_iff)+
  have "takeWhile (\<lambda>c. c = CHR ''-'') (take 1 (sg @ dec_nat n @ t)) = sg" using assms(2) c by (auto simp: d)
  moreover have "c = CHR ''0'' \<Longrightarrow> u = []" using zero nonzero by auto
  ultimately show ?thesis
    using dig(1) t fraction_part_ends [OF assms(1)]
    unfolding d by (cases "c = CHR ''0''") (auto simp: number_text_def Let_def)
qed

lemma lex_dec_int: "ends_number t \<Longrightarrow> lex (dec_int n @ t) = map_option (Cons (TNum (dec_int n))) (lex t)"
proof -
  assume t: "ends_number t"
  have num: "number_text (dec_int n @ t) = Some (dec_int n, t)"
    using number_text_dec_nat [OF t, of "[]"] number_text_dec_nat [OF t, of "''-''"] by (simp add: dec_int_def)
  obtain c u where d: "dec_int n @ t = c # u" by (cases "dec_int n @ t") (auto simp: dec_int_def split: if_splits)
  have c: "c = CHR ''-'' \<or> is_digit c"
    using d dec_nat_digits [of "nat n"] by (cases "dec_nat (nat n)") (auto simp: dec_int_def split: if_splits)
  have "punctuation c = None" "c \<notin> set white" "c \<noteq> CHR 0x22" using c by (auto simp: punctuation_def is_digit_def)
  thus ?thesis using c num by (simp add: d next_token_def)
qed


section \<open>Objects\<close>

fun literal_token :: "literal \<Rightarrow> token" where
  "literal_token (LStr s) = TStr (to_valid s)"
| "literal_token (LInt n) = TNum (dec_int n)"
| "literal_token (LBool b) = (if b then TTrue else TFalse)"

fun literal_value :: "literal \<Rightarrow> jvalue" where
  "literal_value (LStr s) = VStr (to_valid s)"
| "literal_value (LInt n) = VNum (dec_int n)"
| "literal_value (LBool b) = VBool b"

lemma begin_literal: "begin_value st (literal_token l) = Some (end_value (literal_value l) st)"
  by (cases l) simp_all

lemma lex_literal:
  assumes "c = CHR '','' \<or> c = CHR ''}''"
  shows "lex (literal_text l @ c # t) = map_option (Cons (literal_token l)) (lex (c # t))"
proof (cases l)
  case (LInt n)
  have "ends_number (c # t)" using assms by (auto simp: ends_number_def is_digit_def)
  thus ?thesis using LInt by (simp add: lex_dec_int del: lex.simps)
next
  case (LBool b)
  thus ?thesis by (cases b) (simp_all add: next_token_def punctuation_def is_digit_def)
qed (simp add: lex_quote del: lex.simps)

lemmas lex_marks =
  lex_punctuation [of "CHR ''{''" TObj] lex_punctuation [of "CHR ''}''" TObjEnd]
  lex_punctuation [of "CHR '':''" TColon] lex_punctuation [of "CHR '',''" TComma]

fun member_tokens :: "(string \<times> literal) list \<Rightarrow> token list" where
  "member_tokens [] = []"
| "member_tokens ((k, l) # kvs) =
     TStr (to_valid k) # TColon # literal_token l # (if kvs = [] then [] else TComma # member_tokens kvs)"

lemma lex_members:
  "lex (member_texts kvs @ CHR ''}'' # t) = map_option (\<lambda>ts. member_tokens kvs @ TObjEnd # ts) (lex t)"
proof (induction kvs rule: member_texts.induct)
  case (2 k l kvs)
  show ?case
    by (cases kvs; cases "lex t")
      (use "2.IH" in \<open>simp_all add: lex_quote lex_literal lex_marks punctuation_def del: lex.simps(2)\<close>)
qed (simp_all add: lex_marks punctuation_def del: lex.simps(2))

definition parsed :: "string \<times> literal \<Rightarrow> string \<times> jvalue" where
  "parsed kl = (to_valid (fst kl), literal_value (snd kl))"

lemma run_members:
  "kvs \<noteq> [] \<Longrightarrow> p \<in> {BeginString done []} \<union> (if done = [] then {BeginStringOrEmpty []} else {}) \<Longrightarrow>
   json_run p (member_tokens kvs @ [TObjEnd]) = Some (VObj (done @ map parsed kvs))"
proof (induction kvs arbitrary: p "done" rule: member_tokens.induct)
  case (2 k l kvs)
  show ?case
  proof (cases "kvs = []")
    case True
    thus ?thesis using "2.prems" by (auto simp: begin_literal parsed_def split: if_splits)
  next
    case False
    thus ?thesis using "2.prems" "2.IH" [of "BeginString (done @ [parsed (k, l)]) []" "done @ [parsed (k, l)]"]
      by (auto simp: begin_literal parsed_def split: if_splits)
  qed
qed simp

text \<open>Every object \<open>json.Marshal\<close> writes is read back, member by member.\<close>

lemma json_parse_marshal: "json_parse (marshal_struct kvs) = Some (VObj (map parsed kvs))"
proof -
  have "lex (marshal_struct kvs) = Some (TObj # member_tokens kvs @ [TObjEnd])"
    using lex_members [of kvs "[]"] by (simp add: marshal_struct_def lex_marks punctuation_def del: lex.simps(2))
  moreover have "json_run (BeginStringOrEmpty []) (member_tokens kvs @ [TObjEnd]) = Some (VObj (map parsed kvs))"
    using run_members [of kvs "BeginStringOrEmpty []" "[]"] by (cases "kvs = []") simp_all
  ultimately show ?thesis by (simp add: json_parse_def maxNestingDepth_def)
qed

end
