(* ===== verification/SimulationContract.thy ===== *)
theory SimulationContract
  imports Simulations JsonRoundtrip ServerProperties ClientProperties
begin

text \<open>
  What the two simulations have in common, as a contract between the producer that writes a payload and the handler that
  reads it: \<open>simulation\<close> says how the handler answers a payload its producer has encoded, and, inside it, how a job with such a payload
  ends on the Redis store. Both handlers implement it. Then what a producer program leaves in the store.
\<close>

section \<open>The contract\<close>

text \<open>The answer of a simulation: refused for good, interrupted by its context, failed in a way that may be tried again, or done.\<close>

definition answers :: "bool \<Rightarrow> gerr option \<Rightarrow> bool \<Rightarrow> gerr option \<Rightarrow> bool" where
  "answers refused interrupted fails err \<longleftrightarrow>
     (if refused then (\<exists>e. err = Some e \<and> errors_Is e ErrNonRetryable)
      else if interrupted \<noteq> None then err = interrupted
      else if fails then (\<exists>e. err = Some e \<and> \<not> errors_Is e ErrNonRetryable)
      else err = None)"

locale simulation =
  fixes handler :: "(string \<Rightarrow> string) \<Rightarrow> handler_wait \<Rightarrow> Handler"
    and encode :: "'p \<Rightarrow> string" and fits :: "'p \<Rightarrow> bool"
    and refused :: "'p \<Rightarrow> bool" and delay :: "'p \<Rightarrow> duration" and fails :: "'p \<Rightarrow> bool"
  assumes keeps_message: "snd (handler detail w ctx msg) = msg"
    and refuses: "fits p \<Longrightarrow> payload_bytes msg = encode p \<Longrightarrow> refused p \<Longrightarrow>
      \<exists>e. fst (handler detail w ctx msg) = Some e \<and> errors_Is e ErrNonRetryable"
    and is_interrupted: "fits p \<Longrightarrow> payload_bytes msg = encode p \<Longrightarrow> \<not> refused p \<Longrightarrow>
      timer_or_done w (delay p) ctx = Some e \<Longrightarrow> fst (handler detail w ctx msg) = Some e"
    and may_fail: "fits p \<Longrightarrow> payload_bytes msg = encode p \<Longrightarrow> \<not> refused p \<Longrightarrow>
      timer_or_done w (delay p) ctx = None \<Longrightarrow> fails p \<Longrightarrow>
      \<exists>e. fst (handler detail w ctx msg) = Some e \<and> \<not> errors_Is e ErrNonRetryable"
    and finishes: "fits p \<Longrightarrow> payload_bytes msg = encode p \<Longrightarrow> \<not> refused p \<Longrightarrow>
      timer_or_done w (delay p) ctx = None \<Longrightarrow> \<not> fails p \<Longrightarrow> fst (handler detail w ctx msg) = None"
begin

lemma answer:
  assumes "fits p" "payload_bytes msg = encode p"
  shows "\<exists>err. handler detail w ctx msg = (err, msg) \<and> answers (refused p) (timer_or_done w (delay p) ctx) (fails p) err"
proof -
  obtain err where h: "handler detail w ctx msg = (err, msg)"
    using keeps_message by (metis surjective_pairing)
  note laws = refuses [OF assms, of detail w ctx] is_interrupted [OF assms, of w ctx _ detail]
    may_fail [OF assms, of w ctx detail] finishes [OF assms, of w ctx detail]
  show ?thesis
    using laws unfolding h answers_def by (cases "timer_or_done w (delay p) ctx") auto
qed

text \<open>A job of such a task, by a worker that owns the attempt.\<close>

lemma job_answer:
  assumes "redis_server call view" "store_ok (view (w_db (world s)))" "calm (world s)"
    and "fits p" "payload_bytes msg = encode p" "owns (durable view (world s)) msg"
    and "queue_name_ok (Queue msg)" "Marshal msg \<noteq> None"
  shows "\<exists>err now. answers (refused p) (timer_or_done w (delay p) (handler_context hctx (at_timeout t) msg)) (fails p) err
    \<and> durable view (world (process (redis_task_store call st) c (handler detail w) hctx t msg s))
      = put (outcome err now msg) (durable view (world s))"
proof -
  obtain err where h: "handler detail w (handler_context hctx (at_timeout t) msg) msg = (err, msg)"
    and a: "answers (refused p) (timer_or_done w (delay p) (handler_context hctx (at_timeout t) msg)) (fails p) err"
    using answer [OF assms(4,5)] by blast
  note rs = redis_server.redis_reliable_contract [OF assms(1), of st "\<lambda>_ _. True"]
  have f: "fair view (\<lambda>_ _. True) (world s)" by (rule calm_fair) fact+
  note p = reliable_store.process_sure [OF rs, where handler = "handler detail w" and hctx = hctx and t = t and msg = msg,
      OF f assms(3) h assms(7,8), of c]
  from p(1) assms(6) obtain now where
    "durable view (world (process (redis_task_store call st) c (handler detail w) hctx t msg s))
      = put (outcome err now msg) (durable view (world s))" by auto
  with a show ?thesis by blast
qed

end


section \<open>The payloads\<close>

lemma to_valid_empty: "to_valid s = [] \<longleftrightarrow> s = []"
proof (cases s)
  case (Cons c u)
  have "to_valid_rune (take (rune_step s) s) \<noteq> []"
    by (simp add: to_valid_rune_def replacement_def Cons del: rune_len.simps)
  thus ?thesis by (simp add: to_valid_def Cons)
qed (simp add: to_valid_def)

lemma to_valid_names:
  "to_valid ''source'' = ''source''" "to_valid ''asset'' = ''asset''" "to_valid ''duration_ms'' = ''duration_ms''"
  "to_valid ''fail'' = ''fail''" "to_valid ''invalid'' = ''invalid''"
  by (simp_all add: to_valid_utf8 utf8_ascii)

lemma image_members:
  "map parsed (image_literals p) =
     [(''source'', VStr (to_valid (ip_Source p))), (''duration_ms'', VNum (dec_int (ip_DurationMS p))), (''fail'', VBool (ip_Fail p))]"
  by (simp add: image_literals_def parsed_def to_valid_names)

lemma c2pa_members:
  "map parsed (c2pa_literals p) =
     [(''asset'', VStr (to_valid (cp_Asset p))), (''duration_ms'', VNum (dec_int (cp_DurationMS p))), (''fail'', VBool (cp_Fail p)),
      (''invalid'', VBool (cp_Invalid p))]"
  by (simp add: c2pa_literals_def parsed_def to_valid_names)

lemma find_field_exact: "map_of fs k = Some f \<Longrightarrow> find_field fs k = Some f"
  by (simp add: find_field_def)

lemma image_find:
  "find_field image_fields ''source'' = Some (string_field (\<lambda>v p. p\<lparr>ip_Source := v\<rparr>))"
  "find_field image_fields ''duration_ms'' = Some (int_field (\<lambda>v p. p\<lparr>ip_DurationMS := v\<rparr>))"
  "find_field image_fields ''fail'' = Some (bool_field (\<lambda>v p. p\<lparr>ip_Fail := v\<rparr>))"
  by (rule find_field_exact, simp add: image_fields_def)+

lemma c2pa_find:
  "find_field c2pa_fields ''asset'' = Some (string_field (\<lambda>v p. p\<lparr>cp_Asset := v\<rparr>))"
  "find_field c2pa_fields ''duration_ms'' = Some (int_field (\<lambda>v p. p\<lparr>cp_DurationMS := v\<rparr>))"
  "find_field c2pa_fields ''fail'' = Some (bool_field (\<lambda>v p. p\<lparr>cp_Fail := v\<rparr>))"
  "find_field c2pa_fields ''invalid'' = Some (bool_field (\<lambda>v p. p\<lparr>cp_Invalid := v\<rparr>))"
  by (rule find_field_exact, simp add: c2pa_fields_def)+

lemmas field_kinds = string_field_def int_field_def bool_field_def ParseInt10_dec_int

lemma image_Unmarshal_Marshal:
  "int64_range (ip_DurationMS p) \<Longrightarrow> image_Unmarshal (image_Marshal p) = Some (p\<lparr>ip_Source := to_valid (ip_Source p)\<rparr>)"
  by (simp add: image_Unmarshal_def image_Marshal_def unmarshal_struct_def json_parse_marshal image_members image_find
      field_kinds image_zero_def)

lemma c2pa_Unmarshal_Marshal:
  "int64_range (cp_DurationMS p) \<Longrightarrow> c2pa_Unmarshal (c2pa_Marshal p) = Some (p\<lparr>cp_Asset := to_valid (cp_Asset p)\<rparr>)"
  by (simp add: c2pa_Unmarshal_def c2pa_Marshal_def unmarshal_struct_def json_parse_marshal c2pa_members c2pa_find
      field_kinds c2pa_zero_def)


section \<open>The handlers\<close>

lemma image_handler:
  assumes "int64_range (ip_DurationMS p)" "payload_bytes msg = image_Marshal p"
  shows "image_ProcessTask detail w ctx msg =
    (if ip_Source p = '''' then Some (wrap_err ''image source is empty'' ErrNonRetryable)
     else if ip_DurationMS p < 0 then Some (wrap_err ''image duration is negative'' ErrNonRetryable)
     else (case timer_or_done w (wrap64 (ip_DurationMS p * millisecond)) ctx of
       Some e \<Rightarrow> Some e
     | None \<Rightarrow> if ip_Fail p then Some (Errorf ''simulated image processor failure'' []) else None), msg)"
  unfolding image_ProcessTask_def assms(2) image_Unmarshal_Marshal [OF assms(1)]
  by (simp add: to_valid_empty split: option.split)

lemma c2pa_handler:
  assumes "int64_range (cp_DurationMS p)" "payload_bytes msg = c2pa_Marshal p"
  shows "c2pa_ProcessTask detail w ctx msg =
    (if cp_Asset p = '''' \<or> cp_Invalid p then Some (wrap_err ''invalid asset for c2pa signing'' ErrNonRetryable)
     else (case timer_or_done w (wrap64 (cp_DurationMS p * millisecond)) ctx of
       Some e \<Rightarrow> Some e
     | None \<Rightarrow> if cp_Fail p then Some (Errorf ''simulated signing service failure'' []) else None), msg)"
  unfolding c2pa_ProcessTask_def assms(2) c2pa_Unmarshal_Marshal [OF assms(1)]
  by (simp add: to_valid_empty split: option.split)

lemma handlers_keep_message: "snd (image_ProcessTask detail w ctx msg) = msg" "snd (c2pa_ProcessTask detail w ctx msg) = msg"
  unfolding image_ProcessTask_def c2pa_ProcessTask_def
  by (auto simp only: snd_conv split: option.split if_split)

interpretation image: simulation image_ProcessTask image_Marshal "\<lambda>p. int64_range (ip_DurationMS p)"
  "\<lambda>p. ip_Source p = '''' \<or> ip_DurationMS p < 0" "\<lambda>p. wrap64 (ip_DurationMS p * millisecond)" ip_Fail
  by unfold_locales (auto simp: handlers_keep_message image_handler)

interpretation c2pa: simulation c2pa_ProcessTask c2pa_Marshal "\<lambda>p. int64_range (cp_DurationMS p)"
  "\<lambda>p. cp_Asset p = '''' \<or> cp_Invalid p" "\<lambda>p. wrap64 (cp_DurationMS p * millisecond)" cp_Fail
  by unfold_locales (simp_all add: handlers_keep_message c2pa_handler)

end
