(* ===== verification/SimulationProperties.thy ===== *)
theory SimulationProperties
  imports SimulationContract
begin

text \<open>
  The properties of the example programs: which command lines a producer accepts and what they set, that payloads survive
  their JSON text, what a producer leaves in Redis, and how a worker's job on such a task ends.
\<close>

section \<open>Command lines\<close>

text \<open>The ways to write the assignment of a value to a flag: joined by an equals sign, as two arguments, or, for a boolean flag,
  the name alone.\<close>

datatype form = Joined | Separate | Bare

fun flag_words :: "string \<times> string \<times> form \<Rightarrow> string list" where
  "flag_words (n, v, Joined) = [CHR ''-'' # n @ CHR ''='' # v]"
| "flag_words (n, v, Separate) = [CHR ''-'' # n, v]"
| "flag_words (n, v, Bare) = [CHR ''-'' # n]"

definition writable :: "(string \<times> 'c flag_var) list \<Rightarrow> string \<times> string \<times> form \<Rightarrow> bool" where
  "writable formal a = (case a of (n, v, f) \<Rightarrow> n \<noteq> '''' \<and> hd n \<noteq> CHR ''-'' \<and> CHR ''='' \<notin> set n
     \<and> (case map_of formal n of None \<Rightarrow> True
        | Some var \<Rightarrow> f = Joined \<or> (if is_bool_flag var then f = Bare \<and> v = ''true'' else f = Separate)))"

text \<open>The meaning of a command line: the assignments in order.\<close>

fun assigned :: "(string \<times> 'c flag_var) list \<Rightarrow> (string \<times> string \<times> form) list \<Rightarrow> 'c \<Rightarrow> 'c option" where
  "assigned formal [] c = Some c"
| "assigned formal ((n, v, f) # as) c = (case map_of formal n of
     None \<Rightarrow> None
   | Some var \<Rightarrow> (case flag_Set var v c of None \<Rightarrow> None | Some c' \<Rightarrow> assigned formal as c'))"

definition producer_ok :: "ProducerConfig \<Rightarrow> bool" where
  "producer_ok c \<longleftrightarrow> pc_Queue c \<noteq> '''' \<and> pc_Input c \<noteq> ''''
     \<and> 0 \<le> pc_EnqueueDelay c \<and> 0 \<le> pc_Duration c \<and> 0 \<le> pc_Timeout c \<and> 0 \<le> pc_MaxRetry c
     \<and> int64_range (pc_EnqueueDelay c) \<and> int64_range (pc_Duration c) \<and> int64_range (pc_Timeout c) \<and> int64_range (pc_MaxRetry c)"

lemma split_flag_text:
  assumes "CHR ''='' \<notin> set n"
  shows "split_flag (n @ CHR ''='' # v) = (n, Some v)" "split_flag n = (n, None)"
proof -
  have n: "takeWhile (\<lambda>c. c \<noteq> CHR ''='') n = n" "dropWhile (\<lambda>c. c \<noteq> CHR ''='') n = []"
    using assms by (auto simp: takeWhile_eq_all_conv dropWhile_eq_Nil_conv)
  show "split_flag (n @ CHR ''='' # v) = (n, Some v)"
    using assms by (subst split_flag_def) (auto simp: dropWhile_append n takeWhile_append)
  show "split_flag n = (n, None)" by (simp add: split_flag_def n)
qed

lemma parseOne_flag:
  assumes "n \<noteq> ''''" "hd n \<noteq> CHR ''-''" "CHR ''='' \<notin> set n"
  shows "parseOne formal ((CHR ''-'' # n @ CHR ''='' # v) # args) c = set_flag formal n (Some v) args c"
    and "parseOne formal ((CHR ''-'' # n) # args) c = set_flag formal n None args c"
proof -
  obtain a m where n: "n = a # m" "a \<noteq> CHR ''-''" "a \<noteq> CHR ''=''" using assms by (cases n) auto
  show "parseOne formal ((CHR ''-'' # n @ CHR ''='' # v) # args) c = set_flag formal n (Some v) args c"
    "parseOne formal ((CHR ''-'' # n) # args) c = set_flag formal n None args c"
    using split_flag_text [OF assms(3)] n by simp_all
qed

declare parseOne.simps(2) [simp del]

lemma flag_value_words:
  "is_bool_flag var \<Longrightarrow> flag_value var None args = Some (''true'', args)"
  "\<not> is_bool_flag var \<Longrightarrow> flag_value var None (v # args) = Some (v, args)"
  "flag_value var (Some v) args = Some (v, args)"
  by (simp_all add: flag_value_def)

lemma parseOne_words:
  assumes "writable formal (n, v, f)"
  shows "parseOne formal (flag_words (n, v, f) @ args) c = (case map_of formal n of
     None \<Rightarrow> Inl (if n = ''help'' \<or> n = ''h'' then ErrHelp else NotDefined n)
   | Some var \<Rightarrow> (case flag_Set var v c of None \<Rightarrow> Inl (InvalidValue v n) | Some c' \<Rightarrow> Inr (Some (c', args))))"
proof -
  have n: "n \<noteq> ''''" "hd n \<noteq> CHR ''-''" "CHR ''='' \<notin> set n" using assms by (simp_all add: writable_def)
  have one: "parseOne formal (flag_words (n, v, f) @ args) c = (case f of
      Joined \<Rightarrow> set_flag formal n (Some v) args c
    | Separate \<Rightarrow> set_flag formal n None (v # args) c
    | Bare \<Rightarrow> set_flag formal n None args c)"
    by (cases f) (simp_all add: parseOne_flag [OF n])
  show ?thesis
  proof (cases "map_of formal n")
    case None
    thus ?thesis unfolding one set_flag_def by (cases f) simp_all
  next
    case (Some var)
    thus ?thesis
      using assms unfolding one set_flag_def
      by (cases f) (auto simp: writable_def flag_value_words split: if_splits)
  qed
qed

lemma flag_Parse_words:
  "list_all (writable formal) as \<Longrightarrow>
   flag_Parse formal (concat (map flag_words as)) c = Inr c' \<longleftrightarrow> assigned formal as c = Some c'"
proof (induction as arbitrary: c)
  case Nil
  show ?case by (subst flag_Parse.simps) simp
next
  case (Cons a as)
  obtain n v f where a: "a = (n, v, f)" by (cases a)
  note p = parseOne_words [of formal n v f "concat (map flag_words as)" c]
  show ?case
    using Cons by (subst flag_Parse.simps) (auto simp: a p split: option.splits)
qed

abbreviation producer_range :: "ProducerConfig \<Rightarrow> bool" where
  "producer_range c \<equiv> int64_range (pc_EnqueueDelay c) \<and> int64_range (pc_Duration c) \<and> int64_range (pc_Timeout c)
     \<and> int64_range (pc_MaxRetry c)"

lemma producer_flag_kinds:
  assumes "map_of producer_flags name = Some var" "flag_Set var v c = Some c'" "producer_range c"
  shows "producer_range c'"
proof -
  have "var \<in> snd ` set producer_flags" using map_of_SomeD [OF assms(1)] by force
  thus ?thesis
    using assms(2,3) unfolding producer_flags_def set_simps image_insert image_empty snd_conv
    by (elim insertE emptyE) (auto dest: ParseDuration_range ParseInt0_range)
qed

lemma producer_ranges:
  "flag_Parse producer_flags args (default_producer getenv command) = Inr c \<Longrightarrow> producer_range c"
  by (erule flag_Parse_keeps [where P = producer_range])
    (simp add: default_producer_def int64_range_def millisecond_def, rule producer_flag_kinds)

lemma ParseProducerConfig_accepts:
  "ParseProducerConfig getenv command args = Inr c \<longleftrightarrow>
   flag_Parse producer_flags args (default_producer getenv command) = Inr c \<and> producer_ok c"
proof (cases "flag_Parse producer_flags args (default_producer getenv command)")
  case (Inr d)
  thus ?thesis
    using producer_ranges [OF Inr] unfolding ParseProducerConfig_def producer_ok_def Inr sum.case
    by (auto simp only: sum.inject sum.distinct not_less split: if_split)
qed (simp add: ParseProducerConfig_def)


section \<open>Producers\<close>

lemma payload_config:
  assumes "producer_ok config"
  shows "int64_range (quot (pc_Duration config) millisecond)" "\<not> quot (pc_Duration config) millisecond < 0"
    "wrap64 (quot (pc_Duration config) millisecond * millisecond) = pc_Duration config - pc_Duration config mod millisecond"
proof -
  define d where "d = pc_Duration config"
  have d: "0 \<le> d" "d < 2 ^ 63" using assms by (simp_all add: d_def producer_ok_def int64_range_def)
  have q: "quot d millisecond = d div millisecond" using d(1) by (simp add: quot_nonneg millisecond_def)
  have pos: "0 \<le> d div millisecond" using d(1) by (simp add: millisecond_def pos_imp_zdiv_nonneg_iff)
  have m: "d div millisecond * millisecond = d - d mod millisecond" by (simp add: minus_mod_eq_div_mult)
  have mod: "0 \<le> d mod millisecond" by (simp add: millisecond_def)
  have le: "d div millisecond \<le> d div millisecond * millisecond" using pos unfolding millisecond_def by linarith
  have r: "d div millisecond * millisecond < 2 ^ 63" using m mod d(2) by linarith
  show "int64_range (quot (pc_Duration config) millisecond)" "\<not> quot (pc_Duration config) millisecond < 0"
    unfolding d_def [symmetric] q using pos le r unfolding int64_range_def by linarith+
  show "wrap64 (quot (pc_Duration config) millisecond * millisecond) = pc_Duration config - pc_Duration config mod millisecond"
    unfolding d_def [symmetric] q m [symmetric] using pos le r by (intro wrap64_id) (unfold int64_range_def, linarith)
qed

text \<open>The four texts that tell the two producers apart, with the program itself.\<close>

definition producers :: "ProducerConfig \<Rightarrow>
  (string \<times> ('w surroundings \<Rightarrow> string list \<Rightarrow> 'w shell \<Rightarrow> (run_error + TaskMessage) \<times> 'w shell) \<times> string \<times> string) set" where
  "producers config =
     {(''image-producer'', image_producer_run, ''image:process'', image_Marshal (image_payload config)),
      (''c2pa-producer'', c2pa_producer_run, ''c2pa:sign'', c2pa_Marshal (c2pa_payload config))}"

lemma marshal_nonempty: "image_Marshal p \<noteq> ''''" "c2pa_Marshal q \<noteq> ''''"
  by (simp_all add: image_Marshal_def c2pa_Marshal_def marshal_struct_def)

lemma ConnectRedis_counts:
  "ConnectRedis ge pg t a n = (r, n') \<Longrightarrow> n' = (case r of Inl e \<Rightarrow> n | Inr x \<Rightarrow> n + 1)"
  "ConnectRedis ge pg t a n = (Inr x, n') \<Longrightarrow> x = RedisAddress ge a"
  by (auto simp: ConnectRedis_def OpenRedis_def Let_def split: option.splits)

lemma submit_simulation_clients:
  "sh_clients (snd (submit_simulation env config rdb ty bytes line sh)) = sh_clients sh - 1"
  by (simp add: submit_simulation_def close_client_def log_line_def split: prod.split sum.split)

lemma producer_closes:
  "sh_clients (snd (image_producer_run env args sh)) = sh_clients sh"
  "sh_clients (snd (c2pa_producer_run env args sh)) = sh_clients sh"
  by (auto simp: image_producer_run_def c2pa_producer_run_def submit_simulation_clients
      split: sum.split prod.split dest: ConnectRedis_counts(1))

text \<open>The submission a producer makes when it succeeds.\<close>

abbreviation submission ::
  "'w surroundings \<Rightarrow> ProducerConfig \<Rightarrow> string \<Rightarrow> string \<Rightarrow> 'w \<Rightarrow> (gerr + TaskMessage) \<times> 'w" where
  "submission env config ty bytes w \<equiv>
     EnqueueIn (Some (NewClient (Some (env_store env (RedisAddress (env_Getenv env) (pc_RedisAddr config))))))
       None (env_now env) (env_newID env) (Some (NewTask ty (Some bytes) [])) (pc_EnqueueDelay config)
       [Some (WithQueue (pc_Queue config)), Some (WithMaxRetry (pc_MaxRetry config)), Some (WithTimeout (pc_Timeout config))] w"

lemma submit_simulation_success:
  assumes "submit_simulation env config (RedisAddress (env_Getenv env) (pc_RedisAddr config)) ty bytes line sh = (Inr m, sh')"
  shows "submission env config ty bytes (sh_world sh) = (Inr m, sh_world sh')"
  using assms by (auto simp: submit_simulation_def close_client_def log_line_def split: prod.splits sum.splits)

lemma producer_success:
  assumes "ParseProducerConfig (env_Getenv env) command args = Inr config" "(command, prog, ty, bytes) \<in> producers config"
    and "prog env args sh = (Inr m, sh')"
  shows "submission env config ty bytes (sh_world sh) = (Inr m, sh_world sh')" "bytes \<noteq> ''''" "ty \<noteq> ''''"
proof -
  obtain line n where "submit_simulation env config (RedisAddress (env_Getenv env) (pc_RedisAddr config)) ty bytes line
      (sh\<lparr>sh_clients := n\<rparr>) = (Inr m, sh')"
    using assms unfolding producers_def
    by (auto simp: image_producer_run_def c2pa_producer_run_def split: sum.splits prod.splits dest!: ConnectRedis_counts(2))
  from submit_simulation_success [OF this] show "submission env config ty bytes (sh_world sh) = (Inr m, sh_world sh')" by simp
  show "bytes \<noteq> ''''" "ty \<noteq> ''''" using assms(2) by (auto simp: producers_def marshal_nonempty marshal_nonempty [symmetric])
qed

lemma submission_options:
  assumes "0 \<le> dl" "q \<noteq> ''''" "0 \<le> mr" "0 \<le> tm"
  shows "apply_options ([] @ Some (ProcessIn dl) # [Some (WithQueue q), Some (WithMaxRetry mr), Some (WithTimeout tm)])
      (initial_options i now) =
    (None, \<lparr>o_id = i, o_queue = q, o_priority = 0, o_maxRetry = mr, o_timeout = tm, o_deadline = zero_time,
      o_runAt = now, o_runAtSet = False, o_runIn = dl, o_runInSet = True\<rparr>)"
  using assms by (simp add: ProcessIn_def WithQueue_def WithMaxRetry_def WithTimeout_def initial_options_def)

text \<open>On Redis the submitted message is stored.\<close>

lemma producer_on_redis:
  assumes "redis_server call view" and "store_ok (view (sh_world sh))"
    and "env_store env (RedisAddress (env_Getenv env) (pc_RedisAddr config)) = redis_client_store call ft"
    and "ParseProducerConfig (env_Getenv env) command args = Inr config" and "(command, prog, ty, bytes) \<in> producers config"
    and "prog env args sh = (Inr m, sh')" and "queue_name_ok (Queue m)"
  obtains i where "env_newID env = Inr i"
    "m = \<lparr>ID = i, Type = ty, Payload = Some bytes, Queue = pc_Queue config, Priority = 0, MaxRetry = pc_MaxRetry config,
       RetryCount = 0, Timeout = pc_Timeout config, Deadline = zero_time, RunAt = env_now env + pc_EnqueueDelay config,
       State = (if 0 < pc_EnqueueDelay config then StateScheduled else StatePending), AttemptID = '''', LastError = '''',
       LastFailedAt = zero_time, CompletedAt = zero_time, CreatedAt = env_now env\<rparr>"
    "tasks (view (sh_world sh)) (Queue m) (ID m) = None"
    "tasks (view (sh_world sh')) (Queue m) = (tasks (view (sh_world sh)) (Queue m))(ID m \<mapsto> m)" "store_ok (view (sh_world sh'))"
proof -
  have ok: "producer_ok config" using assms(4) by (simp add: ParseProducerConfig_accepts)
  note ps = producer_success [OF assms(4-6)]
  obtain i options where c: "env_newID env = Inr i"
    "apply_options (opts (NewTask ty (Some bytes) []) @ Some (ProcessIn (pc_EnqueueDelay config)) #
       [Some (WithQueue (pc_Queue config)), Some (WithMaxRetry (pc_MaxRetry config)), Some (WithTimeout (pc_Timeout config))])
       (initial_options i (env_now env)) = (None, options)"
    "m = (message_of (NewTask ty (Some bytes) []) (env_now env) options)\<lparr>State :=
       (if run_time (env_now env) options > env_now env then ''scheduled'' else ''pending'')\<rparr>"
    "tasks (view (sh_world sh)) (Queue m) (ID m) = None"
    "tasks (view (sh_world sh')) (Queue m) = (tasks (view (sh_world sh)) (Queue m))(ID m \<mapsto> m)" "store_ok (view (sh_world sh'))"
    using ps(1) [unfolded EnqueueIn_def assms(3)] by (rule client_on_redis [OF assms(1,2) _ assms(7)])
  have o: "options = \<lparr>o_id = i, o_queue = pc_Queue config, o_priority = 0, o_maxRetry = pc_MaxRetry config,
      o_timeout = pc_Timeout config, o_deadline = zero_time, o_runAt = env_now env, o_runAtSet = False,
      o_runIn = pc_EnqueueDelay config, o_runInSet = True\<rparr>"
    using c(2) submission_options [of "pc_EnqueueDelay config" "pc_Queue config" "pc_MaxRetry config" "pc_Timeout config"] ok
    by (simp add: NewTask_def producer_ok_def)
  from c(1,3-6) show thesis
    using ps(2) by (intro that) (simp_all add: o message_of_def NewTask_def Task_Payload_def copy_bytes_def run_time_def)
qed


section \<open>Samples\<close>

definition sample_env :: "keyspace surroundings" where
  "sample_env = \<lparr>env_Getenv = (\<lambda>_. ''''), env_Ping = (\<lambda>_ _. None), env_store = (\<lambda>_. redis_client_store redis_doc Delivered),
     env_connecting = sample_now, env_now = sample_now, env_newID = Inr ''t9''\<rparr>"

definition sample_shell :: "keyspace shell" where
  "sample_shell = \<lparr>sh_world = empty_db, sh_clients = 0, sh_log = []\<rparr>"

definition invalid_config :: ProducerConfig where
  "invalid_config = \<lparr>pc_RedisAddr = ''127.0.0.1:6379'', pc_Queue = ''c2pa'', pc_Input = ''input.jpg'', pc_EnqueueDelay = 0,
     pc_Duration = 300000000, pc_Timeout = 0, pc_MaxRetry = 3, pc_Fail = False, pc_Invalid = True\<rparr>"

definition invalid_task :: TaskMessage where
  "invalid_task = \<lparr>ID = ''t9'', Type = ''c2pa:sign'', Payload = Some (c2pa_Marshal (c2pa_payload invalid_config)),
     Queue = ''c2pa'', Priority = 0, MaxRetry = 3, RetryCount = 0, Timeout = 0, Deadline = zero_time, RunAt = sample_now,
     State = StatePending, AttemptID = '''', LastError = '''', LastFailedAt = zero_time, CompletedAt = zero_time,
     CreatedAt = sample_now\<rparr>"

lemma invalid_config_sel:
  "pc_Queue invalid_config = ''c2pa''" "pc_EnqueueDelay invalid_config = 0" "pc_MaxRetry invalid_config = 3"
  "pc_Timeout invalid_config = 0" "pc_Invalid invalid_config" "\<not> pc_Fail invalid_config"
  by (simp_all add: invalid_config_def)

lemma invalid_command_line: "ParseProducerConfig (\<lambda>_. '''') ''c2pa-producer'' [''-invalid''] = Inr invalid_config"
proof -
  have w: "list_all (writable producer_flags) [(''invalid'', ''true'', Bare)]" by (simp add: writable_def producer_flags_def)
  have "assigned producer_flags [(''invalid'', ''true'', Bare)] (default_producer (\<lambda>_. '''') ''c2pa-producer'') = Some invalid_config"
    by (simp add: producer_flags_def ParseBool_def default_producer_def RedisAddress_def DefaultRedisAddress_def millisecond_def
        invalid_config_def)
  thus ?thesis
    using flag_Parse_words [OF w, of "default_producer (\<lambda>_. '''') ''c2pa-producer''" invalid_config]
    by (simp add: ParseProducerConfig_accepts) (simp add: producer_ok_def invalid_config_def int64_range_def)
qed

lemma invalid_task_ok:
  "queue_name_ok (Queue invalid_task)" "Validate (Some invalid_task) = None" "Marshal invalid_task \<noteq> None"
  "State invalid_task = ''pending''" "AttemptID invalid_task = []" "Queue invalid_task = ''c2pa''" "ID invalid_task = ''t9''"
  by (simp_all add: invalid_task_def queue_name_ok_def Validate.simps Marshal_def time_marshals_def sample_now_def zero_time_def)

lemma invalid_run:
  "\<exists>sh'. c2pa_producer_run sample_env [''-invalid''] sample_shell = (Inr invalid_task, sh')
     \<and> sh_world sh' = snd (Enqueue redis_doc Delivered invalid_task empty_db)"
proof -
  let ?bytes = "c2pa_Marshal (c2pa_payload invalid_config)"
  have g: "env_Getenv sample_env = (\<lambda>_. '''')" by (simp add: sample_env_def)
  obtain D where E: "Enqueue redis_doc Delivered invalid_task empty_db = ((None, invalid_task), D)"
    using enqueued_alone(3) [OF invalid_task_ok(1-5)] by (metis prod.collapse)
  have m: "message_of (NewTask ''c2pa:sign'' (Some ?bytes) []) sample_now
     \<lparr>o_id = ''t9'', o_queue = ''c2pa'', o_priority = 0, o_maxRetry = 3, o_timeout = 0, o_deadline = zero_time,
      o_runAt = sample_now, o_runAtSet = False, o_runIn = 0, o_runInSet = True\<rparr> = invalid_task"
    by (simp add: message_of_def NewTask_def Task_Payload_def copy_bytes_def invalid_task_def marshal_nonempty)
  have "RunAt invalid_task = sample_now" by (simp add: invalid_task_def)
  hence sub: "EnqueueIn (Some (NewClient (Some (redis_client_store redis_doc Delivered)))) None sample_now (Inr ''t9'')
      (Some (NewTask ''c2pa:sign'' (Some ?bytes) [])) 0 [Some (WithQueue ''c2pa''), Some (WithMaxRetry 3), Some (WithTimeout 0)]
      empty_db = (Inr invalid_task, D)"
    using submission_options [of 0 "''c2pa''" 3 0 "''t9''" sample_now] m E
    by (simp add: EnqueueIn_def Client_Enqueue_def NewClient_def redis_client_store_def NewTask_def run_time_def)
  have "\<exists>sh'. c2pa_producer_run sample_env [''-invalid''] sample_shell = (Inr invalid_task, sh') \<and> sh_world sh' = D"
    using sub unfolding c2pa_producer_run_def g invalid_command_line sum.case
    by (simp add: sample_env_def sample_shell_def ConnectRedis_def OpenRedis_def Let_def submit_simulation_def close_client_def
        log_line_def invalid_config_sel)
  thus ?thesis using E by simp
qed

text \<open>The worker's side: the same task claimed, and a handler whose timer fires.\<close>

definition invalid_active :: TaskMessage where
  "invalid_active = invalid_task\<lparr>State := StateActive, AttemptID := sample_attempt\<rparr>"

definition db_invalid :: keyspace where
  "db_invalid = snd (Claim redis_doc New_Store Delivered sample_entropy ''c2pa'' sample_now 0
     (snd (Enqueue redis_doc Delivered invalid_task empty_db)))"

definition sample_wait :: handler_wait where
  "sample_wait = \<lparr>armed_at = sample_now, looked_at = sample_now, cancelled_at = None, takes_timer = True\<rparr>"

lemma invalid_active_ok:
  "queue_name_ok (Queue invalid_active)" "Marshal invalid_active \<noteq> None" "Queue invalid_active = ''c2pa''"
  "ID invalid_active = ''t9''" "State invalid_active = ''active''" "RetryCount invalid_active = 0"
  by (simp_all add: invalid_active_def invalid_task_def queue_name_ok_def Marshal_def time_marshals_def sample_now_def zero_time_def)

lemma db_invalid_ok: "store_ok db_invalid" "tasks db_invalid ''c2pa'' = [''t9'' \<mapsto> invalid_active]"
proof -
  note e = enqueued_alone [OF invalid_task_ok(1-5)]
  note c = claimed_alone [OF e(1) invalid_task_ok(1) e(2) invalid_task_ok(4)]
  show "store_ok db_invalid" "tasks db_invalid ''c2pa'' = [''t9'' \<mapsto> invalid_active]"
    using c(1,2) by (simp_all add: db_invalid_def invalid_active_def invalid_task_ok)
qed


section \<open>Workers\<close>

text \<open>A worker program that gets as far as \<open>RunSignals\<close> holds one client, and its server starts with one worker that serves
  the program's own queue.\<close>

lemma worker_config_starts:
  "validate (applyDefaults (worker_config q)) = None" "New_queues (Queues (applyDefaults (worker_config q))) = [q]"
  "Concurrency (applyDefaults (worker_config q)) = 1"
  by (simp_all add: worker_config_def applyDefaults_def dflt_def validate_def New_queues_def second_def)

lemma worker_server_starts:
  assumes "s = (New (Some store) (Some h) (worker_config q) w ms now)\<lparr>sv_calls := [CallRun]\<rparr>"
  shows "sv_queues s = [q] \<and> (\<exists>t. call_next CallRun s = [(RunSelect False, t)] \<and> sv_state t = stateRunning \<and> sv_workers t = [WIdle])"
  by (simp add: assms New_def Let_def Start_def worker_config_starts)

lemma worker_run_server:
  "image_worker_run env args w n = (Inr r, n') \<Longrightarrow> n' = n + 1 \<and> (\<exists>store h. rn_server r =
     (New (Some store) (Some h) (worker_config ''image'') w (Some NewMetrics) (we_now env))\<lparr>sv_calls := [CallRun]\<rparr>)"
  "c2pa_worker_run env args w n = (Inr r, n') \<Longrightarrow> n' = n + 1 \<and> (\<exists>store h. rn_server r =
     (New (Some store) (Some h) (worker_config ''c2pa'') w (Some NewMetrics) (we_now env))\<lparr>sv_calls := [CallRun]\<rparr>)"
  unfolding image_worker_run_def c2pa_worker_run_def
  by (auto split: sum.splits prod.splits dest: ConnectRedis_counts(1)) (intro exI, rule refl)+

lemma workers_start:
  "image_worker_run env args w n = (Inr r, n') \<Longrightarrow> n' = n + 1 \<and> sv_queues (rn_server r) = [''image'']
    \<and> (\<exists>t. call_next CallRun (rn_server r) = [(RunSelect False, t)] \<and> sv_state t = stateRunning \<and> sv_workers t = [WIdle])"
  "c2pa_worker_run env args w n = (Inr r, n') \<Longrightarrow> n' = n + 1 \<and> sv_queues (rn_server r) = [''c2pa'']
    \<and> (\<exists>t. call_next CallRun (rn_server r) = [(RunSelect False, t)] \<and> sv_state t = stateRunning \<and> sv_workers t = [WIdle])"
  using worker_run_server worker_server_starts by metis+


section \<open>Properties\<close>



text \<open>C33. The payloads survive their JSON text: what the producers marshal, the handlers unmarshal to the same payload, for any
  text of the input and any 64-bit duration, except that bytes of the input that are not UTF-8 arrive as replacement characters; an
  input in UTF-8 arrives unchanged.\<close>

theorem payloads_roundtrip:
  assumes "int64_range (ip_DurationMS p)" and "int64_range (cp_DurationMS q)"
  shows "image_Unmarshal (image_Marshal p) = Some (p\<lparr>ip_Source := to_valid (ip_Source p)\<rparr>)
    \<and> c2pa_Unmarshal (c2pa_Marshal q) = Some (q\<lparr>cp_Asset := to_valid (cp_Asset q)\<rparr>)
    \<and> (utf8 (ip_Source p) \<longrightarrow> image_Unmarshal (image_Marshal p) = Some p)
    \<and> (utf8 (cp_Asset q) \<longrightarrow> c2pa_Unmarshal (c2pa_Marshal q) = Some q)"
  using assms by (simp add: image_Unmarshal_Marshal c2pa_Unmarshal_Marshal to_valid_utf8)

theorem payloads_roundtrip_witness:
  "image_Unmarshal (image_Marshal \<lparr>ip_Source = ''a<b>.jpg'', ip_DurationMS = 250, ip_Fail = True\<rparr>) =
     Some \<lparr>ip_Source = ''a<b>.jpg'', ip_DurationMS = 250, ip_Fail = True\<rparr>
   \<and> c2pa_Unmarshal (c2pa_Marshal \<lparr>cp_Asset = ''x'', cp_DurationMS = - 1, cp_Fail = False, cp_Invalid = True\<rparr>) =
     Some \<lparr>cp_Asset = ''x'', cp_DurationMS = - 1, cp_Fail = False, cp_Invalid = True\<rparr>"
  using payloads_roundtrip [of "\<lparr>ip_Source = ''a<b>.jpg'', ip_DurationMS = 250, ip_Fail = True\<rparr>"
      "\<lparr>cp_Asset = ''x'', cp_DurationMS = - 1, cp_Fail = False, cp_Invalid = True\<rparr>"]
  by (simp add: int64_range_def utf8_ascii to_valid_utf8)

text \<open>C31. A producer that reports success has done what its command line says, and only that: Redis holds one new task, of the
  program's type and payload, in the chosen queue, with the chosen retry limit and timeout, due after the chosen delay and
  pending at once without one; and on every outcome, errors included, both programs have closed the client they opened.\<close>

theorem producers_submit_as_asked:
  assumes "redis_server call view" and "store_ok (view (sh_world sh))"
    and "env_store env (RedisAddress (env_Getenv env) (pc_RedisAddr config)) = redis_client_store call ft"
    and "ParseProducerConfig (env_Getenv env) command args = Inr config" and "(command, prog, ty, bytes) \<in> producers config"
    and "prog env args sh = (Inr m, sh')" and "queue_name_ok (Queue m)"
  shows "tasks (view (sh_world sh)) (Queue m) (ID m) = None
    \<and> tasks (view (sh_world sh')) (Queue m) = (tasks (view (sh_world sh)) (Queue m))(ID m \<mapsto> m) \<and> store_ok (view (sh_world sh'))
    \<and> Queue m = pc_Queue config \<and> Type m = ty \<and> Payload m = Some bytes \<and> MaxRetry m = pc_MaxRetry config
    \<and> Timeout m = pc_Timeout config \<and> RunAt m = env_now env + pc_EnqueueDelay config
    \<and> State m = (if 0 < pc_EnqueueDelay config then StateScheduled else StatePending)
    \<and> (\<forall>args sh. sh_clients (snd (image_producer_run env args sh)) = sh_clients sh
        \<and> sh_clients (snd (c2pa_producer_run env args sh)) = sh_clients sh)"
proof -
  from producer_on_redis [OF assms] obtain i where
    m: "m = \<lparr>ID = i, Type = ty, Payload = Some bytes, Queue = pc_Queue config, Priority = 0, MaxRetry = pc_MaxRetry config,
       RetryCount = 0, Timeout = pc_Timeout config, Deadline = zero_time, RunAt = env_now env + pc_EnqueueDelay config,
       State = (if 0 < pc_EnqueueDelay config then StateScheduled else StatePending), AttemptID = '''', LastError = '''',
       LastFailedAt = zero_time, CompletedAt = zero_time, CreatedAt = env_now env\<rparr>"
    and t: "tasks (view (sh_world sh)) (Queue m) (ID m) = None"
      "tasks (view (sh_world sh')) (Queue m) = (tasks (view (sh_world sh)) (Queue m))(ID m \<mapsto> m)" "store_ok (view (sh_world sh'))"
    by metis
  have sel: "Queue m = pc_Queue config \<and> Type m = ty \<and> Payload m = Some bytes \<and> MaxRetry m = pc_MaxRetry config
    \<and> Timeout m = pc_Timeout config \<and> RunAt m = env_now env + pc_EnqueueDelay config
    \<and> State m = (if 0 < pc_EnqueueDelay config then StateScheduled else StatePending)" by (simp add: m)
  show ?thesis by (intro conjI t) (simp_all add: sel producer_closes)
qed

theorem producers_submit_as_asked_witness:
  "\<exists>sh'. c2pa_producer_run sample_env [''-invalid''] sample_shell = (Inr invalid_task, sh')
     \<and> tasks (sh_world sh') ''c2pa'' ''t9'' = Some invalid_task \<and> State invalid_task = StatePending"
proof -
  obtain sh' where r: "c2pa_producer_run sample_env [''-invalid''] sample_shell = (Inr invalid_task, sh')" using invalid_run by blast
  have g: "env_Getenv sample_env = (\<lambda>_. '''')" by (simp add: sample_env_def)
  have e: "store_ok (id (sh_world sample_shell))" by (simp add: sample_shell_def empty_db_def store_ok_empty)
  from producers_submit_as_asked [OF doc.redis_server_axioms, where env = sample_env and config = invalid_config
      and command = "''c2pa-producer''" and prog = c2pa_producer_run and ft = Delivered, OF e _ _ _ r invalid_task_ok(1)]
  have "tasks (id (sh_world sh')) (Queue invalid_task) (ID invalid_task) = Some invalid_task"
    "State invalid_task = StatePending"
    using invalid_command_line unfolding g by (auto simp: producers_def sample_env_def invalid_config_def)
  with r show ?thesis by (simp add: invalid_task_ok)
qed

text \<open>C30. A worker ends the job of a simulated task as the producer was asked to. A worker that owns the attempt and finds the payload
  some accepted command line has produced completes the task if the simulation was to succeed; archives it at once, whatever
  retries are left, if the C2PA input was marked invalid; lets it be retried, and archives it at the retry limit, if it was to
  fail or if its timeout or the shutdown came before the simulated duration, which is the chosen one rounded down to
  milliseconds. An image task is never refused.\<close>

theorem simulated_jobs_end_as_asked:
  assumes "redis_server call view" and "store_ok (view (w_db (world s)))" and "calm (world s)"
    and "ParseProducerConfig getenv command args = Inr config"
    and "(bytes, handler, refused) \<in> {(image_Marshal (image_payload config), image_ProcessTask, False),
           (c2pa_Marshal (c2pa_payload config), c2pa_ProcessTask, pc_Invalid config)}"
    and "Payload msg = Some bytes" and "owns (durable view (world s)) msg" and "queue_name_ok (Queue msg)" and "Marshal msg \<noteq> None"
    and s': "s' = process (redis_task_store call st) c (handler detail w) hctx t msg s"
  shows "\<exists>err now.
      answers refused
        (timer_or_done w (pc_Duration config - pc_Duration config mod millisecond) (handler_context hctx (at_timeout t) msg))
        (pc_Fail config) err
    \<and> durable view (world s') = put (outcome err now msg) (durable view (world s))"
proof -
  have ok: "producer_ok config" using assms(4) by (simp add: ParseProducerConfig_accepts)
  have input: "pc_Input config \<noteq> ''''" using ok by (simp add: producer_ok_def)
  note pc = payload_config [OF ok]
  have bytes: "payload_bytes msg = bytes" using assms(6) by (simp add: payload_bytes_def)
  consider "bytes = image_Marshal (image_payload config)" "handler = image_ProcessTask" "refused = False"
    | "bytes = c2pa_Marshal (c2pa_payload config)" "handler = c2pa_ProcessTask" "refused = pc_Invalid config"
    using assms(5) by auto
  thus ?thesis
  proof cases
    case 1
    show ?thesis
      unfolding s' using image.job_answer [OF assms(1-3) _ bytes [unfolded 1(1)] assms(7-9), of w hctx t st c detail] pc input
      by (simp add: 1 image_payload_def)
  next
    case 2
    show ?thesis
      unfolding s' using c2pa.job_answer [OF assms(1-3) _ bytes [unfolded 2(1)] assms(7-9), of w hctx t st c detail] pc input
      by (simp add: 2 c2pa_payload_def)
  qed
qed

theorem simulated_jobs_end_as_asked_witness:
  "\<exists>d m. c2pa_producer_run sample_env [''-invalid''] sample_shell = (Inr invalid_task, d)
     \<and> durable id (world (process (redis_task_store redis_doc New_Store) sample_server (c2pa_ProcessTask (\<lambda>_. '''') sample_wait)
         Background sample_moments invalid_active (sample_state db_invalid))) ''c2pa'' ''t9'' = Some m
     \<and> State m = StateArchived \<and> RetryCount m = 0"
proof -
  let ?s = "sample_state db_invalid"
  have p: "Payload invalid_active = Some (c2pa_Marshal (c2pa_payload invalid_config))"
    by (simp add: invalid_active_def invalid_task_def)
  have q: "queue_name_ok ''c2pa''" using invalid_active_ok(1) by (simp add: invalid_active_ok)
  have w: "store_ok (id (w_db (world ?s)))" "owns (durable id (world ?s)) invalid_active"
    by (simp_all add: sample_world db_invalid_ok durable_def owns_def held_named q invalid_active_ok)
  from simulated_jobs_end_as_asked [OF doc.redis_server_axioms w(1) sample_world(2) invalid_command_line _ p w(2)
      invalid_active_ok(1,2) refl, where handler = c2pa_ProcessTask and refused = True and st = New_Store and c = sample_server
      and detail = "\<lambda>_. ''''" and w = sample_wait and hctx = Background and t = sample_moments]
  obtain e now where "errors_Is e ErrNonRetryable"
    "durable id (world (process (redis_task_store redis_doc New_Store) sample_server (c2pa_ProcessTask (\<lambda>_. '''') sample_wait)
       Background sample_moments invalid_active ?s)) = put (outcome (Some e) now invalid_active) (durable id (world ?s))"
    by (auto simp: answers_def invalid_config_sel)
  hence "durable id (world (process (redis_task_store redis_doc New_Store) sample_server (c2pa_ProcessTask (\<lambda>_. '''') sample_wait)
       Background sample_moments invalid_active ?s)) ''c2pa'' ''t9'' = Some (archived_for (error_text e) invalid_active)"
    by (simp add: outcome_def put_def archived_for_def invalid_active_ok)
  thus ?thesis using invalid_run by (auto simp: archived_for_def invalid_active_ok)
qed

end
