(* ===== verification/Spec2Isabelle.thy ===== *)
theory Spec2Isabelle
  imports MaintenanceProperties StateMachine ClientProperties TimeWheel LifecycleProperties BucketProperties
    SimulationProperties
begin

text \<open>
  \<^bold>\<open>Go-TaskEngine: a verification development.\<close>

  \<^bold>\<open>The program.\<close> Go-TaskEngine is a task queue on Redis. A producer builds a task with the client
  (\<^verbatim>\<open>client/client.go\<close>), which hands a \<open>TaskMessage\<close> (\<^verbatim>\<open>model/model.go\<close>) to a store. The store
  (\<^verbatim>\<open>internal/redisstore/rdb.go\<close>) keeps every task in a Redis hash and its place in lists and sorted sets, and changes
  them by Lua scripts: a task is pending, scheduled, active, retry, archived or completed. A server
  (\<^verbatim>\<open>server/server.go\<close>) works on any store that implements \<open>TaskStore\<close> (\<^verbatim>\<open>storage/storage.go\<close>): its dispatcher moves due
  tasks to pending and claims pending tasks, under a rate limiter (\<^verbatim>\<open>limiter/limiter.go\<close>, implemented by the token bucket
  of \<^verbatim>\<open>internal/limiter/bucket.go\<close>); its workers run the user's handler, chosen by \<^verbatim>\<open>server/handler_mux.go\<close>, and
  complete, reschedule or archive the task; a heartbeat renews the leases of running tasks and a recovery loop takes back
  tasks whose lease has expired; \<^verbatim>\<open>server/metrics.go\<close> counts. A timer (\<^verbatim>\<open>internal/timer/timer.go\<close>) wakes the dispatcher.
  Under \<^verbatim>\<open>examples/\<close> two simulations use all of this: a producer and a worker program each for image processing and C2PA signing.

  \<^bold>\<open>The boundary.\<close> Redis is not part of the repository, so it is a parameter: a function from a command and a
  database to a reply and the next database. What the code relies on is the command reference,
  written out as \<open>redis_doc\<close> (for the store) and \<open>limiter_doc\<close> (for the bucket), and the locales
  \<open>redis_server\<close> and \<open>limiter_server\<close> say that a server behaves so; every property of the store and the bucket holds for each
  such server, and the references themselves are the concrete instances. The network is a \<open>fate\<close> per request: it is
  not sent, it is carried out and the reply is lost, or it is answered. Clocks, random bytes, the order of map
  iterations, the winner of a select, and the user's handler are arguments. What other clients do between two requests
  of one call is an arbitrary change of the database (\<open>wire\<close>), which a property restricts only where it says so.
  The Go runtime's \<open>container/heap\<close>, \<open>encoding/json\<close>, \<open>errors\<close>, \<open>flag\<close>, \<open>fmt\<close>, \<open>math\<close>, \<open>sort\<close>, \<open>strconv\<close>, \<open>time\<close> and \<open>unicode/utf8\<close> are
  modelled as far as the code uses them.

  \<^bold>\<open>Base.\<close> \<open>Prelude\<close>: 64-bit wrap-around, the rounding of integers to doubles, decimal text, list facts.
  \<open>Float64\<close>: rounding of rationals to doubles far from the ends of the range. \<open>DoubleOps\<close>: arithmetic on doubles over the
  whole range, with subnormals, infinities and NaN, and its error bounds.

  \<^bold>\<open>Tasks and storage.\<close> \<open>TaskModel\<close> (\<open>TaskMessage\<close>, \<open>Validate\<close>, JSON), \<open>Storage\<close> (errors and their classification),
  \<open>RedisServer\<close> (commands, replies, scripts), \<open>RedisKeys\<close> (key layout), \<open>LuaScripts\<close> (one definition per script),
  \<open>RedisStore\<close> (one definition per method). The abstract specification is \<open>QueueState\<close>: the state of one queue and one
  operation per script on it. \<open>QueueRefinement\<close> shows that each script refines its operation and touches no other
  queue; \<open>QueueInvariant\<close> that each operation keeps the invariant \<open>qinv\<close>: every task is in exactly the containers of its
  state, ranked by its stored rank, leased exactly while active. \<open>QueueTasks\<close> and \<open>QueueBatches\<close> say what the operations do to
  the durable tasks. \<open>StoreSpec\<close>, \<open>StoreRuns\<close>, \<open>StoreEffects\<close>, \<open>StoreMaintenance\<close> and \<open>ClaimOrder\<close> lift this to the Go methods under
  every fate and interference and to runs of any number of clients. The properties are in \<open>StoreProperties\<close> and
  \<open>MaintenanceProperties\<close>: the invariant in every run; what a claim takes, that it finds work and is
  exclusive; that the owner of an attempt, and only the owner, ends it; creation once; the order of claims;
  due tasks, leases, dead letters, and what the readers report. \<open>StateMachine\<close> has the documented state machine as the
  specification of the whole store: every interleaving moves tasks only along its edges, and completed tasks are final.

  \<^bold>\<open>The interface between store and server.\<close> \<open>TaskStore\<close> is the interface as a record of methods and the Redis store as
  such a record. \<open>StoreContract\<close> has the locales: \<open>task_store\<close> says what each method may do to the durable tasks under
  failures and interference, \<open>reliable_store\<close> extends it to a store that answers and is left alone, \<open>budget_store\<close> (in \<open>ServerSpec\<close>)
  to clients that keep the retry budget. \<open>RedisContract\<close> shows that the Redis store implements the contracts;
  \<open>ServerProperties\<close> interprets them on it.

  \<^bold>\<open>The server.\<close> \<open>Backoff\<close> (retry delays), \<open>RateLimit\<close> (limiter interface), \<open>ServerConfig\<close> (defaults, validation, queue
  order), \<open>HandlerMux\<close>, \<open>Metrics\<close>, and \<open>ServerLoops\<close>: one job of a worker, one tick of the heartbeat and of the recovery, one
  round of the dispatcher, as functions on the state the goroutines share. \<open>ServerSpec\<close> interleaves them and proves, inside
  the contract, that no task ever gets more retries than it is allowed; \<open>ServerExact\<close> gives the exact outcome on a
  reliable store; \<open>ServerProperties\<close> states both for the Redis store. \<open>Lifecycle\<close> has \<open>New\<close>, \<open>Start\<close>, \<open>Stop\<close>, \<open>Shutdown\<close>, \<open>Run\<close> and
  \<open>RunSignals\<close> with the goroutines as step relations over program counters, channels and contexts;
  \<open>LifecycleInvariant\<close> the invariant of all interleavings; \<open>LifecycleProperties\<close> that a nil \<open>Shutdown\<close> leaves nothing
  running, that the lifecycle context outlives the work, that a stopped server drains, and that a shutdown keeps its deadline.

  \<^bold>\<open>The token bucket.\<close> \<open>TokenBucket\<close> (construction, script, \<open>Acquire\<close>), \<open>BucketBounds\<close> (the arithmetic of a refill and of a
  request), \<open>BucketProperties\<close> (no overspending over any run, and what a full bucket grants).

  \<^bold>\<open>The client and the timer.\<close> \<open>Client\<close> and \<open>ClientProperties\<close>: a submission the client reports as done is durable and
  well-formed. \<open>TimerHeap\<close> (the heap on \<open>container/heap\<close>), \<open>EventQueue\<close> (the locale of a priority queue, interpreted on the
  event heap, which sorts) and \<open>TimeWheel\<close> (the timer's loop as a step relation: callbacks run once, not early, not
  after a cancellation, and a schedule is never slept through).

  \<^bold>\<open>The examples.\<close> \<open>JsonText\<close> (the text of JSON: UTF-8, string literals with their escapes, tokens, the scanner's state machine,
  decoding into structs) and \<open>JsonRoundtrip\<close> (what is written is read back). \<open>FlagParsing\<close> (\<open>FlagSet.Parse\<close>, \<open>ParseDuration\<close>, \<open>ParseInt\<close>,
  \<open>ParseBool\<close>). \<open>ExampleSupport\<close> is \<^verbatim>\<open>examples/support/support.go\<close>; \<open>Simulations\<close> has the payloads, the handlers and the \<open>run\<close> functions of
  the four programs, the worker's being the start of a server of \<open>Lifecycle\<close>. \<open>SimulationContract\<close> states what a handler owes to the producer of
  its payload as the locale \<open>simulation\<close>, interpreted on both handlers; \<open>SimulationProperties\<close> shows which command lines are
  accepted and what they set, that payloads survive their text, that a producer stores the task it was asked for, and that a
  worker's job on it ends as asked.

  \<^bold>\<open>Bounds and termination.\<close> No definition uses fuel: loops are structural recursions, functions with a termination
  proof (\<open>heap_up\<close>, \<open>heap_down\<close>, and the lexers and parsers of texts, which consume their input), or step relations. Integers are unbounded with \<open>wrap64\<close> where the code can overflow. The properties
  of the bucket suppose a clock below \<open>2 ^ 53\<close> milliseconds, where doubles hold every integer; a stopped
  server drains within \<open>7 + 3 * Concurrency\<close> steps of its dispatcher and workers, a shutdown takes ten.

  \<^bold>\<open>Not modelled.\<close> The packages of aliases (\<^verbatim>\<open>redisstore/redisstore.go\<close>, most of \<^verbatim>\<open>limiter/limiter.go\<close>, \<^verbatim>\<open>internal/model/model.go\<close>)
  have no code of their own. Of the example programs, \<open>main\<close> (which ends the process on an error) and the delivery of signals are left
  out, and the texts of decoding errors are a parameter. Inside the modelled parts: the strings of a task message are well-formed UTF-8, which \<open>encoding/json\<close> keeps (the payloads of the examples may be any bytes); the cancellation of a context is not visible to a
  handler (its result is any function of the context's deadline and the message; for the handlers of the examples the moment of a cancellation is a parameter) and does not by itself make a call of the store fail (any call may); the calls of the store inside one job, tick or round are not interleaved with those of
  the same server's other goroutines except through the interference between requests; log output and the scheduling of the
  Go runtime are left out.
\<close>

end
